(* ===== verification/Go_Base.thy ===== *)
theory Go_Base
  imports Main "HOL-Library.Word" "HOL-Library.AList"
begin

text \<open>
  The prelude: Go's integers, errors, maps and the small generic lemmas that every component
  uses. Go's \<open>int\<close> and \<open>int64\<close> are HOL integers that pass through \<open>wrap64\<close> at every
  operation that can overflow, and the atomic counters of the telemetry are \<open>64 word\<close>. A Go map
  is an association list with distinct keys: its order is the order in which a \<open>range\<close> loop
  happens to visit it, and two association lists stand for the same map when their
  \<open>map_of\<close> agree.
\<close>

section \<open>Collections of the development\<close>

named_theorems wf_intros \<open>introduction rules for the well-formedness invariants\<close>
named_theorems redis_view \<open>what each server command does to the observed key space\<close>
named_theorems effect_simps \<open>what an operation does to the parts of the state\<close>

section \<open>Integers of 64 bits\<close>

definition wrap64 :: "int \<Rightarrow> int" where
  "wrap64 x = (x + 2 ^ 63) mod 2 ^ 64 - 2 ^ 63"

definition max_int64 :: int where
  "max_int64 = 2 ^ 63 - 1"

definition min_int64 :: int where
  "min_int64 = - (2 ^ 63)"

definition in_int64 :: "int \<Rightarrow> bool" where
  "in_int64 x \<longleftrightarrow> min_int64 \<le> x \<and> x \<le> max_int64"

lemmas int64_defs = max_int64_def min_int64_def in_int64_def

lemma wrap64_id [simp]: "in_int64 x \<Longrightarrow> wrap64 x = x"
  by (simp add: wrap64_def int64_defs)

lemma in_int64_wrap64 [simp]: "in_int64 (wrap64 x)"
proof -
  have "0 \<le> (x + 2 ^ 63) mod 2 ^ 64" and "(x + 2 ^ 63) mod 2 ^ 64 < (2 ^ 64 :: int)"
    by simp_all
  then show ?thesis by (simp add: wrap64_def int64_defs)
qed

lemma wrap64_word: "wrap64 x = sint (word_of_int x :: 64 word)"
  by (simp add: wrap64_def sint_sbintrunc' signed_take_bit_eq_take_bit_shift take_bit_eq_mod)

lemma wrap64_small:
  "- 9223372036854775808 \<le> x \<Longrightarrow> x \<le> 9223372036854775807 \<Longrightarrow> wrap64 x = x"
  by (simp add: wrap64_def)

text \<open>Go's integer division truncates towards zero.\<close>

definition quot64 :: "int \<Rightarrow> int \<Rightarrow> int" where
  "quot64 a b = sgn a * sgn b * (\<bar>a\<bar> div \<bar>b\<bar>)"

lemma quot64_nonneg: "0 \<le> a \<Longrightarrow> 0 < b \<Longrightarrow> quot64 a b = a div b"
  by (cases "a = 0") (simp_all add: quot64_def)

section \<open>Time\<close>

text \<open>
  \<open>time.Duration\<close> is an \<open>int64\<close> number of nanoseconds. An instant (\<open>time.Time\<close>) is an
  unbounded number of nanoseconds since the zero time of Go (year 1), so that \<open>IsZero\<close>
  is equality with 0; \<open>Sub\<close> saturates.
\<close>

type_synonym duration = int
type_synonym instant = int

definition Nanosecond :: duration where "Nanosecond = 1"
definition Millisecond :: duration where "Millisecond = 1000000"
definition Second :: duration where "Second = 1000000000"
definition Minute :: duration where "Minute = 60000000000"

lemmas duration_units = Nanosecond_def Millisecond_def Second_def Minute_def

text \<open>\<open>time.Duration(n) * unit\<close>: the product wraps around.\<close>

definition dur_mul :: "int \<Rightarrow> duration \<Rightarrow> duration" where
  "dur_mul n unit = wrap64 (n * unit)"

definition time_IsZero :: "instant \<Rightarrow> bool" where
  "time_IsZero t \<longleftrightarrow> t = 0"

definition time_Add :: "instant \<Rightarrow> duration \<Rightarrow> instant" where
  "time_Add t d = t + d"

definition time_Sub :: "instant \<Rightarrow> instant \<Rightarrow> duration" where
  "time_Sub t u = max min_int64 (min max_int64 (t - u))"

definition time_Before :: "instant \<Rightarrow> instant \<Rightarrow> bool" where
  "time_Before t u \<longleftrightarrow> t < u"

text \<open>The Unix epoch in nanoseconds since year 1, and the conversions the code uses.\<close>

definition unix_epoch :: instant where
  "unix_epoch = 62135596800 * 1000000000"

definition UnixMilli :: "instant \<Rightarrow> int" where
  "UnixMilli t = wrap64 ((t - unix_epoch) div 1000000)"

definition time_of_UnixMilli :: "int \<Rightarrow> instant" where
  "time_of_UnixMilli ms = unix_epoch + ms * 1000000"

definition dur_Milliseconds :: "duration \<Rightarrow> int" where
  "dur_Milliseconds d = quot64 d 1000000"

lemma dur_mul_Second_exact:
  "0 \<le> n \<Longrightarrow> n \<le> 9223372036 \<Longrightarrow> dur_mul n Second = n * 1000000000"
  by (simp add: dur_mul_def Second_def wrap64_small)

lemma UnixMilli_of_UnixMilli: "in_int64 ms \<Longrightarrow> UnixMilli (time_of_UnixMilli ms) = ms"
  by (simp add: UnixMilli_def time_of_UnixMilli_def)

section \<open>Errors\<close>

text \<open>
  The errors the code tells apart: \<open>redis.Nil\<close>, \<open>redis.TxFailedErr\<close>, a missing file, an
  expired deadline and the status of an HTTP reply; every other error is its text. A wrapped
  error (\<open>fmt.Errorf\<close> with \<open>%w\<close>) keeps what it wraps, which \<open>errors.Is\<close> looks through.
  \<open>GoPanic\<close> is a run-time panic.
\<close>

datatype go_error =
    ErrText string
  | ErrRedisNil
  | ErrTxFailed
  | ErrWrongType
  | ErrNotInteger
  | ErrNotExist
  | ErrDeadlineExceeded
  | ErrDecisionHTTP int
  | ErrWrap string go_error
  | GoPanic string

type_synonym 'a result = "go_error + 'a"

fun errors_Is :: "go_error \<Rightarrow> go_error \<Rightarrow> bool" where
  "errors_Is (ErrWrap m e) t = (ErrWrap m e = t \<or> errors_Is e t)"
| "errors_Is e t = (e = t)"

fun errors_As_decisionHTTP :: "go_error \<Rightarrow> int option" where
  "errors_As_decisionHTTP (ErrDecisionHTTP s) = Some s"
| "errors_As_decisionHTTP (ErrWrap m e) = errors_As_decisionHTTP e"
| "errors_As_decisionHTTP _ = None"

section \<open>Maps\<close>

type_synonym ('k, 'v) gomap = "('k \<times> 'v) list"

definition wf_map :: "('k, 'v) gomap \<Rightarrow> bool" where
  "wf_map m \<longleftrightarrow> distinct (map fst m)"

definition same_map :: "('k, 'v) gomap \<Rightarrow> ('k, 'v) gomap \<Rightarrow> bool" where
  "same_map m m' \<longleftrightarrow> map_of m = map_of m'"

definition lookup_or :: "'v \<Rightarrow> ('k \<rightharpoonup> 'v) \<Rightarrow> 'k \<Rightarrow> 'v" where
  "lookup_or d m k = (case m k of None \<Rightarrow> d | Some v \<Rightarrow> v)"

lemma lookup_or_upd [simp]: "lookup_or d (m(k \<mapsto> v)) k' = (if k' = k then v else lookup_or d m k')"
  by (simp add: lookup_or_def)

lemma lookup_or_empty [simp]: "lookup_or d Map.empty k = d"
  by (simp add: lookup_or_def)

lemma wf_map_Nil [simp, wf_intros]: "wf_map []"
  by (simp add: wf_map_def)

lemma wf_map_update [wf_intros]: "wf_map m \<Longrightarrow> wf_map (AList.update k v m)"
  by (simp add: wf_map_def distinct_update)

lemma wf_map_delete [wf_intros]: "wf_map m \<Longrightarrow> wf_map (AList.delete k m)"
  by (simp add: wf_map_def distinct_delete)

lemma map_of_update [simp]: "map_of (AList.update k v m) = (map_of m)(k \<mapsto> v)"
  by (simp add: update_conv')

lemma map_of_delete [simp]: "map_of (AList.delete k m) = (map_of m)(k := None)"
  by (simp add: delete_conv')

lemma wf_map_mem_iff: "wf_map m \<Longrightarrow> (k, v) \<in> set m \<longleftrightarrow> map_of m k = Some v"
  by (simp add: wf_map_def)

lemma map_of_map_snd: "map_of (map (\<lambda>(k, v). (k, f v)) m) k = map_option f (map_of m k)"
  by (induction m) auto

section \<open>Lists\<close>

text \<open>The first index of an element, the search loops of the code.\<close>

fun index_of :: "'a \<Rightarrow> 'a list \<Rightarrow> nat option" where
  "index_of v [] = None"
| "index_of v (x # xs) = (if x = v then Some 0 else map_option Suc (index_of v xs))"

lemma index_of_None [simp]: "index_of v xs = None \<longleftrightarrow> v \<notin> set xs"
  by (induction xs) auto

lemma index_of_Some:
  "index_of v xs = Some i \<Longrightarrow> i < length xs \<and> xs ! i = v \<and> v \<notin> set (take i xs)"
  by (induction xs arbitrary: i) (auto split: if_splits)

text \<open>\<open>append(xs[:i], xs[i+1:]...)\<close>\<close>

definition remove_at :: "nat \<Rightarrow> 'a list \<Rightarrow> 'a list" where
  "remove_at i xs = take i xs @ drop (Suc i) xs"

lemma remove_at_index_of: "index_of v xs = Some i \<Longrightarrow> remove_at i xs = remove1 v xs"
proof (induction xs arbitrary: i)
  case Nil
  then show ?case by simp
next
  case (Cons x xs)
  then show ?case
    by (cases "x = v") (auto simp: remove_at_def)
qed

end
