(* ===== verification/Go_Strings.thy ===== *)
theory Go_Strings
  imports Go_Base "HOL-Library.Sublist" "HOL-Library.Char_ord" "HOL-Library.List_Lexorder"
    "HOL-Library.Multiset"
begin

text \<open>
  Go strings: byte sequences (HOL's \<open>string\<close>, whose characters are bytes) that \<open>range\<close>,
  the \<open>strings\<close> package and the regular expressions read as UTF-8. The decoder follows
  \<open>unicode/utf8\<close>: an invalid byte is one rune U+FFFD of width 1. The functions of \<open>strings\<close>
  and \<open>strconv\<close> that the program calls follow.
\<close>

section \<open>Bytes\<close>

definition byte :: "char \<Rightarrow> nat" where
  "byte c = of_char c"

definition byte_char :: "nat \<Rightarrow> char" where
  "byte_char n = char_of n"

lemma byte_less [simp]: "byte c < 256"
  by (simp add: byte_def)

lemma byte_byte_char [simp]: "n < 256 \<Longrightarrow> byte (byte_char n) = n"
  by (simp add: byte_def byte_char_def)

lemma byte_char_byte [simp]: "byte_char (byte c) = c"
  by (simp add: byte_def byte_char_def)

lemma byte_char_space [simp]: "byte_char 32 = CHR '' ''"
  using byte_char_byte [of "CHR '' ''"] by (simp add: byte_def)

lemma byte_eq_iff [simp]: "byte c = byte d \<longleftrightarrow> c = d"
  by (metis byte_char_byte)

section \<open>UTF-8\<close>

definition is_cont :: "nat \<Rightarrow> bool" where
  "is_cont b \<longleftrightarrow> 128 \<le> b \<and> b \<le> 191"

definition rune_error :: nat where
  "rune_error = 65533"

text \<open>\<open>utf8.DecodeRuneInString\<close> on the bytes of a non-empty string: the rune and its width.\<close>

fun decode_bytes :: "nat list \<Rightarrow> nat \<times> nat" where
  "decode_bytes [] = (rune_error, 0)"
| "decode_bytes (b0 # bs) =
     (if b0 < 128 then (b0, 1)
      else if 194 \<le> b0 \<and> b0 \<le> 223 then
        (case bs of
           b1 # _ \<Rightarrow> if is_cont b1 then ((b0 - 192) * 64 + (b1 - 128), 2) else (rune_error, 1)
         | _ \<Rightarrow> (rune_error, 1))
      else if 224 \<le> b0 \<and> b0 \<le> 239 then
        (case bs of
           b1 # b2 # _ \<Rightarrow>
             if (if b0 = 224 then 160 else 128) \<le> b1 \<and> b1 \<le> (if b0 = 237 then 159 else 191)
                \<and> is_cont b2
             then ((b0 - 224) * 4096 + (b1 - 128) * 64 + (b2 - 128), 3) else (rune_error, 1)
         | _ \<Rightarrow> (rune_error, 1))
      else if 240 \<le> b0 \<and> b0 \<le> 244 then
        (case bs of
           b1 # b2 # b3 # _ \<Rightarrow>
             if (if b0 = 240 then 144 else 128) \<le> b1 \<and> b1 \<le> (if b0 = 244 then 143 else 191)
                \<and> is_cont b2 \<and> is_cont b3
             then ((b0 - 240) * 262144 + (b1 - 128) * 4096 + (b2 - 128) * 64 + (b3 - 128), 4)
             else (rune_error, 1)
         | _ \<Rightarrow> (rune_error, 1))
      else (rune_error, 1))"

definition decode_rune :: "string \<Rightarrow> nat \<times> nat" where
  "decode_rune s = decode_bytes (map byte (take 4 s))"

lemma decode_bytes_width:
  "bs \<noteq> [] \<Longrightarrow> 1 \<le> snd (decode_bytes bs) \<and> snd (decode_bytes bs) \<le> length bs
     \<and> snd (decode_bytes bs) \<le> 4"
  by (cases bs) (auto split: list.splits)

lemma decode_rune_width:
  assumes "s \<noteq> []"
  shows "1 \<le> snd (decode_rune s)" and "snd (decode_rune s) \<le> length s" and "snd (decode_rune s) \<le> 4"
  using decode_bytes_width [of "map byte (take 4 s)"] assms
  by (simp_all add: decode_rune_def)

text \<open>A rune of a string together with the bytes it was decoded from.\<close>

type_synonym rune = "nat \<times> string"

function decode_runes :: "string \<Rightarrow> rune list" where
  "decode_runes [] = []"
| "decode_runes (c # cs) =
     (let (r, w) = decode_rune (c # cs)
      in (r, take w (c # cs)) # decode_runes (drop w (c # cs)))"
  by pat_completeness auto
termination
proof (relation "measure length")
  fix c cs x xa y
  assume "x = decode_rune (c # cs)" and "(xa, y) = x"
  then have "1 \<le> y" using decode_rune_width(1) [of "c # cs"] by (metis list.distinct(1) snd_conv)
  then show "(drop y (c # cs), c # cs) \<in> measure length" by simp
qed simp

definition runes_string :: "rune list \<Rightarrow> string" where
  "runes_string rs = concat (map snd rs)"

lemma runes_string_simps [simp]:
  "runes_string [] = []"
  "runes_string (r # rs) = snd r @ runes_string rs"
  "runes_string (rs @ ss) = runes_string rs @ runes_string ss"
  by (simp_all add: runes_string_def)

lemma decode_runes_string [simp]: "runes_string (decode_runes s) = s"
  by (induction s rule: decode_runes.induct) (auto simp: Let_def split: prod.splits)

lemma decode_runes_nonempty: "(r, bs) \<in> set (decode_runes s) \<Longrightarrow> bs \<noteq> []"
proof (induction s rule: decode_runes.induct)
  case (2 c cs)
  then show ?case
    using decode_rune_width(1) [of "c # cs"]
    by (cases "decode_rune (c # cs)") (auto simp: Let_def)
qed simp

lemma decode_runes_eq_Nil [simp]: "decode_runes s = [] \<longleftrightarrow> s = []"
  by (cases s) (auto simp: Let_def split: prod.splits)

text \<open>ASCII strings decode byte by byte.\<close>

definition ascii :: "string \<Rightarrow> bool" where
  "ascii s \<longleftrightarrow> list_all (\<lambda>c. byte c < 128) s"

lemma decode_rune_ascii: "byte c < 128 \<Longrightarrow> decode_rune (c # cs) = (byte c, 1)"
  by (simp add: decode_rune_def numeral_eq_Suc)

lemma decode_runes_ascii_Cons:
  "byte c < 128 \<Longrightarrow> decode_runes (c # cs) = (byte c, [c]) # decode_runes cs"
  by (simp add: decode_rune_ascii)

lemma decode_runes_ascii: "ascii s \<Longrightarrow> decode_runes s = map (\<lambda>c. (byte c, [c])) s"
  by (induction s) (simp_all add: ascii_def decode_rune_ascii)

declare decode_runes.simps(2) [simp del]

text \<open>A rune below 128 comes from the one byte that it is.\<close>

lemma decode_bytes_2: "194 \<le> b0 \<Longrightarrow> b0 \<le> 223 \<Longrightarrow> 128 \<le> fst (decode_bytes (b0 # bs))"
  by (auto simp: rune_error_def split: list.split; arith)

lemma decode_bytes_3:
  assumes "224 \<le> b0" and "b0 \<le> 239"
  shows "128 \<le> fst (decode_bytes (b0 # bs))"
proof (cases "b0 = 224")
  case True
  then show ?thesis by (auto simp: rune_error_def split: list.split; arith)
next
  case False
  with assms have "4096 \<le> (b0 - 224) * 4096" by simp
  with assms show ?thesis by (simp add: rune_error_def split: list.split)
qed

lemma decode_bytes_4:
  assumes "240 \<le> b0" and "b0 \<le> 244"
  shows "128 \<le> fst (decode_bytes (b0 # bs))"
proof (cases "b0 = 240")
  case True
  then show ?thesis by (auto simp: rune_error_def split: list.split; arith)
next
  case False
  with assms have "262144 \<le> (b0 - 240) * 262144" by simp
  with assms show ?thesis by (simp add: rune_error_def split: list.split)
qed

lemma decode_bytes_small:
  assumes "fst (decode_bytes (b0 # bs)) < 128"
  shows "b0 < 128 \<and> decode_bytes (b0 # bs) = (b0, 1)"
proof -
  have "b0 < 128"
  proof (rule ccontr)
    assume "\<not> b0 < 128"
    moreover have "\<not> (194 \<le> b0 \<and> b0 \<le> 223)" and "\<not> (224 \<le> b0 \<and> b0 \<le> 239)" and "\<not> (240 \<le> b0 \<and> b0 \<le> 244)"
      using assms decode_bytes_2 [of b0 bs] decode_bytes_3 [of b0 bs] decode_bytes_4 [of b0 bs] by linarith+
    ultimately have "decode_bytes (b0 # bs) = (rune_error, 1)"
      by (simp only: decode_bytes.simps if_False)
    then show False using assms by (simp add: rune_error_def)
  qed
  then show ?thesis by simp
qed

text \<open>\<open>utf8.ValidString\<close>, and the encoder (\<open>utf8.AppendRune\<close>).\<close>

definition valid_utf8 :: "string \<Rightarrow> bool" where
  "valid_utf8 s \<longleftrightarrow> list_all (\<lambda>(r, bs). \<not> (r = rune_error \<and> length bs = 1)) (decode_runes s)"

definition encode_rune :: "nat \<Rightarrow> string" where
  "encode_rune r =
     (let r = (if r < 55296 \<or> (57344 \<le> r \<and> r \<le> 1114111) then r else rune_error)
      in map byte_char
        (if r < 128 then [r]
         else if r < 2048 then [192 + r div 64, 128 + r mod 64]
         else if r < 65536 then [224 + r div 4096, 128 + r div 64 mod 64, 128 + r mod 64]
         else [240 + r div 262144, 128 + r div 4096 mod 64, 128 + r div 64 mod 64, 128 + r mod 64]))"

lemma valid_utf8_Nil [simp]: "valid_utf8 []"
  by (simp add: valid_utf8_def)

lemma valid_utf8_ascii: "ascii s \<Longrightarrow> valid_utf8 s"
  by (auto simp: valid_utf8_def decode_runes_ascii rune_error_def list_all_iff ascii_def)

section \<open>Package strings\<close>

text \<open>\<open>unicode.IsSpace\<close>: the ASCII white space, U+0085, U+00A0 and the White\_Space property.\<close>

definition is_space :: "nat \<Rightarrow> bool" where
  "is_space r \<longleftrightarrow> (9 \<le> r \<and> r \<le> 13) \<or> r \<in> set [32, 133, 160, 5760, 8232, 8233, 8239, 8287, 12288]
     \<or> (8192 \<le> r \<and> r \<le> 8202)"

definition trim_space_runes :: "rune list \<Rightarrow> rune list" where
  "trim_space_runes rs =
     rev (dropWhile (\<lambda>(r, _). is_space r) (rev (dropWhile (\<lambda>(r, _). is_space r) rs)))"

definition TrimSpace :: "string \<Rightarrow> string" where
  "TrimSpace s = runes_string (trim_space_runes (decode_runes s))"

text \<open>\<open>strings.Fields\<close>: the maximal runs of runes that are not white space.\<close>

function fields_runes :: "rune list \<Rightarrow> string list" where
  "fields_runes rs =
     (case dropWhile (\<lambda>(r, _). is_space r) rs of
        [] \<Rightarrow> []
      | rs' \<Rightarrow> runes_string (takeWhile (\<lambda>(r, _). \<not> is_space r) rs')
               # fields_runes (dropWhile (\<lambda>(r, _). \<not> is_space r) rs'))"
  by pat_completeness auto
termination
proof (relation "measure length")
  fix rs x21 x22
  assume eq: "dropWhile (\<lambda>(r, _). is_space r) rs = x21 # x22"
  have ns: "\<not> is_space (fst x21)"
    using hd_dropWhile [of "\<lambda>(r, _). is_space r" rs] eq by (auto simp: case_prod_beta)
  have "length (dropWhile (\<lambda>(r, _). \<not> is_space r) (x21 # x22)) \<le> length x22"
    using ns by (simp add: case_prod_beta length_dropWhile_le)
  also have "\<dots> < length (x21 # x22)" by simp
  also have "\<dots> \<le> length rs" using length_dropWhile_le [of "\<lambda>(r, _). is_space r" rs] eq by simp
  finally show "(dropWhile (\<lambda>(r, _). \<not> is_space r) (x21 # x22), rs) \<in> measure length" by simp
qed simp

declare fields_runes.simps [simp del]

definition Fields :: "string \<Rightarrow> string list" where
  "Fields s = fields_runes (decode_runes s)"

fun str_join :: "string \<Rightarrow> string list \<Rightarrow> string" where
  "str_join sep [] = []"
| "str_join sep [x] = x"
| "str_join sep (x # xs) = x @ sep @ str_join sep xs"

fun str_contains :: "string \<Rightarrow> string \<Rightarrow> bool" where
  "str_contains [] sub = (sub = [])"
| "str_contains (c # cs) sub = (prefix sub (c # cs) \<or> str_contains cs sub)"

lemma str_contains_sublist: "str_contains s sub \<longleftrightarrow> sublist sub s"
  by (induction s) (simp_all add: sublist_Cons_right)

definition HasPrefix :: "string \<Rightarrow> string \<Rightarrow> bool" where
  "HasPrefix s p \<longleftrightarrow> prefix p s"

definition CutPrefix :: "string \<Rightarrow> string \<Rightarrow> string \<times> bool" where
  "CutPrefix s p = (if prefix p s then (drop (length p) s, True) else (s, False))"

text \<open>\<open>strings.Index\<close>: the first position, None for -1.\<close>

fun str_index :: "string \<Rightarrow> string \<Rightarrow> nat option" where
  "str_index [] sub = (if sub = [] then Some 0 else None)"
| "str_index (c # cs) sub =
     (if prefix sub (c # cs) then Some 0 else map_option Suc (str_index cs sub))"

lemma str_index_Some:
  "str_index s sub = Some i \<Longrightarrow> s = take i s @ sub @ drop (i + length sub) s"
proof (induction s arbitrary: i)
  case (Cons c cs)
  then show ?case
    by (auto split: if_splits simp: prefix_def)
qed (auto split: if_splits)

lemma str_index_None: "str_index s sub = None \<longleftrightarrow> \<not> str_contains s sub"
  by (induction s) auto

text \<open>\<open>strings.Trim(s, cut)\<close> for a cut set of one ASCII character.\<close>

definition trim_char :: "char \<Rightarrow> string \<Rightarrow> string" where
  "trim_char c s = rev (dropWhile (\<lambda>x. x = c) (rev (dropWhile (\<lambda>x. x = c) s)))"

text \<open>
  \<open>strings.ToLower\<close>: ASCII letters byte by byte; beyond ASCII each rune is mapped by
  \<open>unicode.ToLower\<close>, whose table is the parameter \<open>ulower\<close>, and an invalid byte becomes U+FFFD.
\<close>

definition lower_ascii :: "nat \<Rightarrow> nat" where
  "lower_ascii r = (if 65 \<le> r \<and> r \<le> 90 then r + 32 else r)"

definition ToLower :: "(nat \<Rightarrow> nat) \<Rightarrow> string \<Rightarrow> string" where
  "ToLower ulower s =
     concat (map (\<lambda>(r, _). encode_rune (if r < 128 then lower_ascii r else ulower r))
       (decode_runes s))"

section \<open>Package strconv\<close>

definition digit_char :: "nat \<Rightarrow> char" where
  "digit_char d = byte_char (48 + d)"

fun nat_dec :: "nat \<Rightarrow> string" where
  "nat_dec n = (if n < 10 then [digit_char n] else nat_dec (n div 10) @ [digit_char (n mod 10)])"

declare nat_dec.simps [simp del]

definition Itoa :: "int \<Rightarrow> string" where
  "Itoa i = (if i < 0 then CHR ''-'' # nat_dec (nat (- i)) else nat_dec (nat i))"

definition is_digit :: "char \<Rightarrow> bool" where
  "is_digit c \<longleftrightarrow> 48 \<le> byte c \<and> byte c \<le> 57"

definition digits_value :: "string \<Rightarrow> nat" where
  "digits_value s = foldl (\<lambda>n c. 10 * n + (byte c - 48)) 0 s"

definition parse_digits :: "string \<Rightarrow> nat option" where
  "parse_digits s = (if s \<noteq> [] \<and> list_all is_digit s then Some (digits_value s) else None)"

text \<open>A decimal integer with an optional sign, without a bound.\<close>

definition parse_dec :: "string \<Rightarrow> int option" where
  "parse_dec s =
     (case s of
        [] \<Rightarrow> None
      | c # cs \<Rightarrow>
          if c = CHR ''-'' then map_option (\<lambda>n. - int n) (parse_digits cs)
          else if c = CHR ''+'' then map_option int (parse_digits cs)
          else map_option int (parse_digits s))"

text \<open>
  \<open>strconv.Atoi\<close> and \<open>ParseInt(s, 10, 64)\<close> where the caller ignores the error: 0 on a
  syntax error, the nearest bound when the value is out of range.
\<close>

definition Atoi_ignore :: "string \<Rightarrow> int" where
  "Atoi_ignore s =
     (case parse_dec s of None \<Rightarrow> 0 | Some i \<Rightarrow> max min_int64 (min max_int64 i))"

lemma is_digit_digit_char [simp]: "d < 10 \<Longrightarrow> is_digit (digit_char d)"
  by (simp add: is_digit_def digit_char_def)

lemma nat_dec_digits: "list_all is_digit (nat_dec n)"
proof (induction n rule: nat_dec.induct)
  case (1 n)
  then show ?case
    by (subst nat_dec.simps) simp
qed

lemma nat_dec_nonempty [simp]: "nat_dec n \<noteq> []"
  by (subst nat_dec.simps) simp

lemma digits_value_snoc: "digits_value (s @ [c]) = 10 * digits_value s + (byte c - 48)"
  by (simp add: digits_value_def)

lemma digits_value_nat_dec [simp]: "digits_value (nat_dec n) = n"
proof (induction n rule: nat_dec.induct)
  case (1 n)
  show ?case
  proof (cases "n < 10")
    case True
    then show ?thesis
      by (subst nat_dec.simps) (simp add: digits_value_def digit_char_def)
  next
    case False
    with 1 have "digits_value (nat_dec (n div 10)) = n div 10" by simp
    with False show ?thesis
      by (subst nat_dec.simps) (simp add: digits_value_snoc digit_char_def)
  qed
qed

lemma parse_digits_nat_dec [simp]: "parse_digits (nat_dec n) = Some n"
  by (simp add: parse_digits_def nat_dec_digits)

lemma nat_dec_hd: "nat_dec n = c # cs \<Longrightarrow> is_digit c"
  using nat_dec_digits [of n] by simp

theorem parse_dec_Itoa [simp]: "parse_dec (Itoa i) = Some i"
proof (cases "i < 0")
  case True
  then show ?thesis by (simp add: parse_dec_def Itoa_def)
next
  case False
  obtain c cs where n: "nat_dec (nat i) = c # cs" by (meson nat_dec_nonempty neq_Nil_conv)
  have "is_digit c" using n by (rule nat_dec_hd)
  then have "c \<noteq> CHR ''-''" and "c \<noteq> CHR ''+''" by (auto simp: is_digit_def byte_def)
  moreover have "parse_digits (c # cs) = Some (nat i)" using n by (metis parse_digits_nat_dec)
  ultimately show ?thesis using False n by (simp add: parse_dec_def Itoa_def)
qed

lemma Atoi_ignore_Itoa: "in_int64 i \<Longrightarrow> Atoi_ignore (Itoa i) = i"
  by (simp add: Atoi_ignore_def int64_defs)

text \<open>\<open>sort.Strings\<close>: increasing by bytes.\<close>

definition sort_Strings :: "string list \<Rightarrow> string list" where
  "sort_Strings xs = sort xs"

lemma sort_Strings_simps [simp]:
  "set (sort_Strings xs) = set xs" "distinct (sort_Strings xs) = distinct xs"
  "length (sort_Strings xs) = length xs" "sorted (sort_Strings xs)" "mset (sort_Strings xs) = mset xs"
  by (simp_all add: sort_Strings_def)

end
