(* ===== verification/Regexp.thy ===== *)
theory Regexp
  imports Go_Strings
begin

text \<open>
  Package \<open>regexp\<close> as the program uses it: the syntax tree of a compiled expression, the
  leftmost-first matcher with capture groups, \<open>MatchString\<close>, \<open>FindStringSubmatch\<close> and
  \<open>ReplaceAllString\<close>. The matcher is a backtracking search over the runes of the text with a
  success continuation, whose first success in priority order is the match that Go's
  leftmost-first semantics selects; \<open>rsem\<close> is the declarative meaning it is proved against.
  The translation of an expression's text into its tree (\<open>regexp.Compile\<close>) is a parameter of
  the definitions that compile a configured pattern.
\<close>

section \<open>Expressions\<close>

text \<open>A class of runes: a list of ranges, negated or not.\<close>

datatype cclass = CClass bool "(nat \<times> nat) list"

fun in_class :: "nat \<Rightarrow> cclass \<Rightarrow> bool" where
  "in_class r (CClass neg rs) = (neg \<noteq> list_ex (\<lambda>(l, h). l \<le> r \<and> r \<le> h) rs)"

datatype regex =
    REmpty
  | RClass cclass
  | RSeq regex regex
  | RAlt regex regex
  | RStar regex
  | RGroup string regex
  | RWordB
  | RBegin
  | REnd

definition RPlus :: "regex \<Rightarrow> regex" where
  "RPlus r = RSeq r (RStar r)"

definition ROpt :: "regex \<Rightarrow> regex" where
  "ROpt r = RAlt r REmpty"

fun RSeqs :: "regex list \<Rightarrow> regex" where
  "RSeqs [] = REmpty"
| "RSeqs [r] = r"
| "RSeqs (r # rs) = RSeq r (RSeqs rs)"

text \<open>\<open>r{n}\<close>, \<open>r{n,}\<close> and \<open>r{n,m}\<close> expand as in \<open>regexp/syntax\<close>.\<close>

fun RExactly :: "nat \<Rightarrow> regex \<Rightarrow> regex" where
  "RExactly 0 r = REmpty"
| "RExactly (Suc 0) r = r"
| "RExactly (Suc n) r = RSeq r (RExactly n r)"

definition RAtLeast :: "nat \<Rightarrow> regex \<Rightarrow> regex" where
  "RAtLeast n r = RSeq (RExactly (n - 1) r) (RPlus r)"

fun RUpTo :: "nat \<Rightarrow> regex \<Rightarrow> regex" where
  "RUpTo 0 r = REmpty"
| "RUpTo (Suc n) r = ROpt (RSeq r (RUpTo n r))"

definition RBetween :: "nat \<Rightarrow> nat \<Rightarrow> regex \<Rightarrow> regex" where
  "RBetween n m r = RSeq (RExactly n r) (RUpTo (m - n) r)"

definition RChar :: "char \<Rightarrow> regex" where
  "RChar c = RClass (CClass False [(byte c, byte c)])"

definition RLit :: "string \<Rightarrow> regex" where
  "RLit s = RSeqs (map RChar s)"

text \<open>The Perl classes and the dot of the patterns.\<close>

definition cc_digit :: "(nat \<times> nat) list" where "cc_digit = [(48, 57)]"
definition cc_upper :: "(nat \<times> nat) list" where "cc_upper = [(65, 90)]"
definition cc_lower :: "(nat \<times> nat) list" where "cc_lower = [(97, 122)]"
definition cc_space :: "(nat \<times> nat) list" where "cc_space = [(9, 10), (12, 13), (32, 32)]"

definition cc_chars :: "string \<Rightarrow> (nat \<times> nat) list" where
  "cc_chars s = map (\<lambda>c. (byte c, byte c)) s"

definition RSet :: "(nat \<times> nat) list \<Rightarrow> regex" where
  "RSet rs = RClass (CClass False rs)"

definition RNotSet :: "(nat \<times> nat) list \<Rightarrow> regex" where
  "RNotSet rs = RClass (CClass True rs)"

definition RDigit :: regex where "RDigit = RSet cc_digit"
definition RDot :: regex where "RDot = RNotSet [(10, 10)]"
definition RSpace :: regex where "RSpace = RSet cc_space"
definition RNonSpace :: regex where "RNonSpace = RNotSet cc_space"

lemmas regex_defs = RPlus_def ROpt_def RAtLeast_def RBetween_def RChar_def RLit_def
  cc_digit_def cc_upper_def cc_lower_def cc_space_def cc_chars_def RSet_def RNotSet_def
  RDigit_def RDot_def RSpace_def RNonSpace_def

section \<open>The matcher\<close>

text \<open>
  A position: the rune before it (for \<open>\\b\<close> and the beginning of the text), the runes from it
  on, and the groups captured so far, the latest first.
\<close>

record mpos =
  mprev :: "nat option"
  mrest :: "rune list"
  mcaps :: "(string \<times> string) list"

definition word_rune :: "nat \<Rightarrow> bool" where
  "word_rune r \<longleftrightarrow> (48 \<le> r \<and> r \<le> 57) \<or> (65 \<le> r \<and> r \<le> 90) \<or> r = 95 \<or> (97 \<le> r \<and> r \<le> 122)"

definition at_word_boundary :: "mpos \<Rightarrow> bool" where
  "at_word_boundary s \<longleftrightarrow>
     (case mprev s of None \<Rightarrow> False | Some p \<Rightarrow> word_rune p)
     \<noteq> (case mrest s of [] \<Rightarrow> False | r # _ \<Rightarrow> word_rune (fst r))"

text \<open>The text between two positions, the later one a suffix of the earlier.\<close>

definition span :: "mpos \<Rightarrow> mpos \<Rightarrow> rune list" where
  "span s t = take (length (mrest s) - length (mrest t)) (mrest s)"

definition close_group :: "string \<Rightarrow> mpos \<Rightarrow> mpos \<Rightarrow> mpos" where
  "close_group n s t = t\<lparr>mcaps := (n, runes_string (span s t)) # mcaps t\<rparr>"

function rmatch :: "regex \<Rightarrow> mpos \<Rightarrow> (mpos \<Rightarrow> mpos option) \<Rightarrow> mpos option" where
  "rmatch REmpty s k = k s"
| "rmatch (RClass c) s k =
     (case mrest s of
        [] \<Rightarrow> None
      | r # rs \<Rightarrow> if in_class (fst r) c then k (s\<lparr>mprev := Some (fst r), mrest := rs\<rparr>) else None)"
| "rmatch (RSeq a b) s k = rmatch a s (\<lambda>t. rmatch b t k)"
| "rmatch (RAlt a b) s k =
     (case rmatch a s k of Some t \<Rightarrow> Some t | None \<Rightarrow> rmatch b s k)"
| "rmatch (RStar a) s k =
     (case rmatch a s (\<lambda>t. if length (mrest t) < length (mrest s) then rmatch (RStar a) t k else None)
      of Some t \<Rightarrow> Some t | None \<Rightarrow> k s)"
| "rmatch (RGroup n a) s k = rmatch a s (\<lambda>t. k (close_group n s t))"
| "rmatch RWordB s k = (if at_word_boundary s then k s else None)"
| "rmatch RBegin s k = (if mprev s = None then k s else None)"
| "rmatch REnd s k = (if mrest s = [] then k s else None)"
  by pat_completeness auto
termination
  by (relation "measures [\<lambda>(r, s, k). size r, \<lambda>(r, s, k). length (mrest s)]") auto

section \<open>The matcher as a machine\<close>

text \<open>
  The same search with its continuation as a stack of what is left to match: an expression, a
  group to close, or the check that an iteration of a star consumed something. It is first
  order, so the kernel evaluates it step by step, and it is proved equal to \<open>rmatch\<close>.
\<close>

datatype kitem =
    KRe regex
  | KClose string mpos
  | KLoop regex nat

fun kweight :: "nat \<Rightarrow> kitem \<Rightarrow> nat" where
  "kweight n (KRe r) = 3 * size r + 2"
| "kweight n (KClose g s) = 1"
| "kweight n (KLoop a m) = (if n < m then 3 * size a + 6 else 1)"

function (sequential) kmatch :: "kitem list \<Rightarrow> mpos \<Rightarrow> mpos option" where
  "kmatch [] s = Some s"
| "kmatch (KRe REmpty # ks) s = kmatch ks s"
| "kmatch (KRe (RClass c) # ks) s =
     (case mrest s of
        [] \<Rightarrow> None
      | r # rs \<Rightarrow>
          if in_class (fst r) c then kmatch ks (s\<lparr>mprev := Some (fst r), mrest := rs\<rparr>) else None)"
| "kmatch (KRe (RSeq a b) # ks) s = kmatch (KRe a # KRe b # ks) s"
| "kmatch (KRe (RAlt a b) # ks) s =
     (case kmatch (KRe a # ks) s of Some t \<Rightarrow> Some t | None \<Rightarrow> kmatch (KRe b # ks) s)"
| "kmatch (KRe (RStar a) # ks) s =
     (case kmatch (KRe a # KLoop a (length (mrest s)) # ks) s of
        Some t \<Rightarrow> Some t | None \<Rightarrow> kmatch ks s)"
| "kmatch (KRe (RGroup n a) # ks) s = kmatch (KRe a # KClose n s # ks) s"
| "kmatch (KRe RWordB # ks) s = (if at_word_boundary s then kmatch ks s else None)"
| "kmatch (KRe RBegin # ks) s = (if mprev s = None then kmatch ks s else None)"
| "kmatch (KRe REnd # ks) s = (if mrest s = [] then kmatch ks s else None)"
| "kmatch (KClose n s0 # ks) s = kmatch ks (close_group n s0 s)"
| "kmatch (KLoop a n # ks) s =
     (if length (mrest s) < n then kmatch (KRe (RStar a) # ks) s else None)"
  by pat_completeness auto
termination
  by (relation "measures [\<lambda>(ks, s). length (mrest s),
        \<lambda>(ks, s). sum_list (map (kweight (length (mrest s))) ks)]")
    (auto simp: close_group_def)

lemma kmatch_rmatch_star:
  assumes IH: "\<And>ks s. kmatch (KRe a # ks) s = rmatch a s (kmatch ks)"
  shows "kmatch (KRe (RStar a) # ks) s = rmatch (RStar a) s (kmatch ks)"
proof (induction "length (mrest s)" arbitrary: s rule: less_induct)
  case less
  have "kmatch (KLoop a (length (mrest s)) # ks) =
      (\<lambda>t. if length (mrest t) < length (mrest s) then rmatch (RStar a) t (kmatch ks) else None)"
    using less by auto
  then show ?case by (simp add: IH)
qed

theorem kmatch_rmatch: "kmatch (KRe r # ks) s = rmatch r s (kmatch ks)"
proof (induction r arbitrary: s ks)
  case (RSeq a b)
  have "kmatch (KRe b # ks) = (\<lambda>t. rmatch b t (kmatch ks))" using RSeq.IH(2) by auto
  then show ?case by (simp add: RSeq.IH(1))
next
  case (RStar a)
  then show ?case by (rule kmatch_rmatch_star)
next
  case (RGroup n a)
  have "kmatch (KClose n s # ks) = (\<lambda>t. kmatch ks (close_group n s t))" by auto
  then show ?case by (simp add: RGroup.IH)
qed (simp_all split: option.splits list.splits)

lemma rmatch_Some_kmatch: "rmatch r s Some = kmatch [KRe r] s"
proof -
  have "kmatch [] = Some" by auto
  then show ?thesis by (simp add: kmatch_rmatch)
qed

section \<open>The meaning of an expression\<close>

inductive rsem :: "regex \<Rightarrow> mpos \<Rightarrow> mpos \<Rightarrow> bool" where
  sem_empty: "rsem REmpty s s"
| sem_class: "mrest s = r # rs \<Longrightarrow> in_class (fst r) c \<Longrightarrow>
     rsem (RClass c) s (s\<lparr>mprev := Some (fst r), mrest := rs\<rparr>)"
| sem_seq: "rsem a s t \<Longrightarrow> rsem b t u \<Longrightarrow> rsem (RSeq a b) s u"
| sem_altL: "rsem a s t \<Longrightarrow> rsem (RAlt a b) s t"
| sem_altR: "rsem b s t \<Longrightarrow> rsem (RAlt a b) s t"
| sem_star0: "rsem (RStar a) s s"
| sem_star: "rsem a s t \<Longrightarrow> length (mrest t) < length (mrest s) \<Longrightarrow> rsem (RStar a) t u \<Longrightarrow>
     rsem (RStar a) s u"
| sem_group: "rsem a s t \<Longrightarrow> rsem (RGroup n a) s (close_group n s t)"
| sem_wordb: "at_word_boundary s \<Longrightarrow> rsem RWordB s s"
| sem_begin: "mprev s = None \<Longrightarrow> rsem RBegin s s"
| sem_end: "mrest s = [] \<Longrightarrow> rsem REnd s s"

inductive_cases rsem_emptyE [elim!]: "rsem REmpty s t"
inductive_cases rsem_classE [elim!]: "rsem (RClass c) s t"
inductive_cases rsem_seqE [elim!]: "rsem (RSeq a b) s t"
inductive_cases rsem_altE [elim!]: "rsem (RAlt a b) s t"
inductive_cases rsem_starE: "rsem (RStar a) s t"
inductive_cases rsem_groupE [elim!]: "rsem (RGroup n a) s t"
inductive_cases rsem_wordbE [elim!]: "rsem RWordB s t"
inductive_cases rsem_beginE [elim!]: "rsem RBegin s t"
inductive_cases rsem_endE [elim!]: "rsem REnd s t"

text \<open>Soundness: a success of the search is a success of its continuation at a position that
  the expression reaches.\<close>

lemma rmatch_sound: "rmatch r s k = Some u \<Longrightarrow> \<exists>t. rsem r s t \<and> k t = Some u"
proof (induction r s k arbitrary: u rule: rmatch.induct)
  case (2 c s k)
  then show ?case by (auto split: list.splits if_splits intro!: sem_class exI)
next
  case (3 a b s k)
  then obtain t where "rsem a s t" and "rmatch b t k = Some u"
    using "3.IH"(2) [of u] "3.prems" by auto
  then show ?case using "3.IH"(1) [of t u] by (auto intro: sem_seq)
next
  case (4 a b s k)
  then show ?case by (fastforce split: option.splits intro: sem_altL sem_altR)
next
  case (5 a s k)
  let ?k = "\<lambda>t. if length (mrest t) < length (mrest s) then rmatch (RStar a) t k else None"
  show ?case
  proof (cases "rmatch a s ?k")
    case None
    with "5.prems" show ?thesis by (auto intro: sem_star0)
  next
    case (Some v)
    with "5.prems" have v: "v = u" by simp
    obtain t where t: "rsem a s t" "?k t = Some u" using "5.IH"(2) [OF Some [unfolded v]] by blast
    then have len: "length (mrest t) < length (mrest s)" and "rmatch (RStar a) t k = Some u"
      by (auto split: if_splits)
    then obtain w where "rsem (RStar a) t w" "k w = Some u" using "5.IH"(1) by blast
    with t(1) len show ?thesis by (blast intro: sem_star)
  qed
next
  case (6 n a s k)
  then show ?case by (fastforce intro: sem_group)
qed (auto intro: rsem.intros split: if_splits)

text \<open>Completeness: the search fails only when the continuation fails at every position that
  the expression reaches.\<close>

lemma rmatch_complete: "rsem r s t \<Longrightarrow> k t \<noteq> None \<Longrightarrow> rmatch r s k \<noteq> None"
proof (induction arbitrary: k rule: rsem.induct)
  case (sem_star a s t u)
  let ?k = "\<lambda>t. if length (mrest t) < length (mrest s) then rmatch (RStar a) t k else None"
  have "?k t \<noteq> None" using sem_star.IH(2) [of k] sem_star.prems sem_star.hyps(2) by simp
  then have "rmatch a s ?k \<noteq> None" by (rule sem_star.IH(1))
  then show ?case by (auto split: option.splits)
next
  case (sem_altL a s t b)
  then have "rmatch a s k \<noteq> None" by blast
  then show ?case by auto
qed (auto split: option.splits)

theorem rmatch_None_iff: "rmatch r s Some = None \<longleftrightarrow> (\<nexists>t. rsem r s t)"
  using rmatch_sound [of r s Some] rmatch_complete [of r s _ Some]
  by (metis not_None_eq)

text \<open>A reached position is a suffix, and groups are only added.\<close>

lemma rsem_suffix: "rsem r s t \<Longrightarrow> \<exists>us. mrest s = us @ mrest t"
  by (induction rule: rsem.induct) (auto simp: close_group_def)

lemma span_append: "mrest s = us @ mrest t \<Longrightarrow> span s t = us"
  by (simp add: span_def)

lemma rsem_span: "rsem r s t \<Longrightarrow> mrest s = span s t @ mrest t"
  using rsem_suffix span_append by metis

section \<open>Searching\<close>

definition start_pos :: "nat option \<Rightarrow> rune list \<Rightarrow> mpos" where
  "start_pos p rs = \<lparr>mprev = p, mrest = rs, mcaps = []\<rparr>"

lemma start_pos_sel [simp]:
  "mprev (start_pos p rs) = p" "mrest (start_pos p rs) = rs" "mcaps (start_pos p rs) = []"
  by (simp_all add: start_pos_def)

text \<open>The leftmost position at which the expression matches: the runes skipped and the end of
  the match.\<close>

fun rfind :: "regex \<Rightarrow> nat option \<Rightarrow> rune list \<Rightarrow> (rune list \<times> mpos) option" where
  "rfind re p [] = map_option (\<lambda>t. ([], t)) (rmatch re (start_pos p []) Some)"
| "rfind re p (r # rs) =
     (case rmatch re (start_pos p (r # rs)) Some of
        Some t \<Rightarrow> Some ([], t)
      | None \<Rightarrow> map_option (\<lambda>(pre, t). (r # pre, t)) (rfind re (Some (fst r)) rs))"

lemma rfind_code [code]:
  "rfind re p rs =
     (case kmatch [KRe re] (start_pos p rs) of
        Some t \<Rightarrow> Some ([], t)
      | None \<Rightarrow> (case rs of
           [] \<Rightarrow> None
         | r # rs' \<Rightarrow> map_option (\<lambda>(pre, t). (r # pre, t)) (rfind re (Some (fst r)) rs')))"
  by (cases rs) (simp_all add: rmatch_Some_kmatch split: option.split)

definition prev_after :: "nat option \<Rightarrow> rune list \<Rightarrow> nat option" where
  "prev_after p pre = (if pre = [] then p else Some (fst (last pre)))"

lemma rfind_sound:
  "rfind re p rs = Some (pre, t) \<Longrightarrow>
     \<exists>post. rs = pre @ post \<and> rsem re (start_pos (prev_after p pre) post) t"
proof (induction re p rs arbitrary: pre rule: rfind.induct)
  case (1 re p)
  then obtain u where "rmatch re (start_pos p []) Some = Some u" "pre = []" "u = t" by auto
  then show ?case using rmatch_sound [of re "start_pos p []" Some u] by (auto simp: prev_after_def)
next
  case (2 re p r rs)
  show ?case
  proof (cases "rmatch re (start_pos p (r # rs)) Some")
    case None
    with 2 obtain pre' where pre: "pre = r # pre'" "rfind re (Some (fst r)) rs = Some (pre', t)"
      by auto
    then obtain post where "rs = pre' @ post" "rsem re (start_pos (prev_after (Some (fst r)) pre') post) t"
      using 2 None by blast
    with pre show ?thesis by (auto simp: prev_after_def split: if_splits)
  next
    case (Some u)
    with 2 have "pre = []" "u = t" by auto
    with Some show ?thesis
      using rmatch_sound [of re "start_pos p (r # rs)" Some u] by (auto simp: prev_after_def)
  qed
qed

lemma rfind_None:
  "rfind re p rs = None \<Longrightarrow> rs = pre @ post \<Longrightarrow> \<not> rsem re (start_pos (prev_after p pre) post) t"
proof (induction re p rs arbitrary: pre rule: rfind.induct)
  case (1 re p)
  then show ?case by (simp add: rmatch_None_iff prev_after_def)
next
  case (2 re p r rs)
  have none: "rmatch re (start_pos p (r # rs)) Some = None" and rest: "rfind re (Some (fst r)) rs = None"
    using "2.prems"(1) by (simp_all split: option.splits)
  show ?case
  proof (cases pre)
    case Nil
    with none 2 show ?thesis by (simp add: rmatch_None_iff prev_after_def)
  next
    case (Cons q qs)
    with 2 have "q = r" and rs: "rs = qs @ post" by auto
    have "\<not> rsem re (start_pos (prev_after (Some (fst r)) qs) post) t"
      using "2.IH" [OF none rest rs] .
    then show ?thesis using Cons \<open>q = r\<close> by (auto simp: prev_after_def split: if_splits)
  qed
qed

definition MatchString :: "regex \<Rightarrow> string \<Rightarrow> bool" where
  "MatchString re s \<longleftrightarrow> rfind re None (decode_runes s) \<noteq> None"

text \<open>
  \<open>FindStringSubmatch\<close> with \<open>SubexpNames\<close>: the named groups that took part in the match, the
  last value of each. A group that did not take part is the empty string in Go.
\<close>

definition FindSubmatch :: "regex \<Rightarrow> string \<Rightarrow> (string \<rightharpoonup> string) option" where
  "FindSubmatch re s = map_option (\<lambda>(pre, t). map_of (mcaps t)) (rfind re None (decode_runes s))"

theorem MatchString_iff:
  "MatchString re s \<longleftrightarrow>
     (\<exists>pre post t. decode_runes s = pre @ post \<and> rsem re (start_pos (prev_after None pre) post) t)"
  unfolding MatchString_def
  using rfind_sound [of re None "decode_runes s"] rfind_None [of re None "decode_runes s"]
  by fastforce

lemma FindSubmatch_None_iff: "FindSubmatch re s = None \<longleftrightarrow> \<not> MatchString re s"
  by (cases "rfind re None (decode_runes s)") (simp_all add: FindSubmatch_def MatchString_def)

section \<open>Replacement\<close>

text \<open>A replacement template: literal text and references to groups (\<open>\${1}\<close>).\<close>

datatype template_piece = TText string | TGroup string

fun expand :: "template_piece list \<Rightarrow> (string \<rightharpoonup> string) \<Rightarrow> string" where
  "expand [] m = []"
| "expand (TText s # ps) m = s @ expand ps m"
| "expand (TGroup g # ps) m = (case m g of None \<Rightarrow> [] | Some v \<Rightarrow> v) @ expand ps m"

text \<open>
  \<open>ReplaceAllString\<close>: copy up to each successive match, replace it and go on after it. After
  an empty match one rune is copied, and an empty match right after another match is not
  replaced (\<open>after\<close>).
\<close>

function replace_runes ::
    "regex \<Rightarrow> template_piece list \<Rightarrow> bool \<Rightarrow> nat option \<Rightarrow> rune list \<Rightarrow> string" where
  "replace_runes re tpl after p rs =
     (case rfind re p rs of
        None \<Rightarrow> runes_string rs
      | Some (pre, t) \<Rightarrow>
          let mlen = length rs - length pre - length (mrest t);
              new = (if mlen = 0 \<and> pre = [] \<and> after then [] else expand tpl (map_of (mcaps t)))
          in runes_string pre @ new @
             (if mlen = 0 then
                (case drop (length pre) rs of
                   [] \<Rightarrow> []
                 | r # rs' \<Rightarrow> snd r @ replace_runes re tpl False (Some (fst r)) rs')
              else replace_runes re tpl True
                     (Some (fst (rs ! (length pre + mlen - 1)))) (drop (length pre + mlen) rs)))"
  by pat_completeness auto
termination
proof (relation "measure (\<lambda>(re, tpl, after, p, rs). length rs)", goal_cases)
  case (2 re tpl after p rs a x y mlen new r rs')
  then have "length rs' < length (drop (length x) rs)" by simp
  also have "\<dots> \<le> length rs" by simp
  finally show ?case by simp
next
  case (3 re tpl after p rs a x y mlen new)
  then have "0 < length rs - length x" by simp
  with 3 show ?case by simp
qed simp

declare replace_runes.simps [simp del]

definition ReplaceAllString :: "regex \<Rightarrow> string \<Rightarrow> template_piece list \<Rightarrow> string" where
  "ReplaceAllString re s tpl = replace_runes re tpl False None (decode_runes s)"

lemma replace_runes_no_match:
  "rfind re p rs = None \<Longrightarrow> replace_runes re tpl after p rs = runes_string rs"
  by (simp add: replace_runes.simps)

lemma ReplaceAllString_no_match [simp]:
  "\<not> MatchString re s \<Longrightarrow> ReplaceAllString re s tpl = s"
  by (cases "rfind re None (decode_runes s)")
    (simp_all add: ReplaceAllString_def MatchString_def replace_runes_no_match)

end
