(* ===== verification/Log_Parser.thy ===== *)
theory Log_Parser
  imports Regexp
begin

text \<open>
  The log line parser of \<open>main.go\<close>: the four envelope expressions, \<open>extractGroups\<close> and
  \<open>parseLine\<close>. A parsed line is the map from group names to non-empty captured strings.
  The lemmas show what a parsed line says about the raw one, which lines are parsed and
  which are not.
\<close>

section \<open>The envelope expressions\<close>

definition cc_host :: "(nat \<times> nat) list" where
  "cc_host = cc_lower @ cc_upper @ cc_digit @ cc_chars ''._-''"

definition cc_process :: "(nat \<times> nat) list" where
  "cc_process = cc_lower @ cc_upper @ cc_digit @ cc_chars ''-_.''"

definition cc_process_slash :: "(nat \<times> nat) list" where
  "cc_process_slash = cc_lower @ cc_upper @ cc_digit @ cc_chars ''/-_.''"

definition tstmp_body :: regex where
  "tstmp_body = RSeqs
     [RPlus RDigit, RChar (CHR ''-''), RPlus RDigit, RChar (CHR ''-''), RPlus RDigit, RChar (CHR ''T''),
      RPlus RDigit, RChar (CHR '':''), RPlus RDigit, RChar (CHR '':''), RPlus RDigit,
      ROpt (RSeq (RChar (CHR ''.'')) (RPlus RDigit)),
      RChar (CHR ''+''), RPlus RDigit, RChar (CHR '':''), RPlus RDigit]"

definition envelope :: "(nat \<times> nat) list \<Rightarrow> regex list \<Rightarrow> regex" where
  "envelope proc tail = RSeqs
     (RGroup ''tstmp'' tstmp_body # RChar (CHR '' '') # RGroup ''host'' (RPlus (RSet cc_host))
      # RChar (CHR '' '') # RGroup ''process'' (RPlus (RSet proc)) # tail)"

definition text_group :: regex where
  "text_group = RGroup ''text'' (RStar RDot)"

definition parseRegex :: regex where
  "parseRegex = envelope cc_process_slash
     [ROpt (RAlt (RSeq (RChar (CHR '':'')) RSpace) RSpace),
      RChar (CHR ''[''), RGroup ''pid'' (RStar (RNotSet (cc_chars '']''))), RChar (CHR '']''),
      ROpt (RChar (CHR '':'')), RChar (CHR '' ''), text_group]"

definition nginxRegex :: regex where
  "nginxRegex = envelope cc_process
     [RChar (CHR '' ''), RExactly 4 RDigit, RChar (CHR ''/''), RExactly 2 RDigit, RChar (CHR ''/''),
      RExactly 2 RDigit, RChar (CHR '' ''), RExactly 2 RDigit, RChar (CHR '':''), RExactly 2 RDigit,
      RChar (CHR '':''), RExactly 2 RDigit, RChar (CHR '' ''),
      RChar (CHR ''[''), RGroup ''pid'' (RPlus (RNotSet (cc_chars '']''))), RChar (CHR '']''),
      RChar (CHR '' ''), RPlus RNonSpace, RChar (CHR '' ''), text_group]"

definition levelPidRegex :: regex where
  "levelPidRegex = envelope cc_process
     [RChar (CHR '' ''), RSet cc_upper, RStar (RSet (cc_upper @ cc_digit)), RStar RSpace,
      RChar (CHR ''[''), RGroup ''pid'' (RStar (RNotSet (cc_chars '']''))), RChar (CHR '']''),
      ROpt (RChar (CHR '':'')), RChar (CHR '' ''), text_group]"

definition noPidRegex :: regex where
  "noPidRegex = envelope cc_process [RChar (CHR '' ''), text_group]"

section \<open>extractGroups and parseLine\<close>

type_synonym fields = "string \<rightharpoonup> string"

text \<open>The value of a key of a possibly nil \<open>map[string]string\<close>.\<close>

definition pget :: "fields option \<Rightarrow> string \<Rightarrow> string" where
  "pget parsed k = (case parsed of None \<Rightarrow> [] | Some m \<Rightarrow> lookup_or [] m k)"

definition extractGroups :: "regex \<Rightarrow> string \<Rightarrow> fields option" where
  "extractGroups re line =
     (case FindSubmatch re line of
        None \<Rightarrow> None
      | Some m \<Rightarrow> Some (\<lambda>n. case m n of None \<Rightarrow> None | Some v \<Rightarrow> if v = [] then None else Some v))"

fun parse_first :: "regex list \<Rightarrow> string \<Rightarrow> fields result" where
  "parse_first [] line = Inl (ErrText ''line did not match any regex'')"
| "parse_first (re # res) line =
     (case extractGroups re line of Some parsed \<Rightarrow> Inr parsed | None \<Rightarrow> parse_first res line)"

definition parseLine :: "string \<Rightarrow> fields result" where
  "parseLine line = parse_first [nginxRegex, parseRegex, levelPidRegex, noPidRegex] line"

lemma pget_simps [simp]:
  "pget None k = []"
  "pget (Some m) k = (case m k of None \<Rightarrow> [] | Some v \<Rightarrow> v)"
  by (simp_all add: pget_def lookup_or_def)

lemma extractGroups_None_iff: "extractGroups re line = None \<longleftrightarrow> \<not> MatchString re line"
  by (auto simp: extractGroups_def FindSubmatch_None_iff [symmetric] split: option.splits)

lemma parse_first_Inr:
  "parse_first res line = Inr p \<Longrightarrow> \<exists>re \<in> set res. extractGroups re line = Some p"
  by (induction res) (auto split: option.splits)

lemma parse_first_error_iff:
  "(\<exists>e. parse_first res line = Inl e) \<longleftrightarrow> (\<forall>re \<in> set res. \<not> MatchString re line)"
  by (induction res) (auto simp: extractGroups_None_iff [symmetric] split: option.splits)

section \<open>Reading a match\<close>

text \<open>Groups of an expression; one without groups leaves the captures alone.\<close>

fun groups_of :: "regex \<Rightarrow> string set" where
  "groups_of (RSeq a b) = groups_of a \<union> groups_of b"
| "groups_of (RAlt a b) = groups_of a \<union> groups_of b"
| "groups_of (RStar a) = groups_of a"
| "groups_of (RGroup n a) = insert n (groups_of a)"
| "groups_of _ = {}"

lemma rsem_no_groups: "rsem r s t \<Longrightarrow> groups_of r = {} \<Longrightarrow> mcaps t = mcaps s"
  by (induction rule: rsem.induct) auto

lemma groups_of_RSeqs: "groups_of (RSeqs rs) = (\<Union>r \<in> set rs. groups_of r)"
  by (induction rs rule: RSeqs.induct) auto

text \<open>A match only adds captures, of its own groups, with substrings of the text ahead.\<close>

lemma runes_string_sublist: "sublist xs ys \<Longrightarrow> sublist (runes_string xs) (runes_string ys)"
  by (metis runes_string_simps(3) sublist_def)

lemma rsem_sublist: "rsem r s t \<Longrightarrow> sublist (runes_string (mrest t)) (runes_string (mrest s))"
  using rsem_suffix by (metis runes_string_sublist sublist_append_leftI sublist_order.order_refl)

definition caps_within :: "string set \<Rightarrow> rune list \<Rightarrow> (string \<times> string) list \<Rightarrow> bool" where
  "caps_within gs rs caps \<longleftrightarrow> (\<forall>(n, v) \<in> set caps. n \<in> gs \<and> sublist v (runes_string rs))"

lemma caps_within_simps [simp]:
  "caps_within gs rs []"
  "caps_within gs rs ((n, v) # caps) \<longleftrightarrow> n \<in> gs \<and> sublist v (runes_string rs) \<and> caps_within gs rs caps"
  "caps_within gs rs (xs @ ys) \<longleftrightarrow> caps_within gs rs xs \<and> caps_within gs rs ys"
  by (auto simp: caps_within_def)

lemma caps_within_mono:
  "caps_within gs rs caps \<Longrightarrow> gs \<subseteq> gs' \<Longrightarrow> sublist (runes_string rs) (runes_string rs') \<Longrightarrow>
     caps_within gs' rs' caps"
  using sublist_order.order_trans by (fastforce simp: caps_within_def)

lemma rsem_caps_extend:
  "rsem r s t \<Longrightarrow> \<exists>new. mcaps t = new @ mcaps s \<and> caps_within (groups_of r) (mrest s) new"
proof (induction rule: rsem.induct)
  case (sem_seq a s t b u)
  then obtain n1 n2 where n: "mcaps u = n2 @ n1 @ mcaps s"
      "caps_within (groups_of b) (mrest t) n2" "caps_within (groups_of a) (mrest s) n1" by auto
  moreover have "caps_within (groups_of (RSeq a b)) (mrest s) (n2 @ n1)"
    using n(2,3) rsem_sublist [OF sem_seq.hyps(1)] by (auto elim!: caps_within_mono)
  ultimately show ?case by (intro exI [of _ "n2 @ n1"]) simp
next
  case (sem_star a s t u)
  then obtain n1 n2 where n: "mcaps u = n2 @ n1 @ mcaps s"
      "caps_within (groups_of (RStar a)) (mrest t) n2" "caps_within (groups_of a) (mrest s) n1" by auto
  moreover have "caps_within (groups_of (RStar a)) (mrest s) (n2 @ n1)"
    using n(2,3) rsem_sublist [OF sem_star.hyps(1)] by (auto elim!: caps_within_mono)
  ultimately show ?case by (intro exI [of _ "n2 @ n1"]) simp
next
  case (sem_altL a s t b)
  then show ?case by (auto elim!: caps_within_mono)
next
  case (sem_altR b s t a)
  then show ?case by (auto elim!: caps_within_mono)
next
  case (sem_group a s t m)
  have "sublist (runes_string (span s t)) (runes_string (mrest s))"
    using rsem_span [OF sem_group.hyps] by (metis runes_string_sublist sublist_append_rightI)
  with sem_group.IH show ?case by (auto simp: close_group_def elim!: caps_within_mono)
qed auto

text \<open>Repetitions of one class.\<close>

lemma rsem_class_iff:
  "rsem (RClass c) s t \<longleftrightarrow>
     (\<exists>r rs. mrest s = r # rs \<and> in_class (fst r) c \<and> t = s\<lparr>mprev := Some (fst r), mrest := rs\<rparr>)"
  by (metis rsem_classE sem_class)

lemma rsem_star_class:
  "rsem q s t \<Longrightarrow> q = RStar (RClass c) \<Longrightarrow>
     \<exists>us. mrest s = us @ mrest t \<and> list_all (\<lambda>r. in_class (fst r) c) us \<and> mcaps t = mcaps s"
proof (induction rule: rsem.induct)
  case (sem_star a s t u)
  then obtain r rs us where "mrest s = r # rs" "in_class (fst r) c"
      "t = s\<lparr>mprev := Some (fst r), mrest := rs\<rparr>"
      "mrest t = us @ mrest u" "list_all (\<lambda>r. in_class (fst r) c) us" "mcaps u = mcaps t"
    by (auto simp: rsem_class_iff)
  then show ?case by (intro exI [of _ "r # us"]) auto
qed auto

lemma rsem_plus_class:
  assumes "rsem (RPlus (RClass c)) s t"
  shows "\<exists>us. us \<noteq> [] \<and> mrest s = us @ mrest t \<and> list_all (\<lambda>r. in_class (fst r) c) us
     \<and> mcaps t = mcaps s"
proof -
  from assms obtain m where "rsem (RClass c) s m" and m: "rsem (RStar (RClass c)) m t"
    unfolding RPlus_def by (rule rsem_seqE)
  then obtain r rs where "mrest s = r # rs" "in_class (fst r) c"
      "m = s\<lparr>mprev := Some (fst r), mrest := rs\<rparr>"
    by (auto simp: rsem_class_iff)
  with rsem_star_class [OF m refl] show ?thesis
    by (elim exE) (rule exI [of _ "r # us" for us], auto)
qed

lemma rsem_RChar:
  "rsem (RChar ch) s t \<Longrightarrow>
     \<exists>bs. mrest s = (byte ch, bs) # mrest t \<and> mcaps t = mcaps s"
  by (auto simp: RChar_def rsem_class_iff)

text \<open>Runs of a class can be matched, each rune in turn.\<close>

lemma rsem_star_class_intro:
  "list_all (\<lambda>r. in_class (fst r) c) us \<Longrightarrow> mrest s = us @ vs \<Longrightarrow>
     rsem (RStar (RClass c)) s
       (s\<lparr>mprev := (if us = [] then mprev s else Some (fst (last us))), mrest := vs\<rparr>)"
proof (induction us arbitrary: s)
  case Nil
  have "s\<lparr>mprev := mprev s, mrest := vs\<rparr> = s" using Nil by simp
  then show ?case by (simp add: sem_star0)
next
  case (Cons u us)
  let ?t = "s\<lparr>mprev := Some (fst u), mrest := us @ vs\<rparr>"
  have hd: "rsem (RClass c) s ?t" using Cons.prems by (auto simp: rsem_class_iff)
  have tl: "rsem (RStar (RClass c)) ?t
      (?t\<lparr>mprev := (if us = [] then mprev ?t else Some (fst (last us))), mrest := vs\<rparr>)"
    using Cons.IH [of ?t] Cons.prems by simp
  have "length (mrest ?t) < length (mrest s)" using Cons.prems by simp
  from sem_star [OF hd this tl] show ?case by (simp split: if_splits)
qed

section \<open>What a parsed line says about the raw line\<close>

definition class_string :: "(nat \<times> nat) list \<Rightarrow> string \<Rightarrow> bool" where
  "class_string rs s \<longleftrightarrow> list_all (\<lambda>(r, _). in_class r (CClass False rs)) (decode_runes s)"


lemma rsem_RSeqs_Cons: "rs \<noteq> [] \<Longrightarrow> rsem (RSeqs (r # rs)) s u \<longleftrightarrow> (\<exists>t. rsem r s t \<and> rsem (RSeqs rs) t u)"
  by (cases rs) (auto intro: sem_seq)

lemma rsem_RSeqs_ConsE:
  assumes "rsem (RSeqs (r # rs)) s u" and "rs \<noteq> []"
  obtains t where "rsem r s t" "rsem (RSeqs rs) t u"
  using assms by (auto simp: rsem_RSeqs_Cons)

lemma rsem_RSeqs_5:
  assumes "rsem (RSeqs (r1 # r2 # r3 # r4 # r5 # rs)) s t" and "rs \<noteq> []"
  obtains a b c d m where "rsem r1 s a" "rsem r2 a b" "rsem r3 b c" "rsem r4 c d" "rsem r5 d m"
    "rsem (RSeqs rs) m t"
proof -
  obtain a where a: "rsem r1 s a" "rsem (RSeqs (r2 # r3 # r4 # r5 # rs)) a t"
    using assms(1) by (rule rsem_RSeqs_ConsE) simp_all
  obtain b where b: "rsem r2 a b" "rsem (RSeqs (r3 # r4 # r5 # rs)) b t"
    using a(2) by (rule rsem_RSeqs_ConsE) simp_all
  obtain c where c: "rsem r3 b c" "rsem (RSeqs (r4 # r5 # rs)) c t"
    using b(2) by (rule rsem_RSeqs_ConsE) simp_all
  obtain d where d: "rsem r4 c d" "rsem (RSeqs (r5 # rs)) d t"
    using c(2) by (rule rsem_RSeqs_ConsE) simp_all
  obtain m where m: "rsem r5 d m" "rsem (RSeqs rs) m t"
    using d(2) assms(2) by (rule rsem_RSeqs_ConsE)
  show thesis using that a(1) b(1) c(1) d(1) m .
qed

lemma class_string_runes:
  "list_all (\<lambda>r. in_class (fst r) (CClass False rs)) us \<Longrightarrow> decode_runes s = us \<Longrightarrow> class_string rs s"
  by (auto simp: class_string_def list_all_iff)

text \<open>Runes decoded from ASCII bytes are those bytes.\<close>

lemma decode_runes_small:
  "(r, bs) \<in> set (decode_runes s) \<Longrightarrow> r < 128 \<Longrightarrow> bs = [byte_char r]"
proof (induction s rule: decode_runes.induct)
  case (2 c cs)
  obtain r' w where d: "decode_rune (c # cs) = (r', w)" by fastforce
  show ?case
  proof (cases "(r, bs) \<in> set (decode_runes (drop w (c # cs)))")
    case True
    then show ?thesis using 2 d by auto
  next
    case False
    then have "r = r'" and bs: "bs = take w (c # cs)"
      using "2.prems"(1) d by (auto simp: decode_runes.simps(2))
    then have "byte c = r" and "w = 1"
      using d "2.prems"(2) decode_bytes_small [of "byte c" "map byte (take 3 cs)"]
      by (auto simp: decode_rune_def numeral_eq_Suc)
    with bs show ?thesis by auto
  qed
qed simp

text \<open>Which single runes every match of an expression contains.\<close>

fun must_contain :: "nat \<Rightarrow> regex \<Rightarrow> bool" where
  "must_contain c (RClass (CClass neg rs)) = (\<not> neg \<and> rs = [(c, c)])"
| "must_contain c (RSeq a b) = (must_contain c a \<or> must_contain c b)"
| "must_contain c (RAlt a b) = (must_contain c a \<and> must_contain c b)"
| "must_contain c (RGroup n a) = must_contain c a"
| "must_contain c _ = False"

lemma must_contain_sound:
  "rsem r s t \<Longrightarrow> must_contain c r \<Longrightarrow> \<exists>x \<in> set (mrest s). fst x = c"
proof (induction rule: rsem.induct)
  case (sem_class s r rs cc)
  then show ?case by (cases cc) (auto split: if_splits)
next
  case (sem_seq a s t b u)
  obtain us where "mrest s = us @ mrest t" using rsem_suffix [OF sem_seq.hyps(1)] by blast
  with sem_seq show ?case by auto
qed auto

lemma MatchString_must_contain:
  assumes "MatchString re s" and "must_contain c re" and "c < 128"
  shows "byte_char c \<in> set s"
proof -
  from assms(1) obtain pre post t where d: "decode_runes s = pre @ post"
      and "rsem re (start_pos (prev_after None pre) post) t"
    by (auto simp: MatchString_iff)
  then obtain x where "x \<in> set post" and x: "fst x = c"
    using must_contain_sound assms(2) by fastforce
  then have mem: "(c, snd x) \<in> set (decode_runes s)" using d by auto
  then have "snd x = [byte_char c]" using decode_runes_small assms(3) by blast
  then have "byte_char c \<in> set (runes_string (decode_runes s))"
    using mem by (force simp: runes_string_def)
  then show ?thesis by simp
qed

lemma must_contain_envelopes:
  "c \<in> set [45, 84, 58, 43, 32] \<Longrightarrow> re \<in> set [nginxRegex, parseRegex, levelPidRegex, noPidRegex] \<Longrightarrow>
     must_contain c re"
  by (auto simp: nginxRegex_def parseRegex_def levelPidRegex_def noPidRegex_def envelope_def
      tstmp_body_def RChar_def byte_def)

lemma parseLine_Inr:
  "parseLine line = Inr p \<Longrightarrow>
     \<exists>re \<in> set [nginxRegex, parseRegex, levelPidRegex, noPidRegex]. extractGroups re line = Some p"
  unfolding parseLine_def by (rule parse_first_Inr)

lemma parseLine_contains:
  assumes "parseLine line = Inr p"
  shows "set ''-T:+ '' \<subseteq> set line"
proof
  fix ch
  assume "ch \<in> set ''-T:+ ''"
  then have c: "byte ch \<in> set [45, 84, 58, 43, 32]" by (auto simp: byte_def)
  then have small: "byte ch < 128" by auto
  from assms obtain re where re: "re \<in> set [nginxRegex, parseRegex, levelPidRegex, noPidRegex]"
      and "extractGroups re line = Some p"
    using parseLine_Inr by blast
  then have "MatchString re line" using extractGroups_None_iff [of re line] by simp
  then have "byte_char (byte ch) \<in> set line"
    using must_contain_envelopes [OF c re] small by (rule MatchString_must_contain)
  then show "ch \<in> set line" by simp
qed

text \<open>
  A line is parsed only if it contains the characters \<open>-\<close>, \<open>T\<close>, \<open>:\<close>, \<open>+\<close> and a space: in
  particular a timestamp with the zone \<open>Z\<close> or with a negative offset is never recognised
  unless the line has a \<open>+\<close> somewhere.
\<close>

theorem parseLine_required_characters:
  assumes "parseLine line = Inr p"
  shows "set ''-T:+ '' \<subseteq> set line"
  by (rule parseLine_contains [OF assms])


section \<open>The fields of a parsed line\<close>

lemma rsem_RGroup_plus:
  assumes "rsem (RGroup n (RPlus (RSet rs))) s t"
  shows "\<exists>us. us \<noteq> [] \<and> mrest s = us @ mrest t \<and> list_all (\<lambda>r. in_class (fst r) (CClass False rs)) us
     \<and> mcaps t = (n, runes_string us) # mcaps s"
proof -
  from assms obtain m where m: "rsem (RPlus (RClass (CClass False rs))) s m" and t: "t = close_group n s m"
    by (auto simp: RSet_def)
  obtain us where us: "us \<noteq> []" "mrest s = us @ mrest m"
      "list_all (\<lambda>r. in_class (fst r) (CClass False rs)) us" "mcaps m = mcaps s"
    using rsem_plus_class [OF m] by blast
  then have "span s m = us" using span_append by blast
  with us t show ?thesis by (auto simp: close_group_def)
qed

lemma rsem_plus_first:
  assumes "rsem (RSeqs (RPlus (RClass c) # rs)) s t" and "rs \<noteq> []"
  shows "span s t \<noteq> []"
proof -
  obtain m where m: "rsem (RPlus (RClass c)) s m" "rsem (RSeqs rs) m t"
    using assms by (auto simp: rsem_RSeqs_Cons)
  obtain us where "us \<noteq> []" "mrest s = us @ mrest m" using rsem_plus_class [OF m(1)] by blast
  moreover obtain vs where "mrest m = vs @ mrest t" using rsem_suffix [OF m(2)] by blast
  ultimately show ?thesis using rsem_span [OF assms(1)] by auto
qed

lemma tstmp_nonempty: "rsem tstmp_body s t \<Longrightarrow> span s t \<noteq> []"
  unfolding tstmp_body_def RDigit_def RSet_def by (erule rsem_plus_first) simp

lemma groups_of_tstmp: "groups_of tstmp_body = {}"
  by (simp add: tstmp_body_def regex_defs)

lemma envelope_shape:
  assumes "rsem (envelope proc tail) s t" and caps: "mcaps s = []" and "tail \<noteq> []"
  shows "\<exists>ts sp1 h sp2 pr m. mrest s = ts @ sp1 # h @ sp2 # pr @ mrest m \<and> fst sp1 = 32 \<and> fst sp2 = 32
     \<and> ts \<noteq> [] \<and> h \<noteq> [] \<and> list_all (\<lambda>r. in_class (fst r) (CClass False cc_host)) h
     \<and> pr \<noteq> [] \<and> list_all (\<lambda>r. in_class (fst r) (CClass False proc)) pr
     \<and> rsem (RSeqs tail) m t
     \<and> mcaps m = [(''process'', runes_string pr), (''host'', runes_string h), (''tstmp'', runes_string ts)]"
proof -
  obtain a b c d m where
      a: "rsem (RGroup ''tstmp'' tstmp_body) s a" and b: "rsem (RChar (CHR '' '')) a b"
      and c: "rsem (RGroup ''host'' (RPlus (RSet cc_host))) b c" and d: "rsem (RChar (CHR '' '')) c d"
      and m: "rsem (RGroup ''process'' (RPlus (RSet proc))) d m" and t: "rsem (RSeqs tail) m t"
    using rsem_RSeqs_5 [OF assms(1) [unfolded envelope_def] assms(3)] .
  from a obtain a' where a': "rsem tstmp_body s a'" "a = close_group ''tstmp'' s a'" by auto
  then have ts: "mrest s = span s a' @ mrest a" "span s a' \<noteq> []" "mcaps a = [(''tstmp'', runes_string (span s a'))]"
    using rsem_span [OF a'(1)] tstmp_nonempty [OF a'(1)] rsem_no_groups [OF a'(1)] groups_of_tstmp caps
    by (auto simp: close_group_def)
  obtain x1 where x1: "mrest a = (32, x1) # mrest b" "mcaps b = mcaps a"
    using rsem_RChar [OF b] by (auto simp: byte_def)
  obtain x2 where x2: "mrest c = (32, x2) # mrest d" "mcaps d = mcaps c"
    using rsem_RChar [OF d] by (auto simp: byte_def)
  from rsem_RGroup_plus [OF c] rsem_RGroup_plus [OF m] ts x1 x2 t show ?thesis
    by (elim exE conjE) (intro exI conjI, (simp; fail)+)
qed

text \<open>The keys that every envelope fills, and what is left for \<open>pid\<close> and \<open>text\<close>.\<close>

definition tail_ok :: "regex list \<Rightarrow> bool" where
  "tail_ok tail \<longleftrightarrow> tail \<noteq> [] \<and> (\<forall>r \<in> set tail. groups_of r \<subseteq> {''pid'', ''text''})"

lemma runes_of_class:
  assumes "set us \<subseteq> set (decode_runes s)" and "list_all (\<lambda>r. in_class (fst r) (CClass False rs)) us"
    and "\<forall>(l, h) \<in> set rs. h < 128"
  shows "\<forall>c \<in> set (runes_string us). in_class (byte c) (CClass False rs)"
proof
  fix c
  assume "c \<in> set (runes_string us)"
  then obtain r bs where r: "(r, bs) \<in> set us" "c \<in> set bs" by (auto simp: runes_string_def)
  then have "in_class r (CClass False rs)" using assms(2) by (auto simp: list_all_iff)
  moreover from this have "r < 128" using assms(3) by (fastforce simp: list_ex_iff)
  then have "bs = [byte_char r]" using decode_runes_small r assms(1) by blast
  ultimately show "in_class (byte c) (CClass False rs)" using r \<open>r < 128\<close> by auto
qed

lemma nonempty_runes_string:
  "us \<noteq> [] \<Longrightarrow> set us \<subseteq> set (decode_runes s) \<Longrightarrow> runes_string us \<noteq> []"
  using decode_runes_nonempty by (cases us) auto

definition envelope_fields :: "(nat \<times> nat) list \<Rightarrow> string \<Rightarrow> fields \<Rightarrow> bool" where
  "envelope_fields proc line p \<longleftrightarrow> (\<exists>pre ts h pr post.
     line = pre @ ts @ '' '' @ h @ '' '' @ pr @ post
     \<and> p ''tstmp'' = Some ts \<and> p ''host'' = Some h \<and> p ''process'' = Some pr
     \<and> (\<forall>c \<in> set h. in_class (byte c) (CClass False cc_host))
     \<and> (\<forall>c \<in> set pr. in_class (byte c) (CClass False proc))
     \<and> dom p \<subseteq> {''tstmp'', ''host'', ''process'', ''pid'', ''text''}
     \<and> (\<forall>k \<in> {''pid'', ''text''}. \<forall>v. p k = Some v \<longrightarrow> sublist v post))
     \<and> (\<forall>k v. p k = Some v \<longrightarrow> v \<noteq> [])"

lemma extractGroups_envelope:
  assumes eg: "extractGroups (envelope proc tail) line = Some p" and tail: "tail_ok tail"
    and proc: "\<forall>(l, h) \<in> set proc. h < 128"
  shows "envelope_fields proc line p"
proof -
  from eg obtain pre t where f: "rfind (envelope proc tail) None (decode_runes line) = Some (pre, t)"
      and p: "p = (\<lambda>n. case map_of (mcaps t) n of None \<Rightarrow> None | Some v \<Rightarrow> if v = [] then None else Some v)"
    by (auto simp: extractGroups_def FindSubmatch_def split: option.splits)
  obtain post where d: "decode_runes line = pre @ post"
      and sem: "rsem (envelope proc tail) (start_pos (prev_after None pre) post) t"
    using rfind_sound [OF f] by blast
  obtain ts sp1 h sp2 pr m where shape: "post = ts @ sp1 # h @ sp2 # pr @ mrest m" "fst sp1 = 32" "fst sp2 = 32"
      "ts \<noteq> []" "h \<noteq> []" "list_all (\<lambda>r. in_class (fst r) (CClass False cc_host)) h"
      "pr \<noteq> []" "list_all (\<lambda>r. in_class (fst r) (CClass False proc)) pr" "rsem (RSeqs tail) m t"
      "mcaps m = [(''process'', runes_string pr), (''host'', runes_string h), (''tstmp'', runes_string ts)]"
    using envelope_shape [OF sem] tail by (auto simp: tail_ok_def)
  have sub: "set ts \<subseteq> set (decode_runes line)" "set h \<subseteq> set (decode_runes line)"
      "set pr \<subseteq> set (decode_runes line)"
      "(fst sp1, snd sp1) \<in> set (decode_runes line)" "(fst sp2, snd sp2) \<in> set (decode_runes line)"
    using d shape(1) by auto
  have sp: "snd sp1 = '' ''" "snd sp2 = '' ''"
    using decode_runes_small [OF sub(4)] decode_runes_small [OF sub(5)] shape(2,3)
    by simp_all
  obtain new where new: "mcaps t = new @ mcaps m" "caps_within (groups_of (RSeqs tail)) (mrest m) new"
    using rsem_caps_extend [OF shape(9)] by blast
  have gs: "groups_of (RSeqs tail) \<subseteq> {''pid'', ''text''}"
    using tail by (auto simp: tail_ok_def groups_of_RSeqs)
  then have names: "fst ` set new \<subseteq> {''pid'', ''text''}" using new(2) by (fastforce simp: caps_within_def)
  have vals: "sublist v (runes_string (mrest m))" if "(n, v) \<in> set new" for n v
    using new(2) that by (auto simp: caps_within_def)
  have look: "map_of (mcaps t) k = map_of (mcaps m) k" if "k \<notin> {''pid'', ''text''}" for k
  proof -
    have "map_of new k = None" using names that by (auto simp: map_of_eq_None_iff)
    then show ?thesis using new(1) by (simp add: map_add_def)
  qed
  have look2: "(k, v) \<in> set new" if "map_of (mcaps t) k = Some v" "k \<in> {''pid'', ''text''}" for k v
  proof -
    have "map_of (mcaps m) k = None" using that(2) shape(10) by auto
    then have "map_of new k = Some v" using that(1) new(1) by (auto simp: map_add_def split: option.splits)
    then show ?thesis by (rule map_of_SomeD)
  qed
  have ne: "runes_string ts \<noteq> []" "runes_string h \<noteq> []" "runes_string pr \<noteq> []"
    using nonempty_runes_string shape(4,5,7) sub by blast+
  have line: "line = runes_string pre @ runes_string ts @ '' '' @ runes_string h @ '' ''
      @ runes_string pr @ runes_string (mrest m)"
    using d shape(1) sp by (metis append_assoc decode_runes_string runes_string_simps(2,3))
  have dom: "dom p \<subseteq> {''tstmp'', ''host'', ''process'', ''pid'', ''text''}"
  proof
    fix k
    assume "k \<in> dom p"
    then have k: "map_of (mcaps t) k \<noteq> None" by (auto simp: p split: option.splits)
    show "k \<in> {''tstmp'', ''host'', ''process'', ''pid'', ''text''}"
    proof (cases "k \<in> {''pid'', ''text''}")
      case False
      with k have "map_of (mcaps m) k \<noteq> None" using look by simp
      then show ?thesis using shape(10) by (auto split: if_splits)
    qed blast
  qed
  have val: "p k = Some v" if "map_of (mcaps t) k = Some v" "v \<noteq> []" for k v
    using that by (simp add: p)
  have pv: "map_of (mcaps t) k = Some v" if "p k = Some v" for k v
    using that by (simp add: p split: option.splits if_splits)
  have flds: "p ''tstmp'' = Some (runes_string ts)" "p ''host'' = Some (runes_string h)"
      "p ''process'' = Some (runes_string pr)"
    using ne by (auto intro!: val simp: look shape(10))
  have rest: "\<forall>k \<in> {''pid'', ''text''}. \<forall>v. p k = Some v \<longrightarrow> sublist v (runes_string (mrest m))"
    using look2 vals pv by blast
  have h: "\<forall>c \<in> set (runes_string h). in_class (byte c) (CClass False cc_host)"
    by (rule runes_of_class [OF sub(2) shape(6)])
      (auto simp: cc_host_def cc_lower_def cc_upper_def cc_digit_def cc_chars_def byte_def)
  have pr: "\<forall>c \<in> set (runes_string pr). in_class (byte c) (CClass False proc)"
    by (rule runes_of_class [OF sub(3) shape(8) proc])
  have "\<forall>k v. p k = Some v \<longrightarrow> v \<noteq> []" by (simp add: p split: option.splits)
  with line dom flds rest h pr show ?thesis unfolding envelope_fields_def by blast
qed

lemma envelope_fields_mono:
  "envelope_fields cc_process line p \<Longrightarrow> envelope_fields cc_process_slash line p"
  unfolding envelope_fields_def
  by (auto simp: cc_process_def cc_process_slash_def cc_chars_def) blast

lemmas envelope_regexes = nginxRegex_def parseRegex_def levelPidRegex_def noPidRegex_def

lemma small_process_classes:
  "\<forall>(l, h) \<in> set cc_process. h < 128" "\<forall>(l, h) \<in> set cc_process_slash. h < 128"
  by (auto simp: cc_process_def cc_process_slash_def cc_lower_def cc_upper_def cc_digit_def
      cc_chars_def byte_def)

text \<open>
  C33. What a parsed line says about the raw line: the line contains the timestamp, the host and
  the process one after the other with single spaces between, the three are non-empty and made
  of the characters their groups allow, the pid and the text (when present) are substrings of
  what follows the process, and no other key and no empty value is stored.
\<close>

theorem parseLine_fields:
  assumes "parseLine line = Inr p"
  shows "envelope_fields cc_process_slash line p"
proof -
  obtain re where "re \<in> set [nginxRegex, parseRegex, levelPidRegex, noPidRegex]"
      and eg: "extractGroups re line = Some p"
    using parseLine_Inr [OF assms] by blast
  then consider "re = nginxRegex" | "re = parseRegex" | "re = levelPidRegex" | "re = noPidRegex" by auto
  then show ?thesis
  proof cases
    case 1
    show ?thesis
      by (rule envelope_fields_mono, rule extractGroups_envelope [OF eg [unfolded 1 nginxRegex_def] _ small_process_classes(1)])
        (simp add: tail_ok_def text_group_def regex_defs numeral_eq_Suc)
  next
    case 2
    show ?thesis
      by (rule extractGroups_envelope [OF eg [unfolded 2 parseRegex_def] _ small_process_classes(2)])
        (simp add: tail_ok_def text_group_def regex_defs)
  next
    case 3
    show ?thesis
      by (rule envelope_fields_mono, rule extractGroups_envelope [OF eg [unfolded 3 levelPidRegex_def] _ small_process_classes(1)])
        (simp add: tail_ok_def text_group_def regex_defs)
  next
    case 4
    show ?thesis
      by (rule envelope_fields_mono, rule extractGroups_envelope [OF eg [unfolded 4 noPidRegex_def] _ small_process_classes(1)])
        (simp add: tail_ok_def text_group_def regex_defs)
  qed
qed

section \<open>Lines that are parsed\<close>

text \<open>An expression accepts the runes \<open>us\<close> when it can consume them whatever follows.\<close>

definition racc :: "regex \<Rightarrow> rune list \<Rightarrow> bool" where
  "racc r us \<longleftrightarrow> (\<forall>s vs. mrest s = us @ vs \<longrightarrow> (\<exists>t. rsem r s t \<and> mrest t = vs))"

lemma racc_RSeq: "racc a us \<Longrightarrow> racc b vs \<Longrightarrow> racc (RSeq a b) (us @ vs)"
  unfolding racc_def by (metis append_assoc sem_seq)

lemma racc_REmpty: "racc REmpty []"
  by (auto simp: racc_def intro: sem_empty)

lemma racc_RSeqs: "list_all2 racc rs uss \<Longrightarrow> racc (RSeqs rs) (concat uss)"
proof (induction rs arbitrary: uss rule: RSeqs.induct)
  case 1
  then show ?case by (simp add: racc_REmpty)
next
  case (2 r)
  then show ?case by (auto simp: list_all2_Cons1)
next
  case (3 r r' rs)
  then obtain us uss' where "uss = us # uss'" "racc r us" "list_all2 racc (r' # rs) uss'"
    by (auto simp: list_all2_Cons1)
  with 3 show ?case by (auto intro: racc_RSeq)
qed

lemma racc_RGroup: "racc r us \<Longrightarrow> racc (RGroup n r) us"
  unfolding racc_def by (metis close_group_def mpos.select_convs(2) mpos.surjective mpos.update_convs(3) sem_group)

lemma racc_RStar_Nil: "racc (RStar r) []"
  by (auto simp: racc_def intro: sem_star0)

lemma racc_star_class: "list_all (\<lambda>r. in_class (fst r) c) us \<Longrightarrow> racc (RStar (RClass c)) us"
  unfolding racc_def using rsem_star_class_intro by fastforce

lemma racc_class: "in_class (fst r) c \<Longrightarrow> racc (RClass c) [r]"
  by (auto simp: racc_def rsem_class_iff)

lemma racc_plus_class:
  assumes "us \<noteq> []" and "list_all (\<lambda>r. in_class (fst r) c) us"
  shows "racc (RPlus (RClass c)) us"
proof -
  obtain u us' where us: "us = u # us'" using assms(1) by (cases us) auto
  with assms have "racc (RClass c) [u]" and "racc (RStar (RClass c)) us'"
    by (auto intro: racc_class racc_star_class)
  then show ?thesis using racc_RSeq us unfolding RPlus_def by fastforce
qed

lemma racc_ROpt: "us = [] \<or> racc r us \<Longrightarrow> racc (ROpt r) us"
  unfolding racc_def ROpt_def by (metis append_Nil sem_altL sem_altR sem_empty)

abbreviation ascii_runes :: "string \<Rightarrow> rune list" where
  "ascii_runes s \<equiv> map (\<lambda>c. (byte c, [c])) s"

lemma decode_runes_ascii_append: "ascii s \<Longrightarrow> decode_runes (s @ t) = ascii_runes s @ decode_runes t"
  by (induction s) (simp_all add: ascii_def decode_runes_ascii_Cons)

lemma racc_RChar: "racc (RChar c) (ascii_runes [c])"
  unfolding RChar_def by (simp add: racc_class)

lemma racc_plus_set:
  "s \<noteq> [] \<Longrightarrow> \<forall>c \<in> set s. in_class (byte c) (CClass False rs) \<Longrightarrow> racc (RPlus (RSet rs)) (ascii_runes s)"
  unfolding RSet_def by (intro racc_plus_class) (auto simp: list_all_iff)

definition digits :: "string \<Rightarrow> bool" where
  "digits s \<longleftrightarrow> s \<noteq> [] \<and> list_all is_digit s"

lemma racc_digits: "digits s \<Longrightarrow> racc (RPlus RDigit) (ascii_runes s)"
  unfolding RDigit_def
  by (intro racc_plus_set) (auto simp: digits_def is_digit_def cc_digit_def list_all_iff)

text \<open>An RFC 3339 timestamp with a numeric offset east of Greenwich.\<close>

definition east_tstmp :: "string \<Rightarrow> bool" where
  "east_tstmp ts \<longleftrightarrow> (\<exists>y mo d h mi s f oh om.
     ts = y @ ''-'' @ mo @ ''-'' @ d @ ''T'' @ h @ '':'' @ mi @ '':'' @ s @ f @ ''+'' @ oh @ '':'' @ om
     \<and> list_all digits [y, mo, d, h, mi, s, oh, om] \<and> (f = [] \<or> (\<exists>n. f = ''.'' @ n \<and> digits n)))"

lemma racc_tstmp:
  assumes "east_tstmp ts"
  shows "racc tstmp_body (ascii_runes ts)"
proof -
  obtain y mo d h mi s f oh om where
    ts: "ts = y @ ''-'' @ mo @ ''-'' @ d @ ''T'' @ h @ '':'' @ mi @ '':'' @ s @ f @ ''+'' @ oh @ '':'' @ om"
    and dg: "list_all digits [y, mo, d, h, mi, s, oh, om]" and f: "f = [] \<or> (\<exists>n. f = ''.'' @ n \<and> digits n)"
    using assms unfolding east_tstmp_def by blast
  have opt: "racc (ROpt (RSeq (RChar (CHR ''.'')) (RPlus RDigit))) (ascii_runes f)"
  proof (rule racc_ROpt)
    from f show "ascii_runes f = [] \<or> racc (RSeq (RChar CHR ''.'') (RPlus RDigit)) (ascii_runes f)"
      using racc_RSeq [OF racc_RChar racc_digits] by fastforce
  qed
  have "racc tstmp_body (concat (map ascii_runes
      [y, ''-'', mo, ''-'', d, ''T'', h, '':'', mi, '':'', s, f, ''+'', oh, '':'', om]))"
    unfolding tstmp_body_def
    using dg opt by (intro racc_RSeqs) (simp add: racc_digits racc_RChar [simplified])
  then show ?thesis using ts by simp
qed

lemma ascii_digits: "digits s \<Longrightarrow> ascii s"
  by (auto simp: digits_def ascii_def list_all_iff is_digit_def)

lemma ascii_Cons [simp]: "ascii [] \<and> (ascii (c # s) \<longleftrightarrow> byte c < 128 \<and> ascii s)"
  by (simp add: ascii_def)

lemma ascii_append [simp]: "ascii (s @ t) \<longleftrightarrow> ascii s \<and> ascii t"
  by (simp add: ascii_def)

lemma ascii_east_tstmp: "east_tstmp ts \<Longrightarrow> ascii ts"
  unfolding east_tstmp_def by (auto simp: ascii_digits) (auto simp: ascii_digits byte_def)

lemma ascii_class:
  "\<forall>c \<in> set s. in_class (byte c) (CClass False rs) \<Longrightarrow> \<forall>(l, h) \<in> set rs. h < 128 \<Longrightarrow> ascii s"
  by (fastforce simp: ascii_def list_all_iff list_ex_iff)

text \<open>
  C34. Every line that consists of a timestamp with an offset east of Greenwich, a host, a process
  and any text, separated by single spaces, is parsed.
\<close>

theorem parseLine_accepts:
  assumes ts: "east_tstmp ts" and h: "h \<noteq> []" "\<forall>c \<in> set h. in_class (byte c) (CClass False cc_host)"
    and pr: "pr \<noteq> []" "\<forall>c \<in> set pr. in_class (byte c) (CClass False cc_process)"
  shows "\<exists>p. parseLine (ts @ '' '' @ h @ '' '' @ pr @ '' '' @ rest) = Inr p"
proof -
  let ?line = "ts @ '' '' @ h @ '' '' @ pr @ '' '' @ rest"
  let ?us = "concat [ascii_runes ts, ascii_runes '' '', ascii_runes h, ascii_runes '' '', ascii_runes pr,
      ascii_runes '' '', []]"
  have acc: "racc noPidRegex ?us"
    unfolding noPidRegex_def envelope_def text_group_def
    by (intro racc_RSeqs)
      (simp add: racc_tstmp [OF ts] racc_RGroup racc_plus_set [OF h] racc_plus_set [OF pr]
        racc_RStar_Nil racc_RChar [of "CHR '' ''", simplified])
  have "ascii h"
    by (rule ascii_class [OF h(2)]) (auto simp: cc_host_def cc_lower_def cc_upper_def cc_digit_def cc_chars_def byte_def)
  moreover have "ascii pr" by (rule ascii_class [OF pr(2) small_process_classes(1)])
  ultimately have "ascii (ts @ '' '' @ h @ '' '' @ pr @ '' '')"
    using ascii_east_tstmp [OF ts] by (simp add: byte_def)
  then have "decode_runes ?line = ?us @ decode_runes rest"
    using decode_runes_ascii_append [of "ts @ '' '' @ h @ '' '' @ pr @ '' ''" rest] by simp
  then have post: "mrest (start_pos None (decode_runes ?line)) = ?us @ decode_runes rest" by simp
  obtain t where "rsem noPidRegex (start_pos None (decode_runes ?line)) t"
    using acc [unfolded racc_def, rule_format, OF post] by blast
  then have "MatchString noPidRegex ?line"
    unfolding MatchString_iff
    by (intro exI [of _ "[]"] exI [of _ "decode_runes ?line"]) (auto simp: prev_after_def)
  then have "\<not> (\<exists>e. parseLine ?line = Inl e)"
    unfolding parseLine_def parse_first_error_iff by simp
  then show ?thesis by (metis sum.exhaust)
qed

theorem parseLine_accepts_witness:
  "\<exists>p. parseLine (''2026-8-28T12:0:0.5+02:00'' @ '' '' @ ''h'' @ '' '' @ ''cron'' @ '' '' @ ''failed'') = Inr p"
proof (rule parseLine_accepts)
  show "east_tstmp ''2026-8-28T12:0:0.5+02:00''"
    unfolding east_tstmp_def
    by (rule exI [of _ "''2026''"], rule exI [of _ "''8''"], rule exI [of _ "''28''"], rule exI [of _ "''12''"],
        rule exI [of _ "''0''"], rule exI [of _ "''0''"], rule exI [of _ "''.5''"], rule exI [of _ "''02''"],
        rule exI [of _ "''00''"]) (simp add: digits_def is_digit_def byte_def)
qed (simp_all add: cc_host_def cc_process_def cc_lower_def cc_upper_def cc_digit_def cc_chars_def byte_def)

text \<open>A short line and its fields, for the theorems about parsed lines.\<close>

definition sample_line :: string where
  "sample_line = ''1-1-1T1:1:1+1:1 h p x''"

definition sample_fields :: "string list" where
  "sample_fields = (case parseLine sample_line of Inl _ \<Rightarrow> []
     | Inr p \<Rightarrow> map (\<lambda>k. pget (Some p) k) [''host'', ''process'', ''pid'', ''text''])"

lemma sample_fields_eval: "sample_fields = [''h'', ''p'', [], ''x'']"
  by code_simp

lemma sample_line_parsed: "\<exists>p. parseLine sample_line = Inr p"
  using sample_fields_eval by (cases "parseLine sample_line") (auto simp: sample_fields_def)

theorem parseLine_required_characters_witness: "set ''-T:+ '' \<subseteq> set sample_line"
  using sample_line_parsed parseLine_required_characters by blast

theorem parseLine_fields_witness: "\<exists>p. parseLine sample_line = Inr p \<and> envelope_fields cc_process_slash sample_line p"
  using sample_line_parsed parseLine_fields by blast

end
