(* ===== verification/Json.thy ===== *)
theory Json
  imports Go_Strings
begin

text \<open>
  Package \<open>encoding/json\<close> as the program uses it: \<open>Marshal\<close> and \<open>MarshalIndent\<close> (with its HTML
  escaping and the replacement of invalid UTF-8), the parser behind \<open>Unmarshal\<close> and
  \<open>Decoder.Decode\<close> (the conversions into Go values are in \<open>Json_Decode\<close>). A number keeps its literal. The parser runs on fuel, one unit per value or member, and
  \<open>fuel_le_length\<close> shows that the length of the input is enough for what the printer writes; the
  main result is the round trip of printing and parsing. The parser's own limit of 10,000 nested
  values is not modelled.
\<close>

datatype json =
    JNull
  | JBool bool
  | JNum string
  | JStr string
  | JArr "json list"
  | JObj "(string \<times> json) list"

section \<open>Printing\<close>

definition hex_digit :: "nat \<Rightarrow> char" where
  "hex_digit d = byte_char (if d < 10 then 48 + d else 87 + d)"

definition u_escape :: "nat \<Rightarrow> string" where
  "u_escape r = [byte_char 92, CHR ''u'', hex_digit (r div 4096 mod 16), hex_digit (r div 256 mod 16),
     hex_digit (r div 16 mod 16), hex_digit (r mod 16)]"

text \<open>One rune of a string literal, with the bytes it was decoded from.\<close>

definition esc_rune :: "rune \<Rightarrow> string" where
  "esc_rune rb = (case rb of (r, bs) \<Rightarrow>
     if r = 34 then [byte_char 92, byte_char 34]
     else if r = 92 then [byte_char 92, byte_char 92]
     else if r = 8 then [byte_char 92, CHR ''b'']
     else if r = 12 then [byte_char 92, CHR ''f'']
     else if r = 10 then [byte_char 92, CHR ''n'']
     else if r = 13 then [byte_char 92, CHR ''r'']
     else if r = 9 then [byte_char 92, CHR ''t'']
     else if r < 32 \<or> r \<in> set [38, 60, 62, 8232, 8233] then u_escape r
     else if r = rune_error \<and> length bs = 1 then u_escape rune_error
     else bs)"

definition json_quote :: "string \<Rightarrow> string" where
  "json_quote s = byte_char 34 # concat (map esc_rune (decode_runes s)) @ [byte_char 34]"

text \<open>The line break and indentation before an element at depth \<open>d\<close>: none in the compact form.\<close>

definition json_nl :: "bool \<Rightarrow> nat \<Rightarrow> string" where
  "json_nl ind d = (if ind then byte_char 10 # replicate (2 * d) (byte_char 32) else [])"

definition json_colon :: "bool \<Rightarrow> string" where
  "json_colon ind = (if ind then '': '' else '':'')"

fun print_json :: "bool \<Rightarrow> nat \<Rightarrow> json \<Rightarrow> string"
  and print_elems :: "bool \<Rightarrow> nat \<Rightarrow> json list \<Rightarrow> string"
  and print_members :: "bool \<Rightarrow> nat \<Rightarrow> (string \<times> json) list \<Rightarrow> string" where
  "print_json ind d JNull = ''null''"
| "print_json ind d (JBool b) = (if b then ''true'' else ''false'')"
| "print_json ind d (JNum n) = n"
| "print_json ind d (JStr s) = json_quote s"
| "print_json ind d (JArr []) = ''[]''"
| "print_json ind d (JArr (x # xs)) =
     ''['' @ json_nl ind (Suc d) @ print_json ind (Suc d) x @ print_elems ind d xs"
| "print_json ind d (JObj []) = ''{}''"
| "print_json ind d (JObj ((k, v) # ms)) =
     ''{'' @ json_nl ind (Suc d) @ json_quote k @ json_colon ind @ print_json ind (Suc d) v
     @ print_members ind d ms"
| "print_elems ind d [] = json_nl ind d @ '']''"
| "print_elems ind d (x # xs) =
     '','' @ json_nl ind (Suc d) @ print_json ind (Suc d) x @ print_elems ind d xs"
| "print_members ind d [] = json_nl ind d @ ''}''"
| "print_members ind d ((k, v) # ms) =
     '','' @ json_nl ind (Suc d) @ json_quote k @ json_colon ind @ print_json ind (Suc d) v
     @ print_members ind d ms"

definition Marshal :: "json \<Rightarrow> string" where
  "Marshal j = print_json False 0 j"

definition MarshalIndent :: "json \<Rightarrow> string" where
  "MarshalIndent j = print_json True 0 j"

section \<open>Parsing\<close>

definition json_ws :: "char \<Rightarrow> bool" where
  "json_ws c \<longleftrightarrow> byte c \<in> set [32, 9, 10, 13]"

definition skip_ws :: "string \<Rightarrow> string" where
  "skip_ws s = dropWhile json_ws s"

definition hex_value :: "char \<Rightarrow> nat option" where
  "hex_value c = (let b = byte c in
     if 48 \<le> b \<and> b \<le> 57 then Some (b - 48)
     else if 97 \<le> b \<and> b \<le> 102 then Some (b - 87)
     else if 65 \<le> b \<and> b \<le> 70 then Some (b - 55) else None)"

fun hex4 :: "string \<Rightarrow> (nat \<times> string) option" where
  "hex4 (a # b # c # d # s) =
     (case (hex_value a, hex_value b, hex_value c, hex_value d) of
        (Some w, Some x, Some y, Some z) \<Rightarrow> Some (((w * 16 + x) * 16 + y) * 16 + z, s)
      | _ \<Rightarrow> None)"
| "hex4 _ = None"

definition is_surrogate :: "nat \<Rightarrow> bool" where
  "is_surrogate r \<longleftrightarrow> 55296 \<le> r \<and> r < 57344"

text \<open>What follows a backslash: the bytes it stands for and the rest. A surrogate pair is one
  rune; an unpaired surrogate is U+FFFD.\<close>

definition unescape_u :: "string \<Rightarrow> (string \<times> string) option" where
  "unescape_u s =
     (case hex4 s of
        None \<Rightarrow> None
      | Some (r, t) \<Rightarrow>
          if \<not> is_surrogate r then Some (encode_rune r, t)
          else (case t of
              b # u # t' \<Rightarrow>
                if byte b = 92 \<and> u = CHR ''u'' \<and> r < 56320 then
                  (case hex4 t' of
                     Some (r2, t'') \<Rightarrow>
                       if 56320 \<le> r2 \<and> r2 < 57344
                       then Some (encode_rune ((r - 55296) * 1024 + (r2 - 56320) + 65536), t'')
                       else Some (encode_rune rune_error, t)
                   | None \<Rightarrow> Some (encode_rune rune_error, t))
                else Some (encode_rune rune_error, t)
            | _ \<Rightarrow> Some (encode_rune rune_error, t)))"

definition unescape :: "string \<Rightarrow> (string \<times> string) option" where
  "unescape s = (case s of
      [] \<Rightarrow> None
    | c # cs \<Rightarrow>
        if byte c \<in> set [34, 92, 47] then Some ([c], cs)
        else if c = CHR ''b'' then Some ([byte_char 8], cs)
        else if c = CHR ''f'' then Some ([byte_char 12], cs)
        else if c = CHR ''n'' then Some ([byte_char 10], cs)
        else if c = CHR ''r'' then Some ([byte_char 13], cs)
        else if c = CHR ''t'' then Some ([byte_char 9], cs)
        else if c = CHR ''u'' then unescape_u cs
        else None)"

lemma hex4_shorter: "hex4 s = Some (r, t) \<Longrightarrow> length t < length s"
  by (induction s rule: hex4.induct) (auto split: option.splits)

lemma unescape_shorter: "unescape s = Some (out, t) \<Longrightarrow> length t < length s"
  by (auto simp: unescape_def unescape_u_def split: list.splits if_splits option.splits
      dest!: hex4_shorter)

text \<open>The body of a string literal, after its opening quote.\<close>

function json_str :: "string \<Rightarrow> (string \<times> string) option" where
  "json_str [] = None"
| "json_str (c # cs) =
     (if byte c = 34 then Some ([], cs)
      else if byte c = 92 then
        (case unescape cs of
           None \<Rightarrow> None
         | Some (out, t) \<Rightarrow> map_option (\<lambda>(v, u). (out @ v, u)) (json_str t))
      else if byte c < 32 then None
      else map_option (\<lambda>(v, u). (encode_rune (fst (decode_rune (c # cs))) @ v, u))
             (json_str (drop (snd (decode_rune (c # cs))) (c # cs))))"
  by pat_completeness auto
termination
proof (relation "measure length", goal_cases)
  case (2 c cs x a b)
  then show ?case using unescape_shorter [of cs a b] by simp
next
  case (3 c cs)
  then show ?case using decode_rune_width(1) [of "c # cs"] by simp
qed simp

declare json_str.simps(2) [simp del]

lemma json_str_shorter: "json_str s = Some (v, t) \<Longrightarrow> length t < length s"
proof (induction s arbitrary: v rule: json_str.induct)
  case (2 c cs)
  show ?case
  proof (cases "byte c = 34")
    case True
    with 2 show ?thesis by (simp add: json_str.simps)
  next
    case q: False
    show ?thesis
    proof (cases "byte c = 92")
      case True
      with q "2.prems" obtain out u v' where "unescape cs = Some (out, u)" "json_str u = Some (v', t)"
        by (auto simp: json_str.simps split: option.splits)
      then show ?thesis using "2.IH"(1) [OF q True] unescape_shorter by fastforce
    next
      case False
      with q "2.prems" have ge: "\<not> byte c < 32"
        and ex: "\<exists>v'. json_str (drop (snd (decode_rune (c # cs))) (c # cs)) = Some (v', t)"
        by (auto simp: json_str.simps split: if_splits)
      from ex obtain v' where v': "json_str (drop (snd (decode_rune (c # cs))) (c # cs)) = Some (v', t)" by blast
      show ?thesis using "2.IH"(2) [OF q False ge v'] by simp
    qed
  qed
qed simp

text \<open>A number literal: an integer part without leading zeros, a fraction, an exponent.\<close>

definition num_int :: "string \<Rightarrow> (string \<times> string) option" where
  "num_int s = (case s of
      [] \<Rightarrow> None
    | c # cs \<Rightarrow>
        if c = CHR ''0'' then Some ([c], cs)
        else if is_digit c then Some (takeWhile is_digit s, dropWhile is_digit s) else None)"

definition num_frac :: "string \<Rightarrow> (string \<times> string) option" where
  "num_frac s = (case s of
      c # d # cs \<Rightarrow>
        if c = CHR ''.'' then
          (if is_digit d then Some (c # takeWhile is_digit (d # cs), dropWhile is_digit (d # cs)) else None)
        else Some ([], s)
    | [c] \<Rightarrow> if c = CHR ''.'' then None else Some ([], s)
    | [] \<Rightarrow> Some ([], s))"

definition num_exp :: "string \<Rightarrow> (string \<times> string) option" where
  "num_exp s = (case s of
      c # cs \<Rightarrow>
        if c = CHR ''e'' \<or> c = CHR ''E'' then
          (let (sg, ds) = (case cs of d # ds \<Rightarrow> if d = CHR ''+'' \<or> d = CHR ''-'' then ([d], ds) else ([], cs)
                            | [] \<Rightarrow> ([], []))
           in if takeWhile is_digit ds = [] then None
              else Some (c # sg @ takeWhile is_digit ds, dropWhile is_digit ds))
        else Some ([], s)
    | [] \<Rightarrow> Some ([], s))"

definition json_num :: "string \<Rightarrow> (string \<times> string) option" where
  "json_num s =
     (let (sg, s1) = (case s of c # cs \<Rightarrow> if c = CHR ''-'' then ([c], cs) else ([], s) | [] \<Rightarrow> ([], []))
      in Option.bind (num_int s1) (\<lambda>(i, s2).
         Option.bind (num_frac s2) (\<lambda>(f, s3).
         Option.bind (num_exp s3) (\<lambda>(e, s4). Some (sg @ i @ f @ e, s4)))))"

fun json_val :: "nat \<Rightarrow> string \<Rightarrow> (json \<times> string) option"
  and json_elems :: "nat \<Rightarrow> string \<Rightarrow> (json list \<times> string) option"
  and json_members :: "nat \<Rightarrow> string \<Rightarrow> ((string \<times> json) list \<times> string) option" where
  "json_val 0 s = None"
| "json_val (Suc n) s =
     (case skip_ws s of
        [] \<Rightarrow> None
      | c # cs \<Rightarrow>
          if c = CHR ''{'' then
            (case skip_ws cs of
               [] \<Rightarrow> None
             | d # ds \<Rightarrow> if d = CHR ''}'' then Some (JObj [], ds)
                          else map_option (\<lambda>(ms, t). (JObj ms, t)) (json_members n (d # ds)))
          else if c = CHR ''['' then
            (case skip_ws cs of
               [] \<Rightarrow> None
             | d # ds \<Rightarrow> if d = CHR '']'' then Some (JArr [], ds)
                          else map_option (\<lambda>(xs, t). (JArr xs, t)) (json_elems n (d # ds)))
          else if byte c = 34 then map_option (\<lambda>(v, t). (JStr v, t)) (json_str cs)
          else if prefix ''true'' (c # cs) then Some (JBool True, drop 4 (c # cs))
          else if prefix ''false'' (c # cs) then Some (JBool False, drop 5 (c # cs))
          else if prefix ''null'' (c # cs) then Some (JNull, drop 4 (c # cs))
          else map_option (\<lambda>(v, t). (JNum v, t)) (json_num (c # cs)))"
| "json_elems 0 s = None"
| "json_elems (Suc n) s =
     (case json_val n s of
        None \<Rightarrow> None
      | Some (v, t) \<Rightarrow>
          (case skip_ws t of
             [] \<Rightarrow> None
           | c # cs \<Rightarrow>
               if c = CHR '','' then map_option (\<lambda>(xs, u). (v # xs, u)) (json_elems n cs)
               else if c = CHR '']'' then Some ([v], cs) else None))"
| "json_members 0 s = None"
| "json_members (Suc n) s =
     (case skip_ws s of
        [] \<Rightarrow> None
      | q # cs \<Rightarrow>
          if byte q \<noteq> 34 then None
          else (case json_str cs of
             None \<Rightarrow> None
           | Some (k, t) \<Rightarrow>
               (case skip_ws t of
                  [] \<Rightarrow> None
                | d # ds \<Rightarrow>
                    if d \<noteq> CHR '':'' then None
                    else (case json_val n ds of
                       None \<Rightarrow> None
                     | Some (v, u) \<Rightarrow>
                         (case skip_ws u of
                            [] \<Rightarrow> None
                          | e # es \<Rightarrow>
                              if e = CHR '','' then
                                map_option (\<lambda>(ms, w). ((k, v) # ms, w)) (json_members n es)
                              else if e = CHR ''}'' then Some ([(k, v)], es) else None)))))"

text \<open>\<open>Decoder.Decode\<close> reads the first value of its input; \<open>Unmarshal\<close> wants nothing but white
  space after it.\<close>

definition json_decode :: "string \<Rightarrow> json option" where
  "json_decode s = map_option fst (json_val (Suc (length s)) s)"

definition json_unmarshal :: "string \<Rightarrow> json option" where
  "json_unmarshal s =
     (case json_val (Suc (length s)) s of
        None \<Rightarrow> None
      | Some (j, t) \<Rightarrow> if skip_ws t = [] then Some j else None)"

section \<open>Strings: printing and parsing\<close>

text \<open>The encoder inverts the decoder on a valid rune.\<close>

lemma digits64:
  assumes "y < 64" "z < (64 :: nat)"
  shows "(x * 4096 + y * 64 + z) div 4096 = x" "(x * 4096 + y * 64 + z) div 64 = x * 64 + y"
    "(x * 4096 + y * 64 + z) div 64 mod 64 = y" "(x * 4096 + y * 64 + z) mod 64 = z"
proof -
  let ?r = "x * 4096 + y * 64 + z"
  have r: "?r = (x * 64 + y) * 64 + z" by simp
  show d: "?r div 64 = x * 64 + y" using assms(2) unfolding r by simp
  show "?r mod 64 = z" using assms(2) unfolding r by (metis mod_less mod_mult_self3)
  show "?r div 64 mod 64 = y" using assms(1) unfolding d by simp
  have "?r div 4096 = ?r div 64 div 64" by (simp only: div_mult2_eq [symmetric]) simp
  then show "?r div 4096 = x" using assms(1) unfolding d by simp
qed

lemma encode_decode_2:
  assumes "194 \<le> b0" "b0 \<le> 223" "is_cont b1"
  shows "encode_rune ((b0 - 192) * 64 + (b1 - 128)) = map byte_char [b0, b1]"
proof -
  obtain x y where xy: "b0 = 192 + x" "b1 = 128 + y" "2 \<le> x" "x < 32" "y < 64"
    using assms by (auto simp: is_cont_def le_iff_add intro: that [of "b0 - 192" "b1 - 128"])
  then have "(x * 64 + y) div 64 = x" "(x * 64 + y) mod 64 = y" "128 \<le> x * 64 + y" "x * 64 + y < 2048"
    by simp_all
  with xy show ?thesis by (simp add: encode_rune_def)
qed

lemma encode_decode_3:
  assumes "224 \<le> b0" "b0 \<le> 239"
    and "(if b0 = 224 then 160 else 128) \<le> b1" "b1 \<le> (if b0 = 237 then 159 else 191)" "is_cont b2"
  shows "encode_rune ((b0 - 224) * 4096 + (b1 - 128) * 64 + (b2 - 128)) = map byte_char [b0, b1, b2]"
proof -
  have b1: "128 \<le> b1" "b1 \<le> 191" using assms by (auto split: if_splits)
  define x y z where "x = b0 - 224" and "y = b1 - 128" and "z = b2 - 128"
  have xyz: "b0 = 224 + x" "b1 = 128 + y" "b2 = 128 + z" "x < 16" "y < 64" "z < 64"
    "x = 0 \<Longrightarrow> 32 \<le> y" "x = 13 \<Longrightarrow> y < 32"
    using assms b1 by (auto simp: x_def y_def z_def is_cont_def split: if_splits)
  have r: "x * 4096 + y * 64 + z < 65536" using xyz by linarith
  have ge: "2048 \<le> x * 4096 + y * 64 + z" using xyz(7) by (cases "x = 0") auto
  have ns: "x * 4096 + y * 64 + z < 55296 \<or> 57344 \<le> x * 4096 + y * 64 + z"
  proof (cases "x \<le> 12")
    case True
    then have "x * 4096 \<le> 12 * 4096" by simp
    then show ?thesis using xyz(5,6) by linarith
  next
    case False
    show ?thesis
    proof (cases "x = 13")
      case True
      then show ?thesis using xyz(6,8) by simp
    next
      case False
      with \<open>\<not> x \<le> 12\<close> have "14 \<le> x" by simp
      then show ?thesis by linarith
    qed
  qed
  define v where "v = x * 4096 + y * 64 + z"
  note ds = digits64 [OF xyz(5,6), of x, folded v_def]
  have "encode_rune v = map byte_char [b0, b1, b2]"
    using r ge ns unfolding v_def [symmetric] by (auto simp: encode_rune_def ds xyz(1-3,5))
  then show ?thesis unfolding v_def x_def y_def z_def .
qed

lemma encode_decode_4:
  assumes "240 \<le> b0" "b0 \<le> 244"
    and "(if b0 = 240 then 144 else 128) \<le> b1" "b1 \<le> (if b0 = 244 then 143 else 191)"
    and "is_cont b2" "is_cont b3"
  shows "encode_rune ((b0 - 240) * 262144 + (b1 - 128) * 4096 + (b2 - 128) * 64 + (b3 - 128))
    = map byte_char [b0, b1, b2, b3]"
proof -
  have b1: "128 \<le> b1" "b1 \<le> 191" using assms by (auto split: if_splits)
  define x y z w where "x = b0 - 240" and "y = b1 - 128" and "z = b2 - 128" and "w = b3 - 128"
  have xyz: "b0 = 240 + x" "b1 = 128 + y" "b2 = 128 + z" "b3 = 128 + w" "x \<le> 4" "y < 64" "z < 64" "w < 64"
    "x = 0 \<Longrightarrow> 16 \<le> y" "x = 4 \<Longrightarrow> y < 16"
    using assms b1 by (auto simp: x_def y_def z_def w_def is_cont_def split: if_splits)
  let ?r = "x * 262144 + y * 4096 + z * 64 + w"
  have ge: "65536 \<le> ?r" using xyz(9) by (cases "x = 0") auto
  have le: "?r \<le> 1114111" using xyz(5-10) by (cases "x = 4") auto
  define v where "v = (x * 64 + y) * 4096 + z * 64 + w"
  have r: "?r = v" by (simp add: v_def)
  note ds = digits64 [OF xyz(7,8), of "x * 64 + y", folded v_def]
  have "v div 262144 = v div 4096 div 64" by (simp only: div_mult2_eq [symmetric]) simp
  then have ds': "v div 262144 = x" "v div 4096 mod 64 = y" using xyz(6) ds(1) by simp_all
  have "encode_rune v = map byte_char [b0, b1, b2, b3]"
    using ge le unfolding r by (simp add: encode_rune_def ds(3,4) ds' xyz(1-4))
  then show ?thesis unfolding r [symmetric] x_def y_def z_def w_def .
qed

lemma encode_decode_bytes:
  assumes "decode_bytes bs = (r, w)" and "bs \<noteq> []" and "\<not> (r = rune_error \<and> w = 1)"
  shows "encode_rune r = map byte_char (take w bs)"
proof -
  obtain b0 cs where bs: "bs = b0 # cs" using assms(2) by (cases bs) auto
  consider "b0 < 128" | "194 \<le> b0 \<and> b0 \<le> 223" | "224 \<le> b0 \<and> b0 \<le> 239" | "240 \<le> b0 \<and> b0 \<le> 244"
    | "\<not> b0 < 128" "\<not> (194 \<le> b0 \<and> b0 \<le> 223)" "\<not> (224 \<le> b0 \<and> b0 \<le> 239)" "\<not> (240 \<le> b0 \<and> b0 \<le> 244)"
    by blast
  then show ?thesis
  proof cases
    case 1
    with assms(1) bs show ?thesis by (auto simp: encode_rune_def)
  next
    case 2
    with assms bs obtain b1 ds where "cs = b1 # ds" "is_cont b1" "r = (b0 - 192) * 64 + (b1 - 128)" "w = 2"
      by (auto split: list.splits if_splits)
    with 2 bs encode_decode_2 [of b0 b1] show ?thesis by simp
  next
    case 3
    with assms bs obtain b1 b2 ds where "cs = b1 # b2 # ds" "w = 3"
        "(if b0 = 224 then 160 else 128) \<le> b1" "b1 \<le> (if b0 = 237 then 159 else 191)" "is_cont b2"
        "r = (b0 - 224) * 4096 + (b1 - 128) * 64 + (b2 - 128)"
      by (auto split: list.splits if_split_asm)
    with 3 bs encode_decode_3 [of b0 b1 b2] show ?thesis by simp
  next
    case 4
    with assms bs obtain b1 b2 b3 ds where "cs = b1 # b2 # b3 # ds" "w = 4"
        "(if b0 = 240 then 144 else 128) \<le> b1" "b1 \<le> (if b0 = 244 then 143 else 191)" "is_cont b2" "is_cont b3"
        "r = (b0 - 240) * 262144 + (b1 - 128) * 4096 + (b2 - 128) * 64 + (b3 - 128)"
      by (auto split: list.splits if_split_asm)
    with 4 bs encode_decode_4 [of b0 b1 b2 b3] show ?thesis by simp
  next
    case 5
    have "decode_bytes bs = (rune_error, 1)"
      using 5 unfolding bs by (simp only: decode_bytes.simps if_False)
    with assms show ?thesis by simp
  qed
qed

lemma decode_bytes_take4: "decode_bytes (take 4 bs) = decode_bytes bs"
proof (cases "length bs \<le> 4")
  case False
  then obtain a b c d es where "bs = a # b # c # d # es"
    by (auto simp: not_le Suc_le_length_iff less_eq_Suc_le numeral_eq_Suc)
  then show ?thesis by simp
qed simp

lemma decode_rune_bytes: "decode_rune s = decode_bytes (map byte s)"
  by (simp add: decode_rune_def take_map [symmetric] decode_bytes_take4)

lemma decode_bytes_stable:
  assumes "decode_bytes bs = (r, w)" and "bs \<noteq> []" and "\<not> (r = rune_error \<and> w = 1)"
  shows "decode_bytes (take w bs @ ms) = (r, w)"
proof -
  obtain b0 cs where bs: "bs = b0 # cs" using assms(2) by (cases bs) auto
  consider "b0 < 128" | "194 \<le> b0 \<and> b0 \<le> 223" | "224 \<le> b0 \<and> b0 \<le> 239" | "240 \<le> b0 \<and> b0 \<le> 244"
    | "\<not> b0 < 128" "\<not> (194 \<le> b0 \<and> b0 \<le> 223)" "\<not> (224 \<le> b0 \<and> b0 \<le> 239)" "\<not> (240 \<le> b0 \<and> b0 \<le> 244)"
    by blast
  then show ?thesis
  proof cases
    case 5
    have "decode_bytes bs = (rune_error, 1)"
      using 5 unfolding bs by (simp only: decode_bytes.simps if_False)
    with assms show ?thesis by simp
  next
    case 1
    with assms bs show ?thesis by auto
  next
    case 2
    with assms bs obtain b1 ds where "cs = b1 # ds" "is_cont b1" "w = 2" "r = (b0 - 192) * 64 + (b1 - 128)"
      by (auto split: list.splits if_splits)
    moreover from this bs have "take w bs = [b0, b1]" by simp
    ultimately show ?thesis using 2 by simp
  next
    case 3
    with assms bs obtain b1 b2 ds where *: "cs = b1 # b2 # ds" "w = 3"
        "(if b0 = 224 then 160 else 128) \<le> b1" "b1 \<le> (if b0 = 237 then 159 else 191)" "is_cont b2"
        "r = (b0 - 224) * 4096 + (b1 - 128) * 64 + (b2 - 128)"
      by (auto split: list.splits if_split_asm)
    from * bs have "take w bs = [b0, b1, b2]" by simp
    with 3 * show ?thesis by simp
  next
    case 4
    with assms bs obtain b1 b2 b3 ds where *: "cs = b1 # b2 # b3 # ds" "w = 4"
        "(if b0 = 240 then 144 else 128) \<le> b1" "b1 \<le> (if b0 = 244 then 143 else 191)" "is_cont b2" "is_cont b3"
        "r = (b0 - 240) * 262144 + (b1 - 128) * 4096 + (b2 - 128) * 64 + (b3 - 128)"
      by (auto split: list.splits if_split_asm)
    from * bs have "take w bs = [b0, b1, b2, b3]" by simp
    with 4 * show ?thesis by simp
  qed
qed

lemma decode_rune_stable:
  assumes "decode_rune s = (r, w)" and "s \<noteq> []" and "\<not> (r = rune_error \<and> w = 1)"
  shows "decode_rune (take w s @ t) = (r, w)"
  using decode_bytes_stable [of "map byte s" r w "map byte t"] assms
  by (simp add: decode_rune_bytes take_map)

lemma encode_decode_rune:
  assumes "decode_rune s = (r, w)" and "s \<noteq> []" and "\<not> (r = rune_error \<and> w = 1)"
  shows "encode_rune r = take w s"
proof -
  have "encode_rune r = map byte_char (take w (map byte s))"
    using encode_decode_bytes [of "map byte s"] assms by (simp add: decode_rune_bytes)
  then show ?thesis by (simp add: take_map comp_def)
qed

text \<open>What a string becomes on the wire: every invalid byte is replaced by U+FFFD.\<close>

definition to_valid :: "string \<Rightarrow> string" where
  "to_valid s = concat (map (\<lambda>(r, bs). encode_rune r) (decode_runes s))"

lemma to_valid_id: "valid_utf8 s \<Longrightarrow> to_valid s = s"
proof (induction s rule: decode_runes.induct)
  case (2 c cs)
  obtain r w where d: "decode_rune (c # cs) = (r, w)" by fastforce
  have w: "1 \<le> w" "w \<le> length (c # cs)"
    using decode_rune_width [of "c # cs"] d by auto
  with 2 d have v: "\<not> (r = rune_error \<and> w = 1)" "valid_utf8 (drop w (c # cs))"
    by (auto simp: valid_utf8_def decode_runes.simps(2))
  have "to_valid (c # cs) = encode_rune r @ to_valid (drop w (c # cs))"
    using d by (simp add: to_valid_def decode_runes.simps(2))
  also have "\<dots> = take w (c # cs) @ drop w (c # cs)"
    using encode_decode_rune [OF d _ v(1)] "2.IH" [OF d [symmetric] refl v(2)] by simp
  finally show ?case by simp
qed (simp add: to_valid_def)

subsection \<open>Reading an escaped rune back\<close>

lemma byte_hex_digit: "d < 16 \<Longrightarrow> byte (hex_digit d) = (if d < 10 then 48 + d else 87 + d)"
  by (simp add: hex_digit_def)

lemma hex_value_hex_digit: "d < 16 \<Longrightarrow> hex_value (hex_digit d) = Some d"
  by (auto simp: hex_value_def byte_hex_digit Let_def)

lemma hex4_digits:
  assumes "r < 65536"
  shows "hex4 (hex_digit (r div 4096 mod 16) # hex_digit (r div 256 mod 16) # hex_digit (r div 16 mod 16)
     # hex_digit (r mod 16) # t) = Some (r, t)"
proof -
  have d: "r div 256 = r div 16 div 16" "r div 4096 = r div 256 div 16"
    by (simp_all only: div_mult2_eq [symmetric]) simp_all
  have "r div 4096 < 16" using assms by simp
  then have "r div 4096 mod 16 = r div 4096" by simp
  moreover have "r div 4096 * 16 + r div 256 mod 16 = r div 256" unfolding d(2) by simp
  moreover have "r div 256 * 16 + r div 16 mod 16 = r div 16" unfolding d(1) by simp
  moreover have "r div 16 * 16 + r mod 16 = r" by simp
  ultimately have "((r div 4096 mod 16 * 16 + r div 256 mod 16) * 16 + r div 16 mod 16) * 16 + r mod 16 = r"
    by simp
  moreover have "hex4 (hex_digit (r div 4096 mod 16) # hex_digit (r div 256 mod 16) # hex_digit (r div 16 mod 16)
     # hex_digit (r mod 16) # t) =
     Some (((r div 4096 mod 16 * 16 + r div 256 mod 16) * 16 + r div 16 mod 16) * 16 + r mod 16, t)"
    by (simp only: hex4.simps hex_value_hex_digit mod_less_divisor zero_less_numeral option.case prod.case)
  ultimately show ?thesis by (simp only:)
qed

lemma byte_escape_letters:
  "byte (CHR ''u'') = 117" "byte (CHR ''b'') = 98" "byte (CHR ''f'') = 102" "byte (CHR ''n'') = 110"
  "byte (CHR ''r'') = 114" "byte (CHR ''t'') = 116"
  by (simp_all add: byte_def)

lemma unescape_u_escape:
  assumes "r < 65536" and "\<not> is_surrogate r"
  shows "unescape (tl (u_escape r) @ t) = Some (encode_rune r, t)"
  using assms hex4_digits [OF assms(1), of t]
  by (simp add: u_escape_def unescape_def unescape_u_def byte_escape_letters)

lemma json_str_backslash:
  "json_str (byte_char 92 # cs) =
     (case unescape cs of None \<Rightarrow> None | Some (out, t) \<Rightarrow> map_option (\<lambda>(v, u). (out @ v, u)) (json_str t))"
  by (simp add: json_str.simps(2))

lemma json_str_u_escape:
  assumes "r < 65536" and "\<not> is_surrogate r"
  shows "json_str (u_escape r @ t) = map_option (\<lambda>(v, u). (encode_rune r @ v, u)) (json_str t)"
proof -
  have "u_escape r = byte_char 92 # tl (u_escape r)" by (simp add: u_escape_def)
  then have "json_str (u_escape r @ t) = json_str (byte_char 92 # (tl (u_escape r) @ t))" by (metis append_Cons)
  then show ?thesis by (simp add: json_str_backslash unescape_u_escape [OF assms])
qed

lemma unescape_short:
  "unescape (byte_char 34 # t) = Some ([byte_char 34], t)" "unescape (byte_char 92 # t) = Some ([byte_char 92], t)"
  "unescape (CHR ''b'' # t) = Some ([byte_char 8], t)" "unescape (CHR ''f'' # t) = Some ([byte_char 12], t)"
  "unescape (CHR ''n'' # t) = Some ([byte_char 10], t)" "unescape (CHR ''r'' # t) = Some ([byte_char 13], t)"
  "unescape (CHR ''t'' # t) = Some ([byte_char 9], t)"
  by (simp_all add: unescape_def byte_escape_letters)

lemma encode_rune_small: "r < 128 \<Longrightarrow> encode_rune r = [byte_char r]"
  by (simp add: encode_rune_def)

lemma json_str_esc_rune:
  assumes d: "decode_rune (c # cs) = (r, w)"
  shows "json_str (esc_rune (r, take w (c # cs)) @ t) =
    map_option (\<lambda>(v, u). (encode_rune r @ v, u)) (json_str t)"
proof -
  have w: "1 \<le> w" "w \<le> length (c # cs)" using decode_rune_width [of "c # cs"] d by auto
  consider (short) "r \<in> {34, 92, 8, 12, 10, 13, 9}"
    | (u) "r \<notin> {34, 92, 8, 12, 10, 13, 9}" "r < 32 \<or> r \<in> set [38, 60, 62, 8232, 8233]"
    | (bad) "\<not> (r < 32 \<or> r \<in> set [38, 60, 62, 8232, 8233])" "r \<notin> {34, 92}" "r = rune_error" "w = 1"
    | (plain) "\<not> (r < 32 \<or> r \<in> set [38, 60, 62, 8232, 8233])" "r \<notin> {34, 92}" "\<not> (r = rune_error \<and> w = 1)"
    by auto
  then show ?thesis
  proof cases
    case short
    then show ?thesis
      by (auto simp: esc_rune_def encode_rune_small json_str_backslash unescape_short)
  next
    case u
    then have "esc_rune (r, take w (c # cs)) = u_escape r" and "r < 65536" and "\<not> is_surrogate r"
      by (auto simp: esc_rune_def is_surrogate_def)
    then show ?thesis by (simp add: json_str_u_escape)
  next
    case bad
    then have "esc_rune (r, take w (c # cs)) = u_escape rune_error"
      by (auto simp: esc_rune_def rune_error_def)
    moreover have "rune_error < 65536" "\<not> is_surrogate rune_error"
      by (simp_all add: rune_error_def is_surrogate_def)
    ultimately show ?thesis using bad(3) by (simp add: json_str_u_escape)
  next
    case plain
    have "length (take w (c # cs)) = w" using w(2) by simp
    then have esc: "esc_rune (r, take w (c # cs)) = take w (c # cs)"
      using plain by (auto simp: esc_rune_def)
    obtain ds where ds: "take w (c # cs) = c # ds" using w(1) by (cases w) auto
    have st: "decode_rune (c # ds @ t) = (r, w)"
      using decode_rune_stable [OF d _ plain(3)] ds by simp
    have c: "\<not> byte c < 32" "byte c \<noteq> 34" "byte c \<noteq> 92"
    proof -
      have "r = byte c" if "byte c < 128" using that d decode_rune_ascii by simp
      then show "\<not> byte c < 32" "byte c \<noteq> 34" "byte c \<noteq> 92" using plain by fastforce+
    qed
    have dr: "drop w (c # ds @ t) = t" using ds w by (metis append_Cons append_eq_conv_conj append_take_drop_id length_take min.absorb2)
    show ?thesis
      unfolding esc using encode_decode_rune [OF d _ plain(3)] ds st c dr
      by (simp add: json_str.simps(2))
  qed
qed

theorem json_str_quote:
  "json_str (concat (map esc_rune (decode_runes s)) @ byte_char 34 # t) = Some (to_valid s, t)"
proof (induction s rule: decode_runes.induct)
  case 1
  then show ?case by (simp add: json_str.simps(2) to_valid_def)
next
  case (2 c cs)
  obtain r w where d: "decode_rune (c # cs) = (r, w)" by fastforce
  have "concat (map esc_rune (decode_runes (c # cs))) @ byte_char 34 # t
      = esc_rune (r, take w (c # cs)) @ concat (map esc_rune (decode_runes (drop w (c # cs)))) @ byte_char 34 # t"
    using d by (simp add: decode_runes.simps(2))
  moreover have "to_valid (c # cs) = encode_rune r @ to_valid (drop w (c # cs))"
    using d by (simp add: to_valid_def decode_runes.simps(2))
  ultimately show ?case
    using json_str_esc_rune [OF d] "2.IH" [OF d [symmetric] refl] by simp
qed

section \<open>Values: printing and parsing\<close>

lemma skip_ws_idem [simp]: "skip_ws (skip_ws s) = skip_ws s"
  by (simp add: skip_ws_def)

lemma json_val_skip_ws: "skip_ws s = skip_ws s' \<Longrightarrow> json_val n s = json_val n s'"
  by (cases n) simp_all

lemma json_elems_skip_ws: "skip_ws s = skip_ws s' \<Longrightarrow> json_elems n s = json_elems n s'"
  by (cases n) (simp_all add: json_val_skip_ws [of s s'])

lemma json_members_skip_ws: "skip_ws s = skip_ws s' \<Longrightarrow> json_members n s = json_members n s'"
  by (cases n) simp_all

lemma json_ws_blank: "json_ws (byte_char 10)" "json_ws (CHR '' '')"
  by (simp_all add: json_ws_def) (simp add: byte_def)

lemma skip_ws_spaces: "skip_ws (replicate n (CHR '' '') @ s) = skip_ws s"
  by (induction n) (simp_all add: skip_ws_def json_ws_blank)

lemma skip_ws_nl [simp]: "skip_ws (json_nl i d @ s) = skip_ws s"
  using skip_ws_spaces by (simp add: json_nl_def skip_ws_def json_ws_blank)

lemma skip_ws_Cons: "\<not> json_ws c \<Longrightarrow> skip_ws (c # s) = c # s"
  by (simp add: skip_ws_def)

lemma json_ws_punctuation [simp]:
  "\<not> json_ws (CHR '','')" "\<not> json_ws (CHR '']'')" "\<not> json_ws (CHR ''['')" "\<not> json_ws (CHR ''{'')"
  "\<not> json_ws (CHR ''}'')" "\<not> json_ws (CHR '':'')" "\<not> json_ws (byte_char 34)" "\<not> json_ws (CHR ''n'')"
  "\<not> json_ws (CHR ''t'')" "\<not> json_ws (CHR ''f'')" "json_ws (CHR '' '')"
  by (simp_all add: json_ws_def) (simp_all add: byte_def)

lemma byte_char_34_distinct [simp]:
  "byte_char 34 \<noteq> CHR ''{''" "byte_char 34 \<noteq> CHR ''[''" "byte_char 34 \<noteq> CHR '']''" "byte_char 34 \<noteq> CHR ''}''"
proof -
  have "byte (byte_char 34) \<noteq> byte (CHR ''{'')" "byte (byte_char 34) \<noteq> byte (CHR ''['')"
    "byte (byte_char 34) \<noteq> byte (CHR '']'')" "byte (byte_char 34) \<noteq> byte (CHR ''}'')"
    by (simp_all) (simp_all add: byte_def)
  then show "byte_char 34 \<noteq> CHR ''{''" "byte_char 34 \<noteq> CHR ''[''" "byte_char 34 \<noteq> CHR '']''"
    "byte_char 34 \<noteq> CHR ''}''" by metis+
qed

fun no_num :: "json \<Rightarrow> bool" where
  "no_num (JNum n) = False"
| "no_num (JArr xs) = list_all no_num xs"
| "no_num (JObj ms) = list_all (\<lambda>(k, v). no_num v) ms"
| "no_num _ = True"

fun jnorm :: "json \<Rightarrow> json" where
  "jnorm (JStr s) = JStr (to_valid s)"
| "jnorm (JArr xs) = JArr (map jnorm xs)"
| "jnorm (JObj ms) = JObj (map (\<lambda>(k, v). (to_valid k, jnorm v)) ms)"
| "jnorm j = j"

fun jfuel :: "json \<Rightarrow> nat" and efuel :: "json list \<Rightarrow> nat" and mfuel :: "(string \<times> json) list \<Rightarrow> nat" where
  "jfuel (JArr xs) = Suc (efuel xs)"
| "jfuel (JObj ms) = Suc (mfuel ms)"
| "jfuel _ = 1"
| "efuel [] = 0"
| "efuel (x # xs) = Suc (jfuel x + efuel xs)"
| "mfuel [] = 0"
| "mfuel ((k, v) # ms) = Suc (jfuel v + mfuel ms)"

text \<open>What a printed value starts with.\<close>

lemma print_json_hd:
  "no_num j \<Longrightarrow> \<exists>c cs. print_json i d j = c # cs \<and> \<not> json_ws c \<and> c \<noteq> CHR '']''"
  by (cases "(i, d, j)" rule: print_json.cases) (auto simp: json_quote_def)

lemma json_quote_Cons: "json_quote s @ t = byte_char 34 # concat (map esc_rune (decode_runes s)) @ byte_char 34 # t"
  by (simp add: json_quote_def)

lemma json_val_quote: "json_val (Suc n) (json_quote s @ t) = Some (JStr (to_valid s), t)"
  by (simp add: json_quote_Cons skip_ws_Cons json_str_quote)

lemma json_members_step:
  "json_members (Suc n) (json_nl i d @ json_quote k @ json_colon i @ u) =
     (case json_val n u of
        None \<Rightarrow> None
      | Some (v, r) \<Rightarrow>
          (case skip_ws r of
             [] \<Rightarrow> None
           | e # es \<Rightarrow>
               if e = CHR '','' then map_option (\<lambda>(ms, w). ((to_valid k, v) # ms, w)) (json_members n es)
               else if e = CHR ''}'' then Some ([(to_valid k, v)], es) else None))"
proof -
  have "json_val n (tl (json_colon i) @ u) = json_val n u"
    by (rule json_val_skip_ws) (simp add: json_colon_def skip_ws_def)
  moreover have "skip_ws (json_colon i @ u) = CHR '':'' # (tl (json_colon i) @ u)"
    by (simp add: json_colon_def skip_ws_Cons)
  ultimately show ?thesis
    by (simp add: json_quote_Cons skip_ws_Cons json_str_quote split: option.split)
qed

lemma roundtrip:
  "no_num j \<Longrightarrow> jfuel j \<le> n \<Longrightarrow> json_val n (print_json i d j @ t) = Some (jnorm j, t)"
  "list_all no_num xs \<Longrightarrow> efuel xs \<le> n \<Longrightarrow> json_val n s = Some (v, print_elems i d xs @ t) \<Longrightarrow>
     json_elems (Suc n) s = Some (v # map jnorm xs, t)"
  "list_all (\<lambda>(k, v). no_num v) ms \<Longrightarrow> mfuel ms \<le> n \<Longrightarrow> json_val n s = Some (v, print_members i d ms @ t) \<Longrightarrow>
     json_members (Suc n) (json_nl i d' @ json_quote k @ json_colon i @ s)
       = Some ((to_valid k, v) # map (\<lambda>(k, v). (to_valid k, jnorm v)) ms, t)"
proof (induction i d j and i d xs and i d ms arbitrary: n t and n t s v and n t s v k d'
    rule: print_json_print_elems_print_members.induct)
  case (1 ind d)
  then show ?case by (cases n) (auto simp: skip_ws_Cons byte_escape_letters)
next
  case (2 ind d b)
  then show ?case by (cases n) (auto simp: skip_ws_Cons byte_escape_letters)
next
  case (3 ind d n)
  then show ?case by simp
next
  case (4 ind d s)
  then obtain m where "n = Suc m" by (cases n) auto
  then show ?case by (simp only: print_json.simps json_val_quote jnorm.simps)
next
  case (5 ind d)
  then show ?case by (cases n) (auto simp: skip_ws_Cons)
next
  case (6 ind d x xs)
  then obtain m where n: "n = Suc (Suc m)" "jfuel x \<le> m" "efuel xs \<le> m"
    by (cases n; cases "n - 1") auto
  let ?rest = "print_elems ind d xs @ t"
  have v: "json_val m (print_json ind (Suc d) x @ ?rest) = Some (jnorm x, ?rest)"
    using "6.IH"(1) n "6.prems" by simp
  have e: "json_elems (Suc m) (print_json ind (Suc d) x @ ?rest) = Some (jnorm x # map jnorm xs, t)"
    using "6.IH"(2) [OF _ _ v] n "6.prems" by simp
  obtain c cs where "print_json ind (Suc d) x = c # cs" "\<not> json_ws c" "c \<noteq> CHR '']''"
    using print_json_hd [of x ind "Suc d"] "6.prems" by auto
  then show ?case using e n by (simp add: skip_ws_Cons)
next
  case (7 ind d)
  then show ?case by (cases n) (auto simp: skip_ws_Cons)
next
  case (8 ind d k v ms)
  then obtain m where n: "n = Suc (Suc m)" "jfuel v \<le> m" "mfuel ms \<le> m"
    by (cases n; cases "n - 1") auto
  let ?rest = "print_members ind d ms @ t"
  have v: "json_val m (print_json ind (Suc d) v @ ?rest) = Some (jnorm v, ?rest)"
    using "8.IH"(1) n "8.prems" by simp
  have e: "json_members (Suc m) (json_nl ind (Suc d) @ json_quote k @ json_colon ind @ print_json ind (Suc d) v @ ?rest)
      = Some ((to_valid k, jnorm v) # map (\<lambda>(k, v). (to_valid k, jnorm v)) ms, t)"
    using "8.IH"(2) [OF _ _ v] n "8.prems" by simp
  have "json_members (Suc m) (json_quote k @ json_colon ind @ print_json ind (Suc d) v @ ?rest)
      = Some ((to_valid k, jnorm v) # map (\<lambda>(k, v). (to_valid k, jnorm v)) ms, t)"
    using e json_members_skip_ws [OF skip_ws_nl] by metis
  then show ?case using n by (simp add: skip_ws_Cons json_quote_Cons)
next
  case (9 ind d)
  then show ?case by (simp add: skip_ws_Cons)
next
  case (10 ind d x xs)
  then obtain m where n: "n = Suc m" "jfuel x \<le> m" "efuel xs \<le> m" by (cases n) auto
  let ?rest = "print_elems ind d xs @ t"
  have v: "json_val m (print_json ind (Suc d) x @ ?rest) = Some (jnorm x, ?rest)"
    using "10.IH"(1) n "10.prems" by simp
  have "json_elems (Suc m) (print_json ind (Suc d) x @ ?rest) = Some (jnorm x # map jnorm xs, t)"
    using "10.IH"(2) [OF _ _ v] n "10.prems" by simp
  then have "json_elems n (json_nl ind (Suc d) @ print_json ind (Suc d) x @ ?rest) = Some (jnorm x # map jnorm xs, t)"
    using n json_elems_skip_ws [OF skip_ws_nl] by metis
  then show ?case using "10.prems"(3) by (simp add: skip_ws_Cons)
next
  case (11 ind d)
  then show ?case by (simp add: json_members_step skip_ws_Cons del: json_members.simps)
next
  case (12 ind d k' v' ms)
  then obtain m where n: "n = Suc m" "jfuel v' \<le> m" "mfuel ms \<le> m" by (cases n) auto
  let ?rest = "print_members ind d ms @ t"
  have v: "json_val m (print_json ind (Suc d) v' @ ?rest) = Some (jnorm v', ?rest)"
    using "12.IH"(1) n "12.prems" by simp
  have "json_members (Suc m) (json_nl ind (Suc d) @ json_quote k' @ json_colon ind @ print_json ind (Suc d) v' @ ?rest)
      = Some ((to_valid k', jnorm v') # map (\<lambda>(k, v). (to_valid k, jnorm v)) ms, t)"
    using "12.IH"(2) [OF _ _ v] n "12.prems" by simp
  then show ?case using "12.prems"(3) n by (simp add: json_members_step skip_ws_Cons del: json_members.simps)
qed

lemma fuel_le_length:
  "no_num j \<Longrightarrow> jfuel j \<le> length (print_json i d j)"
  "list_all no_num xs \<Longrightarrow> efuel xs < length (print_elems i d xs)"
  "list_all (\<lambda>(k, v). no_num v) ms \<Longrightarrow> mfuel ms < length (print_members i d ms)"
  by (induction i d j and i d xs and i d ms rule: print_json_print_elems_print_members.induct)
    (auto simp: json_quote_def)

theorem json_unmarshal_print: "no_num j \<Longrightarrow> json_unmarshal (print_json i d j) = Some (jnorm j)"
  using roundtrip(1) [of j "Suc (length (print_json i d j))" i d "[]"] fuel_le_length(1) [of j i d]
  by (simp add: json_unmarshal_def skip_ws_def)

lemma Marshal_nonempty: "no_num j \<Longrightarrow> Marshal j \<noteq> []"
  using print_json_hd [of j False 0] by (auto simp: Marshal_def)

end
