(* ===== verification/Json_Decode.thy ===== *)
theory Json_Decode
  imports Json
begin

text \<open>
  How \<open>json.Unmarshal\<close> fills Go values from a parsed document: the fields of a struct, strings,
  booleans, integers, pointers, slices and maps, and the round trip of the dynamic excludes, a map
  of string lists. An error is None: every caller drops the value that an erroneous document left.
\<close>

section \<open>Decoding into Go values\<close>

text \<open>
  A member fills the struct field whose name it equals up to case folding (the Kelvin sign and
  the long s fold to ASCII letters). \<open>null\<close> leaves a field as it is, a value of another type is
  an error, an unknown member is ignored, and later members overwrite earlier ones.
\<close>

definition fold_rune :: "nat \<Rightarrow> nat" where
  "fold_rune r = (if r = 8490 then 107 else if r = 383 then 115 else lower_ascii r)"

definition fold_name :: "string \<Rightarrow> nat list" where
  "fold_name s = map (\<lambda>(r, _). fold_rune r) (decode_runes s)"

definition same_name :: "string \<Rightarrow> string \<Rightarrow> bool" where
  "same_name k name \<longleftrightarrow> fold_name k = fold_name name"

text \<open>
  The members of an object fill the field \<open>name\<close> starting from \<open>cur\<close>: \<open>dec\<close> decodes one value into the
  field, None is an error.
\<close>

fun json_field :: "('a \<Rightarrow> json \<Rightarrow> 'a option) \<Rightarrow> string \<Rightarrow> 'a \<Rightarrow> (string \<times> json) list \<Rightarrow> 'a option" where
  "json_field dec name cur [] = Some cur"
| "json_field dec name cur ((k, v) # ms) =
     (if same_name k name then (case dec cur v of None \<Rightarrow> None | Some c \<Rightarrow> json_field dec name c ms)
      else json_field dec name cur ms)"

definition dec_string :: "string \<Rightarrow> json \<Rightarrow> string option" where
  "dec_string cur j = (case j of JStr s \<Rightarrow> Some s | JNull \<Rightarrow> Some cur | _ \<Rightarrow> None)"

definition dec_bool :: "bool \<Rightarrow> json \<Rightarrow> bool option" where
  "dec_bool cur j = (case j of JBool b \<Rightarrow> Some b | JNull \<Rightarrow> Some cur | _ \<Rightarrow> None)"

text \<open>An \<open>int\<close> or \<open>int64\<close> takes an integer literal in range.\<close>

definition dec_int :: "int \<Rightarrow> json \<Rightarrow> int option" where
  "dec_int cur j = (case j of
      JNum n \<Rightarrow> (case parse_dec n of Some i \<Rightarrow> if in_int64 i then Some i else None | None \<Rightarrow> None)
    | JNull \<Rightarrow> Some cur | _ \<Rightarrow> None)"

text \<open>A pointer becomes nil (None) on \<open>null\<close>.\<close>

definition dec_pointer :: "('a \<Rightarrow> json \<Rightarrow> 'a option) \<Rightarrow> 'a \<Rightarrow> 'a option \<Rightarrow> json \<Rightarrow> 'a option option" where
  "dec_pointer dec zero cur j = (case j of
      JNull \<Rightarrow> Some None
    | _ \<Rightarrow> map_option Some (dec (case cur of None \<Rightarrow> zero | Some a \<Rightarrow> a) j))"

text \<open>A nested struct, given by the decoder of its members.\<close>

definition dec_struct :: "('a \<Rightarrow> (string \<times> json) list \<Rightarrow> 'a option) \<Rightarrow> 'a \<Rightarrow> json \<Rightarrow> 'a option" where
  "dec_struct f cur j = (case j of JObj ms \<Rightarrow> f cur ms | JNull \<Rightarrow> Some cur | _ \<Rightarrow> None)"

text \<open>A slice is the nil slice on \<open>null\<close>; a \<open>null\<close> element is the zero value.\<close>

definition dec_slice :: "('a \<Rightarrow> json \<Rightarrow> 'a option) \<Rightarrow> 'a \<Rightarrow> 'a list \<Rightarrow> json \<Rightarrow> 'a list option" where
  "dec_slice dec zero cur j = (case j of
      JNull \<Rightarrow> Some [] | JArr xs \<Rightarrow> those (map (dec zero) xs) | _ \<Rightarrow> None)"

text \<open>A map with string keys gains the members of the object; \<open>null\<close> is the nil map.\<close>

fun dec_entries :: "('a \<Rightarrow> json \<Rightarrow> 'a option) \<Rightarrow> 'a \<Rightarrow> (string, 'a) gomap \<Rightarrow> (string \<times> json) list \<Rightarrow> (string, 'a) gomap option" where
  "dec_entries dec zero m [] = Some m"
| "dec_entries dec zero m ((k, v) # ms) =
     (case dec zero v of None \<Rightarrow> None | Some a \<Rightarrow> dec_entries dec zero (AList.update k a m) ms)"

definition dec_map :: "('a \<Rightarrow> json \<Rightarrow> 'a option) \<Rightarrow> 'a \<Rightarrow> (string, 'a) gomap \<Rightarrow> json \<Rightarrow> (string, 'a) gomap option" where
  "dec_map dec zero cur j = (case j of
      JNull \<Rightarrow> Some [] | JObj ms \<Rightarrow> dec_entries dec zero cur ms | _ \<Rightarrow> None)"

abbreviation str_field :: "string \<Rightarrow> string \<Rightarrow> (string \<times> json) list \<Rightarrow> string option" where
  "str_field \<equiv> json_field dec_string"

abbreviation strs_field :: "string \<Rightarrow> string list \<Rightarrow> (string \<times> json) list \<Rightarrow> string list option" where
  "strs_field \<equiv> json_field (dec_slice dec_string [])"

lemma json_field_absent:
  "\<forall>p \<in> set ms. \<not> same_name (fst p) name \<Longrightarrow> json_field dec name cur ms = Some cur"
  by (induction ms) auto

lemma json_field_unique:
  "filter (\<lambda>(k, v). same_name k name) ms = [(k, v)] \<Longrightarrow> json_field dec name cur ms = dec cur v"
proof (induction ms)
  case (Cons p ms)
  show ?case
  proof (cases "same_name (fst p) name")
    case True
    with Cons.prems have "p = (k, v)" "filter (\<lambda>(k, v). same_name k name) ms = []" by (auto split: prod.splits)
    then have "json_field dec name c ms = Some c" for c
      by (intro json_field_absent) (auto simp: filter_empty_conv)
    with True \<open>p = (k, v)\<close> show ?thesis by (simp split: option.splits)
  next
    case False
    with Cons show ?thesis by (cases p) simp
  qed
qed simp

text \<open>A field that one member fills does not depend on the order of the members.\<close>

lemma json_field_mset:
  assumes "mset ms = mset ms'" and "filter (\<lambda>(k, v). same_name k name) ms' = [(k, v)]"
  shows "json_field dec name cur ms = dec cur v"
proof -
  have "mset (filter (\<lambda>(k, v). same_name k name) ms) = {#(k, v)#}"
    using assms by (metis mset.simps mset_filter)
  then have "filter (\<lambda>(k, v). same_name k name) ms = [(k, v)]"
    by (simp only: mset_single_iff)
  then show ?thesis by (rule json_field_unique)
qed

definition json_string_or_null :: "json \<Rightarrow> string option" where
  "json_string_or_null j = dec_string [] j"

text \<open>A \<open>[]string\<close>: \<open>null\<close> is the nil slice, and a \<open>null\<close> element the empty string.\<close>

fun json_strings :: "json \<Rightarrow> string list option" where
  "json_strings JNull = Some []"
| "json_strings (JArr xs) = those (map json_string_or_null xs)"
| "json_strings _ = None"

text \<open>A \<open>map[string][]string\<close>; \<open>null\<close> is the nil map (\<open>Some None\<close>).\<close>

fun members_map :: "(string, string list) gomap \<Rightarrow> (string \<times> json) list \<Rightarrow> (string, string list) gomap option" where
  "members_map m [] = Some m"
| "members_map m ((k, v) # ms) =
     (case json_strings v of None \<Rightarrow> None | Some xs \<Rightarrow> members_map (AList.update k xs m) ms)"

definition json_string_lists :: "json \<Rightarrow> (string, string list) gomap option option" where
  "json_string_lists j =
     (case j of
        JNull \<Rightarrow> Some None
      | JObj ms \<Rightarrow> map_option Some (members_map [] ms)
      | _ \<Rightarrow> None)"

text \<open>\<open>Marshal\<close> of such a map: the keys in increasing order.\<close>

definition map_to_json :: "(string, string list) gomap \<Rightarrow> json" where
  "map_to_json m =
     JObj (map (\<lambda>k. (k, JArr (map JStr (lookup_or [] (map_of m) k)))) (sort_Strings (map fst m)))"

lemma those_map_Some: "those (map (\<lambda>x. Some (f x)) xs) = Some (map f xs)"
  by (induction xs) auto

lemma json_strings_jnorm: "json_strings (jnorm (JArr (map JStr xs))) = Some (map to_valid xs)"
  by (simp add: comp_def json_string_or_null_def dec_string_def those_map_Some)

lemma members_map_wf: "wf_map m \<Longrightarrow> members_map m ms = Some m' \<Longrightarrow> wf_map m'"
  by (induction m ms rule: members_map.induct) (auto split: option.splits intro: wf_intros)

lemma json_string_lists_wf: "json_string_lists j = Some (Some m) \<Longrightarrow> wf_map m"
  by (auto simp: json_string_lists_def split: json.splits dest: members_map_wf [OF wf_map_Nil])

lemma no_num_map_to_json: "no_num (map_to_json m)"
  by (auto simp: map_to_json_def list_all_iff)

text \<open>A map all of whose strings are valid UTF-8 survives printing and parsing.\<close>

definition valid_map :: "(string, string list) gomap \<Rightarrow> bool" where
  "valid_map m \<longleftrightarrow> (\<forall>(k, vs) \<in> set m. valid_utf8 k \<and> (\<forall>v \<in> set vs. valid_utf8 v))"

lemma update_fresh: "k \<notin> set (map fst m) \<Longrightarrow> AList.update k v m = m @ [(k, v)]"
  by (induction m) auto

lemma members_map_distinct:
  assumes "distinct ks" and "set ks \<inter> set (map fst m) = {}"
    and "\<forall>k \<in> set ks. valid_utf8 k \<and> (\<forall>v \<in> set (f k). valid_utf8 v)"
  shows "members_map m (map (\<lambda>(k, v). (to_valid k, jnorm v)) (map (\<lambda>k. (k, JArr (map JStr (f k)))) ks))
    = Some (m @ map (\<lambda>k. (k, f k)) ks)"
  using assms
proof (induction ks arbitrary: m)
  case (Cons k ks)
  have "map to_valid (f k) = f k"
    using Cons.prems(3) by (simp add: to_valid_id map_idI)
  then have eq: "to_valid k = k" "json_strings (jnorm (JArr (map JStr (f k)))) = Some (f k)"
    using Cons.prems(3) json_strings_jnorm [of "f k"] by (simp_all add: to_valid_id)
  have "members_map (m @ [(k, f k)]) (map (\<lambda>(k, v). (to_valid k, jnorm v)) (map (\<lambda>k. (k, JArr (map JStr (f k)))) ks))
      = Some ((m @ [(k, f k)]) @ map (\<lambda>k. (k, f k)) ks)"
    by (rule Cons.IH) (use Cons.prems in auto)
  with eq Cons.prems(2) show ?case by (simp add: update_fresh del: jnorm.simps)
qed simp

text \<open>The map as its JSON text lists it.\<close>

definition canon_map :: "(string, string list) gomap \<Rightarrow> (string, string list) gomap" where
  "canon_map m = map (\<lambda>k. (k, lookup_or [] (map_of m) k)) (sort_Strings (map fst m))"

lemma wf_canon_map: "wf_map m \<Longrightarrow> wf_map (canon_map m)"
  by (simp add: wf_map_def canon_map_def comp_def)

lemma same_canon_map: "same_map (canon_map m) m"
proof -
  have "map_of (canon_map m) k = map_of m k" for k
  proof (cases "map_of m k")
    case None
    then have "k \<notin> set (map fst (canon_map m))" by (simp add: canon_map_def comp_def map_of_eq_None_iff)
    with None show ?thesis by (metis map_of_eq_None_iff set_map)
  next
    case (Some v)
    then have "k \<in> set (sort_Strings (map fst m))" by (auto dest!: map_of_SomeD intro: rev_image_eqI)
    with Some show ?thesis by (simp add: canon_map_def map_of_map_restrict lookup_or_def)
  qed
  then show ?thesis by (simp add: same_map_def fun_eq_iff)
qed

theorem map_json_roundtrip:
  assumes wf: "wf_map m" and valid: "valid_map m"
  shows "Option.bind (json_unmarshal (print_json i d (map_to_json m))) json_string_lists = Some (Some (canon_map m))"
proof -
  let ?ks = "sort_Strings (map fst m)" and ?f = "lookup_or [] (map_of m)"
  have "\<forall>k \<in> set ?ks. valid_utf8 k \<and> (\<forall>v \<in> set (?f k). valid_utf8 v)"
    using valid wf by (fastforce simp: valid_map_def lookup_or_def wf_map_def)
  moreover have "distinct ?ks" using wf by (simp add: wf_map_def)
  ultimately have "members_map [] (map (\<lambda>(k, v). (to_valid k, jnorm v))
      (map (\<lambda>k. (k, JArr (map JStr (?f k)))) ?ks)) = Some (canon_map m)"
    using members_map_distinct [of ?ks "[]" ?f] by (simp add: canon_map_def)
  then have "json_string_lists (jnorm (map_to_json m)) = Some (Some (canon_map m))"
    by (simp add: json_string_lists_def map_to_json_def del: map_map)
  with json_unmarshal_print [OF no_num_map_to_json] show ?thesis by simp
qed

end
