(* ===== verification/Redis.thy ===== *)
theory Redis
  imports Json_Decode
begin

text \<open>
  The KeyDB (Redis) server and the go-redis client, which are not part of the repository. The
  server is a parameter of the model: a record \<open>redis_env\<close> whose \<open>rexec\<close> runs one command
  against a server state of any type. What the code relies on, the documented effect and reply
  of each command it sends, is the locale \<open>redis\<close>, stated over the key space a client can
  see. \<open>mem_env\<close> is a server that keeps the key space in memory and shows that the
  assumptions can hold. A Lua script runs its commands one after the other with no other client
  in between, and its earlier effects stay when a later command fails.
\<close>

section \<open>Key space, commands and replies\<close>

datatype rval =
    RStr string
  | RList "string list"
  | RHash "string \<rightharpoonup> string"
  | RZset "string \<rightharpoonup> int"

text \<open>A key has a value and, when it expires, the millisecond of its deadline.\<close>

type_synonym keyspace = "string \<rightharpoonup> (rval \<times> int option)"

datatype command =
    GET string
  | SET string string "int option"
  | SETNX string string "int option"
  | DEL string
  | RPUSH string string
  | LTRIM string int int
  | LRANGE string int int
  | LLEN string
  | HGET string string
  | HSET string "(string \<times> string) list"
  | HINCRBY string string int
  | HGETALL string
  | PEXPIRE string int
  | ZADD string int string
  | ZREM string string
  | ZRANGEBYSCORE string int int

datatype reply =
    RNil
  | RStatus
  | RInt int
  | RBulk string
  | RMulti "string list"
  | RErr go_error

fun cmd_key :: "command \<Rightarrow> string" where
  "cmd_key (GET k) = k"
| "cmd_key (SET k v t) = k"
| "cmd_key (SETNX k v t) = k"
| "cmd_key (DEL k) = k"
| "cmd_key (RPUSH k v) = k"
| "cmd_key (LTRIM k a b) = k"
| "cmd_key (LRANGE k a b) = k"
| "cmd_key (LLEN k) = k"
| "cmd_key (HGET k f) = k"
| "cmd_key (HSET k fs) = k"
| "cmd_key (HINCRBY k f n) = k"
| "cmd_key (HGETALL k) = k"
| "cmd_key (PEXPIRE k t) = k"
| "cmd_key (ZADD k s m) = k"
| "cmd_key (ZREM k m) = k"
| "cmd_key (ZRANGEBYSCORE k m n) = k"

text \<open>What a client sees at a given millisecond: the keys whose deadline has not passed.\<close>

definition alive :: "int \<Rightarrow> int option \<Rightarrow> bool" where
  "alive now d \<longleftrightarrow> (case d of None \<Rightarrow> True | Some t \<Rightarrow> now < t)"

definition sees :: "int \<Rightarrow> keyspace \<Rightarrow> keyspace" where
  "sees now db k = (case db k of None \<Rightarrow> None | Some (v, d) \<Rightarrow> if alive now d then Some (v, d) else None)"

lemma sees_idem [simp]: "sees now (sees now db) = sees now db"
  by (auto simp: sees_def fun_eq_iff split: option.splits prod.splits)

lemma sees_later: "now \<le> now' \<Longrightarrow> sees now' (sees now db) = sees now' db"
  by (force simp: sees_def alive_def fun_eq_iff split: option.splits prod.splits)

section \<open>The documented commands\<close>

text \<open>A missing key reads as the empty value; a key of another type is the WRONGTYPE error.\<close>

definition str_at :: "keyspace \<Rightarrow> string \<Rightarrow> string option result" where
  "str_at ks k = (case ks k of None \<Rightarrow> Inr None | Some (RStr s, d) \<Rightarrow> Inr (Some s) | _ \<Rightarrow> Inl ErrWrongType)"

definition list_at :: "keyspace \<Rightarrow> string \<Rightarrow> (string list \<times> int option) result" where
  "list_at ks k = (case ks k of None \<Rightarrow> Inr ([], None) | Some (RList xs, d) \<Rightarrow> Inr (xs, d) | _ \<Rightarrow> Inl ErrWrongType)"

definition hash_at :: "keyspace \<Rightarrow> string \<Rightarrow> ((string \<rightharpoonup> string) \<times> int option) result" where
  "hash_at ks k = (case ks k of None \<Rightarrow> Inr (Map.empty, None) | Some (RHash h, d) \<Rightarrow> Inr (h, d) | _ \<Rightarrow> Inl ErrWrongType)"

definition zset_at :: "keyspace \<Rightarrow> string \<Rightarrow> ((string \<rightharpoonup> int) \<times> int option) result" where
  "zset_at ks k = (case ks k of None \<Rightarrow> Inr (Map.empty, None) | Some (RZset z, d) \<Rightarrow> Inr (z, d) | _ \<Rightarrow> Inl ErrWrongType)"

lemmas at_defs = str_at_def list_at_def hash_at_def zset_at_def

text \<open>An empty collection is a missing key.\<close>

definition put_list :: "string \<Rightarrow> string list \<Rightarrow> int option \<Rightarrow> keyspace \<Rightarrow> keyspace" where
  "put_list k xs d ks = (if xs = [] then ks(k := None) else ks(k \<mapsto> (RList xs, d)))"

definition put_zset :: "string \<Rightarrow> (string \<rightharpoonup> int) \<Rightarrow> int option \<Rightarrow> keyspace \<Rightarrow> keyspace" where
  "put_zset k z d ks = (if z = Map.empty then ks(k := None) else ks(k \<mapsto> (RZset z, d)))"

text \<open>The elements from index \<open>a\<close> to \<open>b\<close>, both included; negative ones count from the end.\<close>

definition list_range :: "int \<Rightarrow> int \<Rightarrow> 'a list \<Rightarrow> 'a list" where
  "list_range a b xs =
     (let n = int (length xs);
          a = max 0 (if a < 0 then a + n else a);
          b = (if b < 0 then b + n else b)
      in if b < a then [] else take (nat (b - a + 1)) (drop (nat a) xs))"

lemma list_range_last: "0 < m \<Longrightarrow> list_range (- m) (- 1) xs = drop (length xs - nat m) xs"
  by (cases "xs = []") (auto simp: list_range_def Let_def max_def nat_diff_distrib le_nat_iff)

lemma list_range_from: "0 \<le> a \<Longrightarrow> list_range a (- 1) xs = drop (nat a) xs"
  by (cases "xs = []") (auto simp: list_range_def Let_def max_def)

lemma list_range_first: "0 < m \<Longrightarrow> list_range 0 (m - 1) xs = take (nat m) xs"
  by (simp add: list_range_def Let_def)

definition hash_int :: "(string \<rightharpoonup> string) \<Rightarrow> string \<Rightarrow> int option" where
  "hash_int h f = (case h f of None \<Rightarrow> Some 0 | Some s \<Rightarrow>
     (case parse_dec s of Some i \<Rightarrow> if in_int64 i then Some i else None | None \<Rightarrow> None))"

definition deadline :: "int \<Rightarrow> int option \<Rightarrow> int option" where
  "deadline now t = map_option (\<lambda>ms. now + ms) t"

definition bad_expire :: "int option \<Rightarrow> bool" where
  "bad_expire t \<longleftrightarrow> (case t of None \<Rightarrow> False | Some ms \<Rightarrow> ms \<le> 0)"

text \<open>The effect of a command on the visible key space.\<close>

fun cmd_effect :: "int \<Rightarrow> command \<Rightarrow> keyspace \<Rightarrow> keyspace" where
  "cmd_effect now (SET k v t) ks = (if bad_expire t then ks else ks(k \<mapsto> (RStr v, deadline now t)))"
| "cmd_effect now (SETNX k v t) ks =
     (if bad_expire t \<or> ks k \<noteq> None then ks else ks(k \<mapsto> (RStr v, deadline now t)))"
| "cmd_effect now (DEL k) ks = ks(k := None)"
| "cmd_effect now (RPUSH k v) ks =
     (case list_at ks k of Inl e \<Rightarrow> ks | Inr (xs, d) \<Rightarrow> put_list k (xs @ [v]) d ks)"
| "cmd_effect now (LTRIM k a b) ks =
     (case list_at ks k of Inl e \<Rightarrow> ks | Inr (xs, d) \<Rightarrow> put_list k (list_range a b xs) d ks)"
| "cmd_effect now (HSET k fs) ks =
     (case hash_at ks k of Inl e \<Rightarrow> ks | Inr (h, d) \<Rightarrow> ks(k \<mapsto> (RHash (h ++ map_of (rev fs)), d)))"
| "cmd_effect now (HINCRBY k f n) ks =
     (case hash_at ks k of Inl e \<Rightarrow> ks | Inr (h, d) \<Rightarrow>
        (case hash_int h f of None \<Rightarrow> ks | Some i \<Rightarrow>
           if in_int64 (i + n) then ks(k \<mapsto> (RHash (h(f \<mapsto> Itoa (i + n))), d)) else ks))"
| "cmd_effect now (PEXPIRE k ms) ks =
     (case ks k of None \<Rightarrow> ks | Some (v, d) \<Rightarrow>
        if ms \<le> 0 then ks(k := None) else ks(k \<mapsto> (v, Some (now + ms))))"
| "cmd_effect now (ZADD k s m) ks =
     (case zset_at ks k of Inl e \<Rightarrow> ks | Inr (z, d) \<Rightarrow> put_zset k (z(m \<mapsto> s)) d ks)"
| "cmd_effect now (ZREM k m) ks =
     (case zset_at ks k of Inl e \<Rightarrow> ks | Inr (z, d) \<Rightarrow> put_zset k (z(m := None)) d ks)"
| "cmd_effect now _ ks = ks"

text \<open>The replies a command may give. The order of a hash is the server's own, the members of a
  sorted set come by score, those of one score by their bytes.\<close>

fun flat_pairs :: "('a \<times> 'a) list \<Rightarrow> 'a list" where
  "flat_pairs [] = []"
| "flat_pairs ((k, v) # ps) = k # v # flat_pairs ps"

definition due_members :: "(string \<rightharpoonup> int) \<Rightarrow> int \<Rightarrow> string list \<Rightarrow> bool" where
  "due_members z mx ms \<longleftrightarrow>
     distinct ms \<and> (\<forall>m. m \<in> set ms \<longleftrightarrow> (\<exists>s. z m = Some s \<and> s \<le> mx))
     \<and> sorted (map (lookup_or 0 z) ms)"

fun reply_ok :: "command \<Rightarrow> keyspace \<Rightarrow> reply \<Rightarrow> bool" where
  "reply_ok (GET k) ks r =
     (r = (case str_at ks k of Inl e \<Rightarrow> RErr e | Inr None \<Rightarrow> RNil | Inr (Some s) \<Rightarrow> RBulk s))"
| "reply_ok (SET k v t) ks r = (if bad_expire t then \<exists>m. r = RErr (ErrText m) else r = RStatus)"
| "reply_ok (SETNX k v t) ks r =
     (if bad_expire t then \<exists>m. r = RErr (ErrText m) else r = RInt (if ks k = None then 1 else 0))"
| "reply_ok (DEL k) ks r = (r = RInt (if ks k = None then 0 else 1))"
| "reply_ok (RPUSH k v) ks r =
     (r = (case list_at ks k of Inl e \<Rightarrow> RErr e | Inr (xs, d) \<Rightarrow> RInt (int (length xs) + 1)))"
| "reply_ok (LTRIM k a b) ks r =
     (r = (case list_at ks k of Inl e \<Rightarrow> RErr e | Inr _ \<Rightarrow> RStatus))"
| "reply_ok (LRANGE k a b) ks r =
     (r = (case list_at ks k of Inl e \<Rightarrow> RErr e | Inr (xs, d) \<Rightarrow> RMulti (list_range a b xs)))"
| "reply_ok (LLEN k) ks r =
     (r = (case list_at ks k of Inl e \<Rightarrow> RErr e | Inr (xs, d) \<Rightarrow> RInt (int (length xs))))"
| "reply_ok (HGET k f) ks r =
     (r = (case hash_at ks k of Inl e \<Rightarrow> RErr e | Inr (h, d) \<Rightarrow>
             (case h f of None \<Rightarrow> RNil | Some s \<Rightarrow> RBulk s)))"
| "reply_ok (HSET k fs) ks r =
     (case hash_at ks k of Inl e \<Rightarrow> r = RErr e | Inr (h, d) \<Rightarrow> \<exists>n. r = RInt n)"
| "reply_ok (HINCRBY k f n) ks r =
     (r = (case hash_at ks k of Inl e \<Rightarrow> RErr e | Inr (h, d) \<Rightarrow>
             (case hash_int h f of None \<Rightarrow> RErr ErrNotInteger | Some i \<Rightarrow>
                if in_int64 (i + n) then RInt (i + n) else RErr ErrNotInteger)))"
| "reply_ok (HGETALL k) ks r =
     (case hash_at ks k of Inl e \<Rightarrow> r = RErr e | Inr (h, d) \<Rightarrow>
        \<exists>ps. r = RMulti (flat_pairs ps) \<and> wf_map ps \<and> map_of ps = h)"
| "reply_ok (PEXPIRE k t) ks r = (r = RInt (if ks k = None then 0 else 1))"
| "reply_ok (ZADD k s m) ks r =
     (case zset_at ks k of Inl e \<Rightarrow> r = RErr e | Inr (z, d) \<Rightarrow> r = RInt (if z m = None then 1 else 0))"
| "reply_ok (ZREM k m) ks r =
     (case zset_at ks k of Inl e \<Rightarrow> r = RErr e | Inr (z, d) \<Rightarrow> r = RInt (if z m = None then 0 else 1))"
| "reply_ok (ZRANGEBYSCORE k mx n) ks r =
     (case zset_at ks k of Inl e \<Rightarrow> r = RErr e | Inr (z, d) \<Rightarrow>
        \<exists>ms. due_members z mx ms \<and> r = RMulti (if n < 0 then ms else take (nat n) ms))"

section \<open>The client's view of the server\<close>

text \<open>
  \<open>rexec env now c st\<close> runs command \<open>c\<close> at millisecond \<open>now\<close>. \<open>rver env st k\<close> is what
  \<open>WATCH\<close> remembers of a key: it changes whenever a command may have modified the key. \<open>cjson\<close>
  is \<open>cjson.encode\<close> of the server's Lua, on the tables the scripts build.
\<close>

datatype lua = LStr string | LList "string list"

record 'r redis_env =
  rexec :: "int \<Rightarrow> command \<Rightarrow> 'r \<Rightarrow> reply \<times> 'r"
  rver :: "'r \<Rightarrow> string \<Rightarrow> nat"
  cjson :: "(string \<times> lua) list \<Rightarrow> string"

text \<open>Lua cannot tell an empty array from an empty table, and \<open>cjson\<close> writes it as \<open>{}\<close>.\<close>

definition lua_json :: "lua \<Rightarrow> json" where
  "lua_json v = (case v of
      LStr s \<Rightarrow> JStr (to_valid s)
    | LList xs \<Rightarrow> if xs = [] then JObj [] else JArr (map (\<lambda>s. JStr (to_valid s)) xs))"

fun is_write :: "command \<Rightarrow> bool" where
  "is_write (GET k) = False"
| "is_write (LRANGE k a b) = False"
| "is_write (LLEN k) = False"
| "is_write (HGET k f) = False"
| "is_write (HGETALL k) = False"
| "is_write (ZRANGEBYSCORE k m n) = False"
| "is_write _ = True"

locale redis =
  fixes env :: "'r redis_env" and db :: "'r \<Rightarrow> keyspace"
  assumes exec_effect: "sees now (db (snd (rexec env now c st))) = cmd_effect now c (sees now (db st))"
    and exec_reply: "reply_ok c (sees now (db st)) (fst (rexec env now c st))"
    and ver_mono: "rver env st k \<le> rver env (snd (rexec env now c st)) k"
    and ver_same: "rver env (snd (rexec env now c st)) k = rver env st k \<Longrightarrow>
      sees now (db (snd (rexec env now c st))) k = sees now (db st) k"
    and ver_other: "cmd_key c \<noteq> k \<or> \<not> is_write c \<Longrightarrow> rver env (snd (rexec env now c st)) k = rver env st k"
    and cjson_decodes: "wf_map ps \<Longrightarrow> \<exists>ms. json_unmarshal (cjson env ps) = Some (JObj ms)
      \<and> mset ms = mset (map (\<lambda>(k, v). (to_valid k, lua_json v)) ps)"

section \<open>Calls and scripts\<close>

text \<open>
  One request of the client: the server executes it a number of times (the client library sends
  a request again when the connection breaks), and the last reply arrives or is lost.
\<close>

datatype net = Net nat bool

definition delivered :: net where
  "delivered = Net 1 True"

definition net_error :: go_error where
  "net_error = ErrText ''redis: connection failed''"

type_synonym ('r, 'a) script = "'r \<Rightarrow> 'a result \<times> 'r"

fun executions :: "nat \<Rightarrow> ('r, 'a) script \<Rightarrow> 'r \<Rightarrow> 'r" where
  "executions 0 m st = st"
| "executions (Suc n) m st = executions n m (snd (m st))"

fun send :: "net \<Rightarrow> ('r, 'a) script \<Rightarrow> ('r, 'a) script" where
  "send (Net 0 ok) m st = (Inl net_error, st)"
| "send (Net (Suc n) ok) m st =
     (let (r, st') = m (executions n m st) in (if ok then r else Inl net_error, st'))"

lemma send_delivered [simp]: "send delivered m st = m st"
  by (simp add: delivered_def split: prod.splits)

lemma executions_invariant:
  "(\<And>st. P st \<Longrightarrow> P (snd (m st))) \<Longrightarrow> P st \<Longrightarrow> P (executions n m st)"
  by (induction n arbitrary: st) simp_all

lemma send_invariant:
  assumes "\<And>st. P st \<Longrightarrow> P (snd (m st))" and "P st"
  shows "P (snd (send net m st))"
proof (cases net)
  case (Net n ok)
  then show ?thesis
    using assms executions_invariant [of P m st] by (cases n) (auto split: prod.splits, metis snd_conv)
qed

text \<open>\<open>redis.call\<close>: an error reply stops the script and keeps the effects it had.\<close>

definition script_return :: "'a \<Rightarrow> ('r, 'a) script" where
  "script_return a st = (Inr a, st)"

definition script_fail :: "go_error \<Rightarrow> ('r, 'a) script" where
  "script_fail e st = (Inl e, st)"

definition script_bind :: "('r, 'a) script \<Rightarrow> ('a \<Rightarrow> ('r, 'b) script) \<Rightarrow> ('r, 'b) script" where
  "script_bind m f st = (case m st of (Inl e, st') \<Rightarrow> (Inl e, st') | (Inr a, st') \<Rightarrow> f a st')"

definition redis_call :: "'r redis_env \<Rightarrow> int \<Rightarrow> command \<Rightarrow> ('r, reply) script" where
  "redis_call env now c st =
     (case rexec env now c st of (r, st') \<Rightarrow> (case r of RErr e \<Rightarrow> (Inl e, st') | _ \<Rightarrow> (Inr r, st')))"

text \<open>\<open>tonumber\<close> of a reply (nil is \<open>false\<close>) and of an argument.\<close>

definition lua_number :: "reply \<Rightarrow> int option" where
  "lua_number r = (case r of RInt i \<Rightarrow> Some i | RBulk s \<Rightarrow> parse_dec s | _ \<Rightarrow> None)"

definition number_or_zero :: "reply \<Rightarrow> int" where
  "number_or_zero r = (case lua_number r of Some i \<Rightarrow> i | None \<Rightarrow> 0)"

definition tonumber_arg :: "string \<Rightarrow> ('r, int) script" where
  "tonumber_arg s = (case parse_dec s of
      Some i \<Rightarrow> script_return i
    | None \<Rightarrow> script_fail (ErrText ''ERR user_script: attempt to use a nil value''))"

lemma tonumber_arg_Itoa [simp]: "tonumber_arg (Itoa i) = script_return i"
  by (simp add: tonumber_arg_def)

lemma script_bind_return [simp]: "script_bind (script_return a) f = f a"
  by (simp add: script_bind_def script_return_def fun_eq_iff)

lemmas script_defs = script_return_def script_fail_def script_bind_def

context redis
begin

abbreviation ks :: "int \<Rightarrow> 'r \<Rightarrow> keyspace" where
  "ks now st \<equiv> sees now (db st)"

lemma exec_later:
  "now \<le> now' \<Longrightarrow> ks now' (snd (rexec env now c st)) = sees now' (cmd_effect now c (ks now st))"
  using exec_effect [of now c st] sees_later [of now now'] by metis

lemma read_same: "\<not> is_write c \<Longrightarrow> ks now (snd (rexec env now c st)) = ks now st"
  using exec_effect [of now c st] by (cases c) simp_all

lemma call_ok:
  assumes "rexec env now c st = (r, st')"
  shows "ks now st' = cmd_effect now c (ks now st)" "reply_ok c (ks now st) r"
  using exec_effect [of now c st] exec_reply [of c now st] assms by simp_all

end

section \<open>A server in memory\<close>

text \<open>Hashes and sorted sets are association lists, so that every reply computes.\<close>

datatype mval =
    MStr string
  | MList "string list"
  | MHash "(string, string) gomap"
  | MZset "(string, int) gomap"

type_synonym mkeyspace = "string \<rightharpoonup> (mval \<times> int option)"

record mem =
  mdb :: mkeyspace
  mver :: "string \<Rightarrow> nat"

definition mval_view :: "mval \<Rightarrow> rval" where
  "mval_view v = (case v of MStr s \<Rightarrow> RStr s | MList xs \<Rightarrow> RList xs | MHash h \<Rightarrow> RHash (map_of h)
     | MZset z \<Rightarrow> RZset (map_of z))"

definition mview :: "mkeyspace \<Rightarrow> keyspace" where
  "mview ks k = map_option (\<lambda>(v, d). (mval_view v, d)) (ks k)"

definition msees :: "int \<Rightarrow> mkeyspace \<Rightarrow> mkeyspace" where
  "msees now db k = (case db k of None \<Rightarrow> None | Some (v, d) \<Rightarrow> if alive now d then Some (v, d) else None)"

definition mlist_at :: "mkeyspace \<Rightarrow> string \<Rightarrow> (string list \<times> int option) result" where
  "mlist_at ks k = (case ks k of None \<Rightarrow> Inr ([], None) | Some (MList xs, d) \<Rightarrow> Inr (xs, d) | _ \<Rightarrow> Inl ErrWrongType)"

definition mhash_at :: "mkeyspace \<Rightarrow> string \<Rightarrow> ((string, string) gomap \<times> int option) result" where
  "mhash_at ks k = (case ks k of None \<Rightarrow> Inr ([], None) | Some (MHash h, d) \<Rightarrow> Inr (h, d) | _ \<Rightarrow> Inl ErrWrongType)"

definition mzset_at :: "mkeyspace \<Rightarrow> string \<Rightarrow> ((string, int) gomap \<times> int option) result" where
  "mzset_at ks k = (case ks k of None \<Rightarrow> Inr ([], None) | Some (MZset z, d) \<Rightarrow> Inr (z, d) | _ \<Rightarrow> Inl ErrWrongType)"

definition mput :: "string \<Rightarrow> bool \<Rightarrow> mval \<Rightarrow> int option \<Rightarrow> mkeyspace \<Rightarrow> mkeyspace" where
  "mput k keep v d ks = (if keep then ks(k \<mapsto> (v, d)) else ks(k := None))"

definition mem_due :: "(string, int) gomap \<Rightarrow> int \<Rightarrow> string list" where
  "mem_due z mx = map fst (sort_key snd (filter (\<lambda>(m, s). s \<le> mx) (AList.clearjunk z)))"

fun mem_step :: "int \<Rightarrow> command \<Rightarrow> mkeyspace \<Rightarrow> reply \<times> mkeyspace" where
  "mem_step now (GET k) ks =
     (case ks k of None \<Rightarrow> RNil | Some (MStr s, d) \<Rightarrow> RBulk s | _ \<Rightarrow> RErr ErrWrongType, ks)"
| "mem_step now (SET k v t) ks =
     (if bad_expire t then (RErr (ErrText ''ERR invalid expire time''), ks)
      else (RStatus, ks(k \<mapsto> (MStr v, deadline now t))))"
| "mem_step now (SETNX k v t) ks =
     (if bad_expire t then (RErr (ErrText ''ERR invalid expire time''), ks)
      else if ks k = None then (RInt 1, ks(k \<mapsto> (MStr v, deadline now t))) else (RInt 0, ks))"
| "mem_step now (DEL k) ks = (RInt (if ks k = None then 0 else 1), ks(k := None))"
| "mem_step now (RPUSH k v) ks =
     (case mlist_at ks k of Inl e \<Rightarrow> (RErr e, ks)
      | Inr (xs, d) \<Rightarrow> (RInt (int (length xs) + 1), mput k True (MList (xs @ [v])) d ks))"
| "mem_step now (LTRIM k a b) ks =
     (case mlist_at ks k of Inl e \<Rightarrow> (RErr e, ks)
      | Inr (xs, d) \<Rightarrow> (RStatus, mput k (list_range a b xs \<noteq> []) (MList (list_range a b xs)) d ks))"
| "mem_step now (LRANGE k a b) ks =
     (case mlist_at ks k of Inl e \<Rightarrow> RErr e | Inr (xs, d) \<Rightarrow> RMulti (list_range a b xs), ks)"
| "mem_step now (LLEN k) ks =
     (case mlist_at ks k of Inl e \<Rightarrow> RErr e | Inr (xs, d) \<Rightarrow> RInt (int (length xs)), ks)"
| "mem_step now (HGET k f) ks =
     (case mhash_at ks k of Inl e \<Rightarrow> RErr e
      | Inr (h, d) \<Rightarrow> (case map_of h f of None \<Rightarrow> RNil | Some s \<Rightarrow> RBulk s), ks)"
| "mem_step now (HSET k fs) ks =
     (case mhash_at ks k of Inl e \<Rightarrow> (RErr e, ks)
      | Inr (h, d) \<Rightarrow> (RInt 0, mput k True (MHash (fold (\<lambda>(f, v). AList.update f v) fs h)) d ks))"
| "mem_step now (HINCRBY k f n) ks =
     (case mhash_at ks k of Inl e \<Rightarrow> (RErr e, ks)
      | Inr (h, d) \<Rightarrow>
          (case hash_int (map_of h) f of None \<Rightarrow> (RErr ErrNotInteger, ks)
           | Some i \<Rightarrow>
               if in_int64 (i + n) then (RInt (i + n), mput k True (MHash (AList.update f (Itoa (i + n)) h)) d ks)
               else (RErr ErrNotInteger, ks)))"
| "mem_step now (HGETALL k) ks =
     (case mhash_at ks k of Inl e \<Rightarrow> RErr e | Inr (h, d) \<Rightarrow> RMulti (flat_pairs (AList.clearjunk h)), ks)"
| "mem_step now (PEXPIRE k t) ks =
     (case ks k of None \<Rightarrow> (RInt 0, ks) | Some (v, d) \<Rightarrow> (RInt 1, mput k (0 < t) v (Some (now + t)) ks))"
| "mem_step now (ZADD k s m) ks =
     (case mzset_at ks k of Inl e \<Rightarrow> (RErr e, ks)
      | Inr (z, d) \<Rightarrow> (RInt (if map_of z m = None then 1 else 0), mput k True (MZset (AList.update m s z)) d ks))"
| "mem_step now (ZREM k m) ks =
     (case mzset_at ks k of Inl e \<Rightarrow> (RErr e, ks)
      | Inr (z, d) \<Rightarrow> (RInt (if map_of z m = None then 0 else 1),
          mput k (AList.delete m z \<noteq> []) (MZset (AList.delete m z)) d ks))"
| "mem_step now (ZRANGEBYSCORE k mx n) ks =
     (case mzset_at ks k of Inl e \<Rightarrow> RErr e
      | Inr (z, d) \<Rightarrow> RMulti (if n < 0 then mem_due z mx else take (nat n) (mem_due z mx)), ks)"

definition mem_exec :: "int \<Rightarrow> command \<Rightarrow> mem \<Rightarrow> reply \<times> mem" where
  "mem_exec now c m =
     (case mem_step now c (msees now (mdb m)) of (r, d) \<Rightarrow>
        (r, \<lparr>mdb = d, mver = (if is_write c then (mver m)(cmd_key c := Suc (mver m (cmd_key c))) else mver m)\<rparr>))"

definition lua_print :: "lua \<Rightarrow> json" where
  "lua_print v = (case v of LStr s \<Rightarrow> JStr s | LList xs \<Rightarrow> if xs = [] then JObj [] else JArr (map JStr xs))"

definition mem_cjson :: "(string \<times> lua) list \<Rightarrow> string" where
  "mem_cjson ps = Marshal (JObj (map (\<lambda>(k, v). (k, lua_print v)) ps))"

definition mem_env :: "mem redis_env" where
  "mem_env = \<lparr>rexec = mem_exec, rver = mver, cjson = mem_cjson\<rparr>"

definition mem_view :: "mem \<Rightarrow> keyspace" where
  "mem_view m = mview (mdb m)"

definition mem_empty :: mem where
  "mem_empty = \<lparr>mdb = Map.empty, mver = (\<lambda>_. 0)\<rparr>"

lemma sees_mview: "sees now (mview ks) = mview (msees now ks)"
  by (auto simp: sees_def mview_def msees_def fun_eq_iff split: option.splits)

lemma msees_idem [simp]: "msees now (msees now ks) = msees now ks"
  by (auto simp: msees_def fun_eq_iff split: option.splits)

lemma msees_alive: "msees now ks k = Some (v, d) \<Longrightarrow> alive now d"
  by (auto simp: msees_def split: option.splits if_splits)

lemma mview_upd: "mview (ks(k \<mapsto> (v, d))) = (mview ks)(k \<mapsto> (mval_view v, d))"
  "mview (ks(k := None)) = (mview ks)(k := None)"
  by (auto simp: mview_def fun_eq_iff)

lemma mview_None [simp]: "mview ks k = None \<longleftrightarrow> ks k = None"
  by (simp add: mview_def)

lemma mview_at:
  "list_at (mview ks) k = mlist_at ks k"
  "hash_at (mview ks) k = map_sum id (\<lambda>(h, d). (map_of h, d)) (mhash_at ks k)"
  "zset_at (mview ks) k = map_sum id (\<lambda>(z, d). (map_of z, d)) (mzset_at ks k)"
  by (auto simp: list_at_def hash_at_def zset_at_def mlist_at_def mhash_at_def mzset_at_def mview_def mval_view_def
      split: option.splits mval.splits)

lemma map_of_fold_update:
  "map_of (fold (\<lambda>(f, v). AList.update f v) fs h) = map_of h ++ map_of (rev fs)"
  by (induction fs arbitrary: h) (auto simp: fun_eq_iff map_add_def split: option.splits)

lemma alive_deadline [simp]: "\<not> bad_expire t \<Longrightarrow> alive now (deadline now t)"
  by (auto simp: bad_expire_def alive_def deadline_def split: option.splits)


lemma sees_fix_iff: "sees now ks = ks \<longleftrightarrow> (\<forall>k v d. ks k = Some (v, d) \<longrightarrow> alive now d)"
  unfolding sees_def fun_eq_iff by (auto split: option.splits prod.splits)

lemma alive_simps [simp]: "alive now None" "alive now (Some t) \<longleftrightarrow> now < t"
  by (simp_all add: alive_def)

lemma at_alive:
  assumes "sees now ks = ks"
  shows "list_at ks k = Inr (xs, d) \<Longrightarrow> alive now d" "hash_at ks k = Inr (h, d) \<Longrightarrow> alive now d"
    "zset_at ks k = Inr (z, d) \<Longrightarrow> alive now d"
  using assms unfolding sees_fix_iff at_defs
  by (auto split: option.splits rval.splits)

lemma effect_visible:
  assumes ks: "sees now ks = ks"
  shows "sees now (cmd_effect now c ks) = cmd_effect now c ks"
  using ks [unfolded sees_fix_iff] at_alive [OF ks]
  by (cases c) (auto simp: sees_fix_iff put_list_def put_zset_def split: sum.splits option.splits if_splits)

lemma mview_Some: "mview ks k = Some (v, d) \<longleftrightarrow> (\<exists>w. ks k = Some (w, d) \<and> v = mval_view w)"
  by (auto simp: mview_def)

lemma map_of_delete_empty: "(map_of z)(m := None) = Map.empty \<longleftrightarrow> AList.delete m z = []"
  by (metis map_of_delete map_of_eq_empty_iff)

lemma mem_step_effect: "mview (snd (mem_step now c ks)) = cmd_effect now c (mview ks)"
proof (cases c)
  case (PEXPIRE k t)
  then show ?thesis
    by (cases "ks k") (auto simp: mview_upd mput_def mview_Some mview_def [of ks k])
next
  case (ZREM k m)
  then show ?thesis
    by (auto simp: mview_upd mview_at mval_view_def mput_def put_zset_def map_of_delete_empty
        simp del: map_of_delete split: sum.splits)
      (simp_all add: delete_conv')
qed (auto simp: mview_upd mview_at mval_view_def mput_def put_list_def put_zset_def map_of_fold_update
      split: sum.splits option.splits)

lemma mem_due_ok: "due_members (map_of z) mx (mem_due z mx)"
proof -
  let ?c = "filter (\<lambda>(m, s). s \<le> mx) (AList.clearjunk z)"
  have dist: "distinct (map fst (AList.clearjunk z))" by simp
  then have d: "distinct (map fst ?c)" by (rule distinct_map_filter)
  have "mset (map fst (sort_key snd ?c)) = mset (map fst ?c)" by simp
  with d have "distinct (mem_due z mx)"
    unfolding mem_due_def by (metis mset_eq_imp_distinct_iff)
  moreover have mem: "m \<in> set (mem_due z mx) \<longleftrightarrow> (\<exists>s. map_of z m = Some s \<and> s \<le> mx)" for m
  proof -
    have "m \<in> set (mem_due z mx) \<longleftrightarrow> (\<exists>s. (m, s) \<in> set (AList.clearjunk z) \<and> s \<le> mx)"
      by (force simp: mem_due_def)
    then show ?thesis using map_of_clearjunk [of z] dist by (metis Some_eq_map_of_iff)
  qed
  moreover have "map (lookup_or 0 (map_of z)) (mem_due z mx) = map snd (sort_key snd ?c)"
  proof -
    have "lookup_or 0 (map_of z) (fst p) = snd p" if "p \<in> set (sort_key snd ?c)" for p
    proof -
      have "p \<in> set (AList.clearjunk z)" using that by simp
      then have "map_of z (fst p) = Some (snd p)"
        using dist map_of_clearjunk [of z] by (metis Some_eq_map_of_iff prod.collapse)
      then show ?thesis by (simp add: lookup_or_def)
    qed
    then show ?thesis by (simp add: mem_due_def)
  qed
  ultimately show ?thesis by (simp add: due_members_def)
qed

lemma str_at_mview: "str_at (mview ks) k =
    (case ks k of None \<Rightarrow> Inr None | Some (MStr s, d) \<Rightarrow> Inr (Some s) | _ \<Rightarrow> Inl ErrWrongType)"
  by (auto simp: str_at_def mview_def mval_view_def split: option.splits mval.splits)

lemma clearjunk_pairs: "\<exists>ps. flat_pairs (AList.clearjunk h) = flat_pairs ps \<and> wf_map ps \<and> map_of ps = map_of h"
  by (rule exI [of _ "AList.clearjunk h"]) (simp add: wf_map_def map_of_clearjunk)

lemma mem_step_reply: "reply_ok c (mview ks) (fst (mem_step now c ks))"
proof (cases c)
  case (HGETALL k)
  then show ?thesis using clearjunk_pairs by (auto simp: mview_at split: sum.splits)
next
  case (ZRANGEBYSCORE k m n)
  then show ?thesis using mem_due_ok by (auto simp: mview_at split: sum.splits)
qed (auto simp: str_at_mview mview_at split: sum.splits option.splits mval.splits)

lemma mem_exec_view: "sees now (mem_view (snd (mem_exec now c m))) = cmd_effect now c (sees now (mem_view m))"
proof -
  let ?d = "snd (mem_step now c (msees now (mdb m)))"
  have v: "mview ?d = cmd_effect now c (sees now (mview (mdb m)))"
    by (simp add: mem_step_effect sees_mview)
  then have "sees now (mview ?d) = mview ?d" by (simp add: effect_visible)
  with v show ?thesis by (simp add: mem_exec_def mem_view_def split_def)
qed

lemma cmd_effect_key: "cmd_key c \<noteq> k \<Longrightarrow> cmd_effect now c ks k = ks k"
  by (cases c) (auto simp: put_list_def put_zset_def split: sum.splits option.splits)

lemma cmd_effect_read: "\<not> is_write c \<Longrightarrow> cmd_effect now c ks = ks"
  by (cases c) simp_all

lemma lua_print_json: "no_num (lua_print v)" "jnorm (lua_print v) = lua_json v"
  by (cases v; simp add: lua_print_def lua_json_def list_all_iff)+

lemma mem_cjson_decodes:
  "json_unmarshal (mem_cjson ps) = Some (JObj (map (\<lambda>(k, v). (to_valid k, lua_json v)) ps))"
proof -
  have "json_unmarshal (mem_cjson ps) = Some (jnorm (JObj (map (\<lambda>(k, v). (k, lua_print v)) ps)))"
    unfolding mem_cjson_def Marshal_def
    by (rule json_unmarshal_print) (auto simp: list_all_iff lua_print_json)
  then show ?thesis by (simp add: lua_print_json split_def comp_def)
qed

interpretation mem: redis mem_env mem_view
proof (unfold_locales, goal_cases)
  case (1 now c st)
  show ?case by (simp add: mem_env_def mem_exec_view)
next
  case (2 c now st)
  have "fst (rexec mem_env now c st) = fst (mem_step now c (msees now (mdb st)))"
    by (simp add: mem_env_def mem_exec_def split: prod.splits)
  then show ?case using mem_step_reply by (simp add: mem_view_def sees_mview)
next
  case (3 st k now c)
  show ?case by (simp add: mem_env_def mem_exec_def split: prod.splits)
next
  case (4 now c st k)
  then have "cmd_key c \<noteq> k \<or> \<not> is_write c"
    by (auto simp: mem_env_def mem_exec_def split: prod.splits if_splits)
  moreover have "sees now (mem_view (snd (rexec mem_env now c st))) = cmd_effect now c (sees now (mem_view st))"
    by (simp add: mem_env_def mem_exec_view)
  ultimately show ?case using cmd_effect_key cmd_effect_read by metis
next
  case (5 c k now st)
  then show ?case by (auto simp: mem_env_def mem_exec_def split: prod.splits)
next
  case (6 ps)
  then show ?case by (auto simp: mem_env_def mem_cjson_decodes)
qed

end
