(* ===== verification/Keydb.thy ===== *)
theory Keydb
  imports Redis
begin

text \<open>
  Package \<open>keydb\<close> (keydb/keydb.go): the queues and values kept as JSON, the dynamic excludes and
  their optimistic update and the reservations of the alert deduplication (the incidents are in the
  theory \<open>Incident_Store\<close>). Every operation takes the server \<open>env\<close>, the fate \<open>net\<close> of
  its request, the server's clock \<open>now\<close> in milliseconds (one reading per operation) and the
  server state, and returns its result with the new state.
\<close>

type_synonym excludes = "(string, string list) gomap"

section \<open>The client library\<close>

text \<open>How go-redis reads a reply.\<close>

definition bad_reply :: go_error where
  "bad_reply = ErrText ''redis: unexpected reply''"

definition reply_string :: "reply \<Rightarrow> string result" where
  "reply_string r = (case r of RBulk s \<Rightarrow> Inr s | RNil \<Rightarrow> Inl ErrRedisNil | _ \<Rightarrow> Inl bad_reply)"

definition reply_int :: "reply \<Rightarrow> int result" where
  "reply_int r = (case r of RInt i \<Rightarrow> Inr i | RNil \<Rightarrow> Inl ErrRedisNil | _ \<Rightarrow> Inl bad_reply)"

definition reply_bool :: "reply \<Rightarrow> bool result" where
  "reply_bool r = (case r of RInt i \<Rightarrow> Inr (i = 1) | _ \<Rightarrow> Inl bad_reply)"

definition reply_strings :: "reply \<Rightarrow> string list result" where
  "reply_strings r = (case r of RMulti xs \<Rightarrow> Inr xs | _ \<Rightarrow> Inl bad_reply)"

definition reply_done :: "reply \<Rightarrow> unit result" where
  "reply_done r = Inr ()"

lemmas reply_defs = reply_string_def reply_int_def reply_bool_def reply_strings_def reply_done_def

definition client_once :: "'r redis_env \<Rightarrow> int \<Rightarrow> command \<Rightarrow> (reply \<Rightarrow> 'a result) \<Rightarrow> ('r, 'a) script" where
  "client_once env now c conv st =
     (case redis_call env now c st of (Inl e, st') \<Rightarrow> (Inl e, st') | (Inr r, st') \<Rightarrow> (conv r, st'))"

definition client :: "'r redis_env \<Rightarrow> net \<Rightarrow> int \<Rightarrow> command \<Rightarrow> (reply \<Rightarrow> 'a result) \<Rightarrow> ('r, 'a) script" where
  "client env net now c conv = send net (client_once env now c conv)"

lemma client_once_simps [simp]:
  "snd (client_once env now c conv st) = snd (redis_call env now c st)"
  "fst (client_once env now c conv st) =
     (case fst (redis_call env now c st) of Inl e \<Rightarrow> Inl e | Inr r \<Rightarrow> conv r)"
  by (simp_all add: client_once_def split: prod.splits sum.splits)

text \<open>\<open>MULTI\<close> ... \<open>EXEC\<close>: every command runs, the first error is reported.\<close>

fun run_all :: "'r redis_env \<Rightarrow> int \<Rightarrow> command list \<Rightarrow> ('r, unit) script" where
  "run_all env now [] st = (Inr (), st)"
| "run_all env now (c # cs) st =
     (case redis_call env now c st of
        (Inl e, st') \<Rightarrow> (Inl e, snd (run_all env now cs st'))
      | (Inr r, st') \<Rightarrow> run_all env now cs st')"

text \<open>The expiry arguments: 0 is no expiry; a part of a millisecond is one millisecond.\<close>

definition ttl_ms :: "duration \<Rightarrow> int" where
  "ttl_ms d = (if 0 < d \<and> d < Millisecond then 1 else quot64 d Millisecond)"

definition set_ttl :: "duration \<Rightarrow> int option" where
  "set_ttl d = (if d \<le> 0 then None else Some (ttl_ms d))"

definition setnx_ttl :: "duration \<Rightarrow> int option" where
  "setnx_ttl d = (if d = 0 then None else Some (ttl_ms d))"

section \<open>JSON values and queues\<close>

definition json_error :: go_error where
  "json_error = ErrText ''json: cannot unmarshal''"

text \<open>\<open>GetJSON\<close>: None is the missing key. \<open>dec\<close> is \<open>json.Unmarshal\<close> into the caller's value.\<close>

definition GetJSON ::
  "'r redis_env \<Rightarrow> net \<Rightarrow> int \<Rightarrow> (string \<Rightarrow> 'a option) \<Rightarrow> string \<Rightarrow> ('r, 'a option) script" where
  "GetJSON env net now dec key st =
     (case client env net now (GET key) reply_string st of
        (Inl e, st') \<Rightarrow> (if e = ErrRedisNil then Inr None else Inl e, st')
      | (Inr raw, st') \<Rightarrow> (case dec raw of None \<Rightarrow> Inl json_error | Some v \<Rightarrow> Inr (Some v), st'))"

definition SetJSON :: "'r redis_env \<Rightarrow> net \<Rightarrow> int \<Rightarrow> string \<Rightarrow> json \<Rightarrow> duration \<Rightarrow> ('r, unit) script" where
  "SetJSON env net now key v ttl = client env net now (SET key (Marshal v) (set_ttl ttl)) reply_done"

definition EnqueueJSON :: "'r redis_env \<Rightarrow> net \<Rightarrow> int \<Rightarrow> string \<Rightarrow> json \<Rightarrow> int \<Rightarrow> ('r, unit) script" where
  "EnqueueJSON env net now key v mx =
     send net (run_all env now (RPUSH key (Marshal v) # (if 0 < mx then [LTRIM key (- mx) (- 1)] else [])))"

definition PeekQueue :: "'r redis_env \<Rightarrow> net \<Rightarrow> int \<Rightarrow> string \<Rightarrow> int \<Rightarrow> ('r, string list) script" where
  "PeekQueue env net now key mx st =
     (if mx \<le> 0 then (Inr [], st) else client env net now (LRANGE key 0 (mx - 1)) reply_strings st)"

definition DropQueue :: "'r redis_env \<Rightarrow> net \<Rightarrow> int \<Rightarrow> string \<Rightarrow> int \<Rightarrow> ('r, unit) script" where
  "DropQueue env net now key n st =
     (if n \<le> 0 then (Inr (), st) else client env net now (LTRIM key n (- 1)) reply_done st)"

definition QueueLength :: "'r redis_env \<Rightarrow> net \<Rightarrow> int \<Rightarrow> string \<Rightarrow> ('r, int) script" where
  "QueueLength env net now key = client env net now (LLEN key) reply_int"

section \<open>Dynamic excludes\<close>

definition excludes_key :: string where
  "excludes_key = ''excludes''"

text \<open>The nil map that JSON \<open>null\<close> decodes to behaves as the empty one for every reader.\<close>

definition GetDynExcludes :: "'r redis_env \<Rightarrow> net \<Rightarrow> int \<Rightarrow> ('r, excludes) script" where
  "GetDynExcludes env net now st =
     (case client env net now (GET excludes_key) reply_string st of
        (Inl e, st') \<Rightarrow> (if e = ErrRedisNil then Inr [] else Inl e, st')
      | (Inr val, st') \<Rightarrow>
          (case Option.bind (json_unmarshal (if val = '''' then ''{}'' else val)) json_string_lists of
             None \<Rightarrow> Inl json_error
           | Some None \<Rightarrow> Inr []
           | Some (Some m) \<Rightarrow> Inr m, st'))"

definition SetDynExcludes :: "'r redis_env \<Rightarrow> net \<Rightarrow> int \<Rightarrow> excludes \<Rightarrow> ('r, unit) script" where
  "SetDynExcludes env net now m = client env net now (SET excludes_key (Marshal (map_to_json m)) None) reply_done"

text \<open>The transaction body of \<open>UpdateDynExclude\<close>. Its map starts non-nil and becomes the nil map
  (None) when the stored value is \<open>null\<close>; storing into the nil map panics.\<close>

definition stored_excludes :: "string option \<Rightarrow> excludes option result" where
  "stored_excludes val =
     (case val of
        None \<Rightarrow> Inr (Some [])
      | Some s \<Rightarrow>
          if s = '''' then Inr (Some [])
          else (case Option.bind (json_unmarshal s) json_string_lists of
             None \<Rightarrow> Inl json_error
           | Some m \<Rightarrow> Inr m))"

definition nil_map_panic :: go_error where
  "nil_map_panic = GoPanic ''assignment to entry in nil map''"

definition update_excludes ::
  "string \<Rightarrow> string \<Rightarrow> bool \<Rightarrow> excludes option \<Rightarrow> (excludes option \<times> bool) result" where
  "update_excludes t v add current =
     (let values = lookup_or [] (map_of (case current of None \<Rightarrow> [] | Some m \<Rightarrow> m)) t;
          index = index_of v values
      in if add \<and> index = None then
           (case current of
              None \<Rightarrow> Inl nil_map_panic
            | Some m \<Rightarrow> Inr (Some (AList.update t (values @ [v]) m), True))
         else (case (add, index, current) of
              (False, Some i, Some m) \<Rightarrow>
                (let m' = AList.update t (remove_at i values) m
                 in Inr (Some (if lookup_or [] (map_of m') t = [] then AList.delete t m' else m'), True))
            | _ \<Rightarrow> Inr (current, False)))"

text \<open>
  What may happen around one attempt: the fate of \<open>WATCH\<close> and \<open>GET\<close>, the commands of other clients
  before the \<open>GET\<close> and before the \<open>EXEC\<close>, and the fate of the \<open>EXEC\<close>.
\<close>

datatype exec_fate = Answered | NotSent | Unanswered

record attempt =
  at_watch :: bool
  at_before_get :: "command list"
  at_get :: net
  at_before_exec :: "command list"
  at_exec :: exec_fate

text \<open>\<open>EXEC\<close> of one \<open>SET\<close>: it runs only when the version of the watched key is still \<open>v0\<close>.\<close>

definition exec_set :: "'r redis_env \<Rightarrow> int \<Rightarrow> exec_fate \<Rightarrow> nat \<Rightarrow> string \<Rightarrow> ('r, unit) script" where
  "exec_set env now fate v0 raw st =
     (case fate of
        NotSent \<Rightarrow> (Inl net_error, st)
      | _ \<Rightarrow>
          (let (r, st') = (if rver env st excludes_key = v0
                           then run_all env now [SET excludes_key raw None] st
                           else (Inl ErrTxFailed, st))
           in (if fate = Answered then r else Inl net_error, st')))"

text \<open>What the transaction body does with the value \<open>val\<close> it read (None when the key is missing).\<close>

definition map_of_nil :: "excludes option \<Rightarrow> excludes" where
  "map_of_nil m = (case m of None \<Rightarrow> [] | Some x \<Rightarrow> x)"

definition update_body ::
  "'r redis_env \<Rightarrow> int \<Rightarrow> string \<Rightarrow> string \<Rightarrow> bool \<Rightarrow> attempt \<Rightarrow> nat \<Rightarrow> string option
     \<Rightarrow> ('r, excludes option \<times> bool) script" where
  "update_body env now t v add a v0 val st =
     (case stored_excludes val of
        Inl e \<Rightarrow> (Inl e, st)
      | Inr current \<Rightarrow>
          (case update_excludes t v add current of
             Inl e \<Rightarrow> (Inl e, st)
           | Inr (updated, changed) \<Rightarrow>
               if changed then
                 (case exec_set env now (at_exec a) v0 (Marshal (map_to_json (map_of_nil updated)))
                     (snd (run_all env now (at_before_exec a) st)) of
                    (Inl e, st') \<Rightarrow> (Inl e, st')
                  | (Inr _, st') \<Rightarrow> (Inr (updated, changed), st'))
               else (Inr (updated, changed), st)))"

definition update_attempt ::
  "'r redis_env \<Rightarrow> int \<Rightarrow> string \<Rightarrow> string \<Rightarrow> bool \<Rightarrow> attempt \<Rightarrow> ('r, excludes option \<times> bool) script" where
  "update_attempt env now t v add a st =
     (if \<not> at_watch a then (Inl net_error, st)
      else (case client env (at_get a) now (GET excludes_key) reply_string
                (snd (run_all env now (at_before_get a) st)) of
              (Inl e, st2) \<Rightarrow>
                if e = ErrRedisNil then update_body env now t v add a (rver env st excludes_key) None st2
                else (Inl e, st2)
            | (Inr val, st2) \<Rightarrow> update_body env now t v add a (rver env st excludes_key) (Some val) st2))"

fun update_loop ::
  "'r redis_env \<Rightarrow> int \<Rightarrow> string \<Rightarrow> string \<Rightarrow> bool \<Rightarrow> attempt list \<Rightarrow> ('r, excludes option \<times> bool) script" where
  "update_loop env now t v add [] st = (Inl ErrTxFailed, st)"
| "update_loop env now t v add (a # as) st =
     (case update_attempt env now t v add a st of
        (Inl e, st') \<Rightarrow> if e = ErrTxFailed then update_loop env now t v add as st' else (Inl e, st')
      | (Inr r, st') \<Rightarrow> (Inr r, st'))"

definition maxRetries :: nat where
  "maxRetries = 16"

definition UpdateDynExclude ::
  "'r redis_env \<Rightarrow> int \<Rightarrow> (nat \<Rightarrow> attempt) \<Rightarrow> string \<Rightarrow> string \<Rightarrow> bool \<Rightarrow> ('r, excludes \<times> bool) script" where
  "UpdateDynExclude env now as t v add st =
     (case update_loop env now t v add (map as [0..<maxRetries]) st of
        (Inl e, st') \<Rightarrow> (Inl e, st')
      | (Inr (updated, changed), st') \<Rightarrow> (Inr (map_of_nil updated, changed), st'))"

section \<open>Reservations of the deduplication\<close>

definition dedup_key :: "string \<Rightarrow> string" where
  "dedup_key fingerprint = ''alert-dedup:'' @ fingerprint"

definition ReserveDedup :: "'r redis_env \<Rightarrow> net \<Rightarrow> int \<Rightarrow> string \<Rightarrow> duration \<Rightarrow> ('r, bool) script" where
  "ReserveDedup env net now fingerprint ttl =
     client env net now (SETNX (dedup_key fingerprint) ''1'' (setnx_ttl ttl)) reply_bool"

definition ForgetDedup :: "'r redis_env \<Rightarrow> net \<Rightarrow> int \<Rightarrow> string \<Rightarrow> ('r, unit) script" where
  "ForgetDedup env net now fingerprint = client env net now (DEL (dedup_key fingerprint)) reply_done"

section \<open>What a call does\<close>

definition others :: "attempt \<Rightarrow> command list" where
  "others a = at_before_get a @ at_before_exec a"

text \<open>The value under \<open>excludes\<close> as the transaction body decodes it.\<close>

definition stored_at :: "keyspace \<Rightarrow> excludes option result" where
  "stored_at db = (case str_at db excludes_key of Inl e \<Rightarrow> Inl e | Inr val \<Rightarrow> stored_excludes val)"

text \<open>What a successful update leaves under the key.\<close>

definition put_excludes :: "excludes \<Rightarrow> keyspace \<Rightarrow> keyspace" where
  "put_excludes m d = d(excludes_key \<mapsto> (RStr (Marshal (map_to_json m)), None))"

context redis
begin

lemma call_state [redis_view]: "ks now (snd (redis_call env now c st)) = cmd_effect now c (ks now st)"
  using exec_effect [of now c st] by (auto simp: redis_call_def split: prod.splits reply.splits)

lemma call_ver: "rver env (snd (redis_call env now c st)) k = rver env (snd (rexec env now c st)) k"
  by (auto simp: redis_call_def split: prod.splits reply.splits)

lemma call_GET: "fst (redis_call env now (GET k) st) =
    (case str_at (ks now st) k of Inl e \<Rightarrow> Inl e | Inr None \<Rightarrow> Inr RNil | Inr (Some s) \<Rightarrow> Inr (RBulk s))"
  using exec_reply [of "GET k" now st]
  by (auto simp: redis_call_def split: prod.splits sum.splits option.splits)

lemma run_all_view [redis_view]:
  "ks now (snd (run_all env now cs st)) = fold (cmd_effect now) cs (ks now st)"
proof (induction cs arbitrary: st)
  case (Cons c cs)
  then show ?case
    using call_state [of now c st] by (auto split: prod.splits sum.splits)
qed simp

lemma run_all_ver_mono: "rver env st k \<le> rver env (snd (run_all env now cs st)) k"
proof (induction cs arbitrary: st)
  case (Cons c cs)
  have "rver env st k \<le> rver env (snd (redis_call env now c st)) k"
    using ver_mono call_ver by metis
  with Cons show ?case by (auto split: prod.splits sum.splits) (metis le_trans snd_conv)+
qed simp

lemma run_all_ver_same:
  "rver env (snd (run_all env now cs st)) k = rver env st k \<Longrightarrow>
   ks now (snd (run_all env now cs st)) k = ks now st k"
proof (induction cs arbitrary: st)
  case (Cons c cs)
  obtain r st1 where c: "redis_call env now c st = (r, st1)" by fastforce
  have eq: "snd (run_all env now (c # cs) st) = snd (run_all env now cs st1)"
    using c by (auto split: sum.splits)
  have le: "rver env st k \<le> rver env st1 k"
    using ver_mono call_ver c by (metis snd_conv)
  have "rver env st1 k \<le> rver env (snd (run_all env now cs st1)) k" by (rule run_all_ver_mono)
  with le Cons.prems eq have same: "rver env st1 k = rver env st k"
    "rver env (snd (run_all env now cs st1)) k = rver env st1 k" by simp_all
  have "ks now st1 k = ks now st k"
    using ver_same [of now c st k] call_ver [of now c st k] call_state [of now c st] exec_effect [of now c st]
      same(1) c by simp
  with Cons.IH [OF same(2)] eq show ?case by simp
qed simp

lemma run_all_ver_other:
  "(\<And>c. c \<in> set cs \<Longrightarrow> cmd_key c \<noteq> k \<or> \<not> is_write c) \<Longrightarrow>
   rver env (snd (run_all env now cs st)) k = rver env st k"
proof (induction cs arbitrary: st)
  case (Cons c cs)
  have "rver env (snd (redis_call env now c st)) k = rver env st k"
    using ver_other Cons.prems [of c] call_ver by (metis list.set_intros(1))
  with Cons show ?case by (auto split: prod.splits sum.splits)
qed simp

lemma client_state:
  assumes "\<And>st. ks now (snd (redis_call env now c st)) = ks now st"
    and "\<And>st. rver env (snd (redis_call env now c st)) = rver env st"
  shows "ks now (snd (client env net now c conv st)) = ks now st"
    "rver env (snd (client env net now c conv st)) = rver env st"
proof -
  show "ks now (snd (client env net now c conv st)) = ks now st"
    unfolding client_def
    by (rule send_invariant [where P = "\<lambda>s. ks now s = ks now st"]) (simp_all add: assms)
  show "rver env (snd (client env net now c conv st)) = rver env st"
    unfolding client_def
    by (rule send_invariant [where P = "\<lambda>s. rver env s = rver env st"]) (simp_all add: assms)
qed

lemma read_call:
  assumes "\<not> is_write c"
  shows "ks now (snd (redis_call env now c st)) = ks now st"
    "rver env (snd (redis_call env now c st)) = rver env st"
proof -
  show "ks now (snd (redis_call env now c st)) = ks now st"
    using assms by (simp add: call_state cmd_effect_read)
  show "rver env (snd (redis_call env now c st)) = rver env st"
    using assms ver_other [of c] call_ver [of now c st] by (auto simp: fun_eq_iff)
qed

lemma client_read:
  assumes "\<not> is_write c"
  shows "ks now (snd (client env net now c conv st)) = ks now st"
    "rver env (snd (client env net now c conv st)) = rver env st"
  using client_state [of now c, OF read_call [OF assms]] by auto

text \<open>A request that got an answer got it from one of its executions.\<close>

lemma send_answer:
  assumes "fst (send net m st) = Inr a"
  shows "\<exists>n. fst (m (executions n m st)) = Inr a \<and> snd (send net m st) = snd (m (executions n m st))"
  using assms by (cases "(net, m, st)" rule: send.cases) (auto split: prod.splits if_splits, metis fst_conv snd_conv)

lemma client_GET:
  assumes "client env net now (GET k) reply_string st = (r, st')"
  shows "ks now st' = ks now st" "rver env st' = rver env st"
    "r = Inr s \<Longrightarrow> str_at (ks now st) k = Inr (Some s)"
    "r = Inl ErrRedisNil \<Longrightarrow> str_at (ks now st) k = Inr None"
    "str_at (ks now st) k \<noteq> Inl ErrRedisNil"
    "r = Inl e \<Longrightarrow> e = net_error \<or> e = ErrRedisNil \<or> e = ErrWrongType"
proof -
  show "ks now st' = ks now st" "rver env st' = rver env st"
    using client_read [where c = "GET k" and now = now and net = net and conv = reply_string and st = st] assms
    by simp_all
  define m where "m = client_once env now (GET k) reply_string"
  have m1: "ks now (snd (m st)) = ks now st" for st
    using read_call(1) [of "GET k" now st] by (simp add: m_def)
  have m2: "fst (m st) = (case str_at (ks now st) k of Inl e \<Rightarrow> Inl e | Inr None \<Rightarrow> Inl ErrRedisNil
      | Inr (Some s) \<Rightarrow> Inr s)" for st
    using call_GET [of now k st] by (simp add: m_def reply_string_def split: sum.splits option.splits)
  have ex: "ks now (executions n m st) = ks now st" for n
    by (rule executions_invariant [where P = "\<lambda>s. ks now s = ks now st"]) (simp_all add: m1)
  show ne: "str_at (ks now st) k \<noteq> Inl ErrRedisNil"
    by (auto simp: str_at_def split: option.splits rval.splits)
  have r: "r = Inl net_error \<or> r = (case str_at (ks now st) k of Inl e \<Rightarrow> Inl e | Inr None \<Rightarrow> Inl ErrRedisNil
      | Inr (Some s) \<Rightarrow> Inr s)"
  proof (cases net)
    case (Net n ok)
    then show ?thesis using assms m2 ex unfolding client_def m_def [symmetric]
      by (cases n) (auto split: prod.splits if_splits, (metis fst_conv)+)
  qed
  show "r = Inr s \<Longrightarrow> str_at (ks now st) k = Inr (Some s)"
    using r by (auto split: sum.splits option.splits)
  show "r = Inl ErrRedisNil \<Longrightarrow> str_at (ks now st) k = Inr None"
    using r ne by (auto simp: net_error_def split: sum.splits option.splits)
  show "r = Inl e \<Longrightarrow> e = net_error \<or> e = ErrRedisNil \<or> e = ErrWrongType"
    using r by (auto simp: str_at_def split: sum.splits option.splits rval.splits)
qed

end

lemma stored_excludes_error: "stored_excludes val = Inl e \<Longrightarrow> e = json_error"
  by (auto simp: stored_excludes_def split: option.splits if_splits)

lemma update_excludes_error: "update_excludes t v add current = Inl e \<Longrightarrow> e = nil_map_panic"
  by (auto simp: update_excludes_def Let_def split: option.splits if_splits bool.splits)

text \<open>What the code wrote decodes to the same map, in the order of its keys.\<close>

lemma stored_excludes_Marshal:
  "wf_map m \<Longrightarrow> valid_map m \<Longrightarrow> stored_excludes (Some (Marshal (map_to_json m))) = Inr (Some (canon_map m))"
  using map_json_roundtrip [of m False 0] Marshal_nonempty [OF no_num_map_to_json, of m]
  by (simp add: stored_excludes_def Marshal_def)

lemma stored_at_cong: "db excludes_key = db' excludes_key \<Longrightarrow> stored_at db = stored_at db'"
  by (simp add: stored_at_def str_at_def)

lemma stored_at_GET:
  "str_at db excludes_key = Inr val \<Longrightarrow> stored_at db = stored_excludes val"
  by (simp add: stored_at_def)

context redis
begin

lemma exec_set_cases:
  assumes "exec_set env now fate v0 (Marshal (map_to_json m)) st = (r, st')"
  shows "r = Inr () \<Longrightarrow> fate = Answered \<and> rver env st excludes_key = v0 \<and> ks now st' = put_excludes m (ks now st)"
    "r = Inl e \<Longrightarrow> fate \<noteq> Unanswered \<Longrightarrow> ks now st' = ks now st"
    "ks now st' = ks now st \<or> rver env st excludes_key = v0 \<and> ks now st' = put_excludes m (ks now st)"
    "r = Inl ErrTxFailed \<Longrightarrow> rver env st excludes_key \<noteq> v0 \<and> ks now st' = ks now st"
    "r = Inl e \<Longrightarrow> fate = Answered \<Longrightarrow> e = ErrTxFailed"
proof -
  obtain q s where q: "redis_call env now (SET excludes_key (Marshal (map_to_json m)) None) st = (q, s)" by fastforce
  have "ks now s = put_excludes m (ks now st)"
    using call_state [of now "SET excludes_key (Marshal (map_to_json m)) None" st] q
    by (simp add: bad_expire_def deadline_def put_excludes_def)
  moreover have "q = Inr RStatus"
    using exec_reply [of "SET excludes_key (Marshal (map_to_json m)) None" now st] q
    by (auto simp: redis_call_def bad_expire_def split: prod.splits reply.splits)
  ultimately show "r = Inr () \<Longrightarrow> fate = Answered \<and> rver env st excludes_key = v0 \<and> ks now st' = put_excludes m (ks now st)"
    "r = Inl e \<Longrightarrow> fate \<noteq> Unanswered \<Longrightarrow> ks now st' = ks now st"
    "ks now st' = ks now st \<or> rver env st excludes_key = v0 \<and> ks now st' = put_excludes m (ks now st)"
    "r = Inl ErrTxFailed \<Longrightarrow> rver env st excludes_key \<noteq> v0 \<and> ks now st' = ks now st"
    "r = Inl e \<Longrightarrow> fate = Answered \<Longrightarrow> e = ErrTxFailed"
    using assms q by (auto simp: exec_set_def net_error_def split: exec_fate.splits if_splits)
qed

text \<open>The steps of one attempt, named.\<close>

lemma update_attempt_steps:
  assumes a: "update_attempt env now t v add a st = (r, st')"
  obtains "ks now st' = ks now st" "r = Inl net_error"
  | e where "ks now st' = fold (cmd_effect now) (at_before_get a) (ks now st)" "r = Inl e" "e \<noteq> ErrTxFailed"
  | val st2 where
    "update_body env now t v add a (rver env st excludes_key) val st2 = (r, st')"
    "ks now st2 = fold (cmd_effect now) (at_before_get a) (ks now st)"
    "stored_at (ks now st2) = stored_excludes val"
    "rver env st2 = rver env (snd (run_all env now (at_before_get a) st))"
proof (cases "at_watch a")
  case False
  with a that(1) show thesis by (simp add: update_attempt_def)
next
  case w: True
  let ?st1 = "snd (run_all env now (at_before_get a) st)"
  obtain q st2 where q: "client env (at_get a) now (GET excludes_key) reply_string ?st1 = (q, st2)" by fastforce
  note g = client_GET [OF q]
  show thesis
  proof (cases q)
    case (Inr s)
    show thesis
      by (rule that(3) [of "Some s" st2]) (use a w q g Inr in
        \<open>simp_all add: update_attempt_def run_all_view stored_at_GET\<close>)
  next
    case (Inl e)
    show thesis
    proof (cases "e = ErrRedisNil")
      case True
      show thesis
        by (rule that(3) [of None st2]) (use a w q g Inl True in
          \<open>simp_all add: update_attempt_def run_all_view stored_at_GET\<close>)
    next
      case False
      show thesis
        by (rule that(2) [of e]) (use a w q g(1) g(6) [OF Inl] Inl False in
          \<open>auto simp: update_attempt_def run_all_view net_error_def\<close>)
    qed
  qed
qed

lemma update_body_cases:
  assumes b: "update_body env now t v add a v0 val st = (r, st')"
  defines "db2 \<equiv> fold (cmd_effect now) (at_before_exec a) (ks now st)"
    and "st3 \<equiv> snd (run_all env now (at_before_exec a) st)"
  shows "r = Inr (upd, changed) \<Longrightarrow> \<exists>current. stored_excludes val = Inr current
      \<and> update_excludes t v add current = Inr (upd, changed)
      \<and> ks now st' = (if changed then put_excludes (map_of_nil upd) db2 else ks now st)
      \<and> (changed \<longrightarrow> rver env st3 excludes_key = v0)"
    "r = Inl e \<Longrightarrow> at_exec a \<noteq> Unanswered \<Longrightarrow> ks now st' = ks now st \<or> ks now st' = db2"
    "r = Inl ErrTxFailed \<Longrightarrow> ks now st' = db2 \<and> rver env st3 excludes_key \<noteq> v0"
proof -
  have db2: "ks now st3 = db2" by (simp add: st3_def db2_def run_all_view)
  consider (decode) e where "stored_excludes val = Inl e" "r = Inl e" "st' = st" "e \<noteq> ErrTxFailed"
    | (panic) current e where "stored_excludes val = Inr current" "update_excludes t v add current = Inl e"
        "r = Inl e" "st' = st" "e \<noteq> ErrTxFailed"
    | (unchanged) current u where "stored_excludes val = Inr current"
        "update_excludes t v add current = Inr (u, False)" "r = Inr (u, False)" "st' = st"
    | (committed) current u where "stored_excludes val = Inr current"
        "update_excludes t v add current = Inr (u, True)"
        "exec_set env now (at_exec a) v0 (Marshal (map_to_json (map_of_nil u))) st3 = (Inr (), st')"
        "r = Inr (u, True)"
    | (aborted) current u e where "exec_set env now (at_exec a) v0 (Marshal (map_to_json (map_of_nil u))) st3 = (Inl e, st')"
        "r = Inl e"
  proof (cases "stored_excludes val")
    case (Inl e)
    then show thesis using b decode stored_excludes_error [OF Inl] by (auto simp: update_body_def json_error_def)
  next
    case c: (Inr current)
    show thesis
    proof (cases "update_excludes t v add current")
      case (Inl e)
      then show thesis
        by (intro panic [OF c Inl]) (use b c update_excludes_error [OF Inl] in
          \<open>auto simp: update_body_def nil_map_panic_def\<close>)
    next
      case (Inr p)
      then obtain u ch where u: "update_excludes t v add current = Inr (u, ch)" by (cases p) auto
      show thesis
      proof (cases ch)
        case False
        with u have u': "update_excludes t v add current = Inr (u, False)" by simp
        show thesis by (rule unchanged [OF c u']) (use b c u' in \<open>auto simp: update_body_def\<close>)
      next
        case True
        with u have u': "update_excludes t v add current = Inr (u, True)" by simp
        obtain q s where q: "exec_set env now (at_exec a) v0 (Marshal (map_to_json (map_of_nil u))) st3 = (q, s)"
          by fastforce
        show thesis
        proof (cases q)
          case (Inl e)
          with q b c u' show thesis by (intro aborted [of u e]) (auto simp: update_body_def st3_def)
        next
          case (Inr x)
          with q b c u' show thesis by (intro committed [OF c u']) (auto simp: update_body_def st3_def)
        qed
      qed
    qed
  qed
  note cases = this
  show "r = Inr (upd, changed) \<Longrightarrow> \<exists>current. stored_excludes val = Inr current
      \<and> update_excludes t v add current = Inr (upd, changed)
      \<and> ks now st' = (if changed then put_excludes (map_of_nil upd) db2 else ks now st)
      \<and> (changed \<longrightarrow> rver env st3 excludes_key = v0)"
    using cases by cases (auto simp: db2 split: sum.splits dest: exec_set_cases(1))
  show "r = Inl e \<Longrightarrow> at_exec a \<noteq> Unanswered \<Longrightarrow> ks now st' = ks now st \<or> ks now st' = db2"
    using cases by cases (auto simp: db2 dest: exec_set_cases(2))
  show "r = Inl ErrTxFailed \<Longrightarrow> ks now st' = db2 \<and> rver env st3 excludes_key \<noteq> v0"
    using cases by cases (auto simp: db2 dest: exec_set_cases(3,4))
qed

text \<open>An attempt acts at one point: after some of the other clients' commands of its time.\<close>

lemma attempt_db2:
  assumes "ks now st2 = fold (cmd_effect now) (at_before_get a) (ks now st)"
  shows "fold (cmd_effect now) (at_before_exec a) (ks now st2) = fold (cmd_effect now) (others a) (ks now st)"
  using assms by (simp add: others_def)

lemma update_attempt_ok:
  assumes a: "update_attempt env now t v add a st = (Inr (upd, changed), st')"
  shows "\<exists>cs current. prefix cs (others a)
    \<and> stored_at (fold (cmd_effect now) cs (ks now st)) = Inr current
    \<and> update_excludes t v add current = Inr (upd, changed)
    \<and> ks now st' = (if changed then put_excludes (map_of_nil upd) (fold (cmd_effect now) cs (ks now st))
                    else fold (cmd_effect now) cs (ks now st))"
  using a
proof (rule update_attempt_steps)
  fix val st2
  assume b: "update_body env now t v add a (rver env st excludes_key) val st2 = (Inr (upd, changed), st')"
    and st2: "ks now st2 = fold (cmd_effect now) (at_before_get a) (ks now st)"
    and val: "stored_at (ks now st2) = stored_excludes val"
    and ver: "rver env st2 = rver env (snd (run_all env now (at_before_get a) st))"
  let ?st3 = "snd (run_all env now (at_before_exec a) st2)"
  note db2 = attempt_db2 [OF st2]
  from update_body_cases(1) [OF b refl] obtain current where
    c: "stored_excludes val = Inr current" "update_excludes t v add current = Inr (upd, changed)"
    and st': "ks now st' = (if changed then put_excludes (map_of_nil upd) (fold (cmd_effect now) (others a) (ks now st))
        else ks now st2)" "changed \<Longrightarrow> rver env ?st3 excludes_key = rver env st excludes_key"
    unfolding db2 by blast
  show ?thesis
  proof (cases changed)
    case True
    have "rver env st excludes_key \<le> rver env st2 excludes_key"
      unfolding ver by (rule run_all_ver_mono)
    moreover have "rver env st2 excludes_key \<le> rver env ?st3 excludes_key" by (rule run_all_ver_mono)
    moreover note st'(2) True
    ultimately have "ks now ?st3 excludes_key = ks now st2 excludes_key"
      using run_all_ver_same by simp
    then have "stored_at (fold (cmd_effect now) (others a) (ks now st)) = Inr current"
      using c(1) val db2 run_all_view [of now "at_before_exec a" st2] stored_at_cong by metis
    with True c st'(1) show ?thesis by (intro exI [of _ "others a"]) auto
  next
    case False
    with c st'(1) st2 val show ?thesis
      by (intro exI [of _ "at_before_get a"]) (auto simp: others_def)
  qed
qed simp_all

lemma update_attempt_failed:
  assumes a: "update_attempt env now t v add a st = (Inl e, st')"
  shows "at_exec a \<noteq> Unanswered \<Longrightarrow>
      \<exists>cs. prefix cs (others a) \<and> ks now st' = fold (cmd_effect now) cs (ks now st)"
    "e = ErrTxFailed \<Longrightarrow> ks now st' = fold (cmd_effect now) (others a) (ks now st)
       \<and> \<not> (\<forall>c \<in> set (others a). cmd_key c \<noteq> excludes_key \<or> \<not> is_write c)"
  using a
proof (atomize (full), rule update_attempt_steps, goal_cases)
  case 1
  then show ?case by (auto simp: net_error_def intro: exI [of _ "[]"])
next
  case (2 e)
  then show ?case by (auto simp: others_def intro: exI [of _ "at_before_get a"])
next
  case b: (3 val st2)
  note db2 = attempt_db2 [OF b(2)]
  have "\<exists>cs. prefix cs (others a) \<and> ks now st' = fold (cmd_effect now) cs (ks now st)"
    if "at_exec a \<noteq> Unanswered"
    using update_body_cases(2) [OF b(1) refl that] b(2) unfolding db2
    by (metis others_def prefixI prefix_order.refl)
  moreover have "ks now st' = fold (cmd_effect now) (others a) (ks now st)
       \<and> \<not> (\<forall>c \<in> set (others a). cmd_key c \<noteq> excludes_key \<or> \<not> is_write c)" if "e = ErrTxFailed"
  proof -
    have "rver env st2 = rver env (snd (run_all env now (at_before_get a) st))" by (rule b(4))
    moreover have "rver env (snd (run_all env now (at_before_exec a) st2)) excludes_key = rver env st2 excludes_key"
      "rver env (snd (run_all env now (at_before_get a) st)) excludes_key = rver env st excludes_key"
      if "\<forall>c \<in> set (others a). cmd_key c \<noteq> excludes_key \<or> \<not> is_write c"
      using that by (auto simp: others_def intro!: run_all_ver_other)
    ultimately show ?thesis
      using update_body_cases(3) [OF b(1)] that unfolding db2 by auto
  qed
  ultimately show ?case by simp
qed

lemma update_loop_ok:
  assumes "update_loop env now t v add as st = (Inr (upd, changed), st')"
  shows "\<exists>cs current. prefix cs (concat (map others as))
    \<and> stored_at (fold (cmd_effect now) cs (ks now st)) = Inr current
    \<and> update_excludes t v add current = Inr (upd, changed)
    \<and> ks now st' = (if changed then put_excludes (map_of_nil upd) (fold (cmd_effect now) cs (ks now st))
                    else fold (cmd_effect now) cs (ks now st))"
  using assms
proof (induction as arbitrary: st)
  case (Cons a as)
  obtain r st1 where a: "update_attempt env now t v add a st = (r, st1)" by fastforce
  show ?case
  proof (cases "r = Inl ErrTxFailed")
    case True
    with a Cons.prems have "update_loop env now t v add as st1 = (Inr (upd, changed), st')" by simp
    from Cons.IH [OF this] obtain cs current where c: "prefix cs (concat (map others as))"
      "stored_at (fold (cmd_effect now) cs (ks now st1)) = Inr current"
      "update_excludes t v add current = Inr (upd, changed)"
      "ks now st' = (if changed then put_excludes (map_of_nil upd) (fold (cmd_effect now) cs (ks now st1))
                    else fold (cmd_effect now) cs (ks now st1))" by blast
    have "ks now st1 = fold (cmd_effect now) (others a) (ks now st)"
      using update_attempt_failed(2) [of now t v add a st] a True by blast
    with c show ?thesis by (intro exI [of _ "others a @ cs"] exI [of _ current]) simp
  next
    case False
    with a Cons.prems have "r = Inr (upd, changed)" "st1 = st'" by (auto split: sum.splits if_splits)
    with a have "update_attempt env now t v add a st = (Inr (upd, changed), st')" by simp
    from update_attempt_ok [OF this] show ?thesis by (auto intro: prefix_prefix)
  qed
qed simp

lemma update_loop_failed:
  assumes "update_loop env now t v add as st = (Inl e, st')" and "\<forall>a \<in> set as. at_exec a \<noteq> Unanswered"
  shows "\<exists>cs. prefix cs (concat (map others as)) \<and> ks now st' = fold (cmd_effect now) cs (ks now st)"
  using assms
proof (induction as arbitrary: st)
  case (Cons a as)
  obtain r st1 where a: "update_attempt env now t v add a st = (r, st1)" by fastforce
  show ?case
  proof (cases "r = Inl ErrTxFailed")
    case True
    with a Cons.prems have "update_loop env now t v add as st1 = (Inl e, st')" by simp
    from Cons.IH [OF this] obtain cs where c: "prefix cs (concat (map others as))"
      "ks now st' = fold (cmd_effect now) cs (ks now st1)" using Cons.prems by auto
    have "ks now st1 = fold (cmd_effect now) (others a) (ks now st)"
      using update_attempt_failed(2) [of now t v add a st] a True by blast
    with c show ?thesis by (intro exI [of _ "others a @ cs"]) simp
  next
    case False
    with a Cons.prems have "update_attempt env now t v add a st = (Inl e, st')"
      by (auto split: sum.splits if_splits)
    from update_attempt_failed(1) [OF this] Cons.prems(2) show ?thesis by (auto intro: prefix_prefix)
  qed
qed (simp add: exI [of _ "[]"])

lemma update_loop_contention:
  "fst (update_loop env now t v add as st) = Inl ErrTxFailed \<Longrightarrow> a \<in> set as \<Longrightarrow>
   \<exists>c \<in> set (others a). cmd_key c = excludes_key \<and> is_write c"
proof (induction as arbitrary: st)
  case (Cons b as)
  obtain r st1 where r: "update_attempt env now t v add b st = (r, st1)" by fastforce
  with Cons.prems(1) have t: "r = Inl ErrTxFailed" "fst (update_loop env now t v add as st1) = Inl ErrTxFailed"
    by (auto split: sum.splits if_splits prod.splits)
  then show ?case
    using Cons.IH [OF t(2)] Cons.prems(2) update_attempt_failed(2) [of now t v add b st] r by auto
qed simp

end

section \<open>The dynamic excludes: properties\<close>

lemma UpdateDynExclude_linear:
  assumes "redis env db" and "UpdateDynExclude env now as t v add st = (Inr (m, changed), st')"
  shows "\<exists>cs current upd. prefix cs (concat (map (\<lambda>i. others (as i)) [0..<maxRetries]))
    \<and> stored_at (fold (cmd_effect now) cs (sees now (db st))) = Inr current
    \<and> update_excludes t v add current = Inr (upd, changed) \<and> m = map_of_nil upd
    \<and> sees now (db st') = (if changed then put_excludes m (fold (cmd_effect now) cs (sees now (db st)))
                          else fold (cmd_effect now) cs (sees now (db st)))"
proof -
  obtain upd where "update_loop env now t v add (map as [0..<maxRetries]) st = (Inr (upd, changed), st')"
    "m = map_of_nil upd"
    using assms(2) by (auto simp: UpdateDynExclude_def split: prod.splits sum.splits)
  with redis.update_loop_ok [OF assms(1) this(1)] show ?thesis by (fastforce simp: comp_def)
qed

text \<open>
  C1. \<open>UpdateDynExclude\<close> is atomic: whatever other clients send to the server during its up to
  16 attempts, a call that succeeds took effect at one point between their commands. At that
  point the stored map was \<open>current\<close>, the call returns exactly its update of that map, and
  when it changed something that map is what the key holds right after; otherwise it wrote
  nothing. So no client's update overwrites another's.
\<close>

theorem UpdateDynExclude_atomic:
  assumes "redis env db" and "UpdateDynExclude env now as t v add st = (Inr (m, changed), st')"
  shows "\<exists>cs current upd. prefix cs (concat (map (\<lambda>i. others (as i)) [0..<maxRetries]))
    \<and> stored_at (fold (cmd_effect now) cs (sees now (db st))) = Inr current
    \<and> update_excludes t v add current = Inr (upd, changed) \<and> m = map_of_nil upd
    \<and> sees now (db st') = (if changed then put_excludes m (fold (cmd_effect now) cs (sees now (db st)))
                          else fold (cmd_effect now) cs (sees now (db st)))"
  using assms by (rule UpdateDynExclude_linear)

definition quiet_attempt :: attempt where
  "quiet_attempt = \<lparr>at_watch = True, at_before_get = [], at_get = delivered, at_before_exec = [], at_exec = Answered\<rparr>"

text \<open>Another client mutes \<open>host a\<close> between the first \<open>GET\<close> and its \<open>EXEC\<close>.\<close>

definition racing_attempts :: "nat \<Rightarrow> attempt" where
  "racing_attempts i = (if i = 0 then quiet_attempt \<lparr>at_before_exec :=
     [SET excludes_key (Marshal (map_to_json [(''host'', [''a''])])) None]\<rparr> else quiet_attempt)"


lemmas mem_eval = mem_env_def mem_exec_def mem_empty_def msees_def alive_def bad_expire_def deadline_def
  mlist_at_def mhash_at_def mzset_at_def mput_def hash_int_def redis_call_def client_def client_once_def reply_defs delivered_def

lemma valid_ascii_map: "list_all (\<lambda>(k, vs). ascii k \<and> list_all ascii vs) m \<Longrightarrow> valid_map m"
  by (auto simp: valid_map_def list_all_iff valid_utf8_ascii)

lemma racing_update:
  "fst (UpdateDynExclude mem_env 0 racing_attempts ''host'' ''b'' True mem_empty)
     = Inr ([(''host'', [''a'', ''b''])], True)"
proof -
  let ?a = "Marshal (map_to_json [(''host'', [''a''])])"
  have a: "stored_excludes (Some ?a) = Inr (Some [(''host'', [''a''])])"
    by (subst stored_excludes_Marshal)
      (simp_all add: wf_map_def canon_map_def sort_Strings_def lookup_or_def, rule valid_ascii_map, simp add: ascii_def byte_def)
  have "map racing_attempts [0..<maxRetries] = racing_attempts 0 # quiet_attempt # map racing_attempts [2..<16]"
    by (simp add: maxRetries_def racing_attempts_def upt_rec)
  then show ?thesis
    by (simp add: UpdateDynExclude_def update_attempt_def racing_attempts_def [of 0] quiet_attempt_def mem_eval
        update_body_def stored_excludes_def [of None] a update_excludes_def exec_set_def excludes_key_def map_of_nil_def lookup_or_def)
qed

theorem UpdateDynExclude_atomic_witness:
  "\<exists>st' cs current upd. UpdateDynExclude mem_env 0 racing_attempts ''host'' ''b'' True mem_empty
      = (Inr ([(''host'', [''a'', ''b''])], True), st')
    \<and> stored_at (fold (cmd_effect 0) cs (sees 0 (mem_view mem_empty))) = Inr current
    \<and> update_excludes ''host'' ''b'' True current = Inr (upd, True)"
proof -
  obtain st' where "UpdateDynExclude mem_env 0 racing_attempts ''host'' ''b'' True mem_empty
      = (Inr ([(''host'', [''a'', ''b''])], True), st')"
    using racing_update by (metis prod.collapse)
  with UpdateDynExclude_atomic [OF mem.redis_axioms this] show ?thesis by blast
qed

text \<open>
  C20. A call of \<open>UpdateDynExclude\<close> that fails left no trace, unless the answer to its \<open>EXEC\<close> was
  lost: the key space is what the other clients' commands made of it. It gives up with
  \<open>redis.TxFailedErr\<close> only when some other client wrote the excludes during each of the 16
  attempts.
\<close>

theorem UpdateDynExclude_failure:
  assumes "redis env db" and "UpdateDynExclude env now as t v add st = (Inl e, st')"
  shows "((\<forall>i. at_exec (as i) \<noteq> Unanswered) \<longrightarrow>
      (\<exists>cs. prefix cs (concat (map (\<lambda>i. others (as i)) [0..<maxRetries]))
        \<and> sees now (db st') = fold (cmd_effect now) cs (sees now (db st))))
    \<and> (e = ErrTxFailed \<longrightarrow>
      (\<forall>i < 16. \<exists>c \<in> set (others (as i)). cmd_key c = excludes_key \<and> is_write c))"
proof -
  have l: "update_loop env now t v add (map as [0..<maxRetries]) st = (Inl e, st')"
    using assms(2) by (auto simp: UpdateDynExclude_def split: prod.splits sum.splits)
  show ?thesis
    using redis.update_loop_failed [OF assms(1) l]
      redis.update_loop_contention [OF assms(1), of now t v add "map as [0..<maxRetries]" st] l
    by (simp add: comp_def maxRetries_def)
qed

text \<open>Another client writes in every attempt.\<close>

definition contended_attempt :: attempt where
  "contended_attempt = quiet_attempt \<lparr>at_before_exec := [DEL excludes_key]\<rparr>"

lemma contended_update:
  "fst (UpdateDynExclude mem_env 0 (\<lambda>_. contended_attempt) ''host'' ''b'' True mem_empty) = Inl ErrTxFailed"
proof -
  have step: "fst (update_loop mem_env 0 ''host'' ''b'' True (replicate n contended_attempt) m) = Inl ErrTxFailed"
    if "mdb m excludes_key = None" for n m
    using that
  proof (induction n arbitrary: m)
    case (Suc n)
    obtain r m' where a: "update_attempt mem_env 0 ''host'' ''b'' True contended_attempt m = (r, m')" by fastforce
    then have "r = Inl ErrTxFailed \<and> mdb m' excludes_key = None"
      using Suc.prems
      by (auto simp: update_attempt_def contended_attempt_def quiet_attempt_def mem_eval update_body_def
          stored_excludes_def update_excludes_def exec_set_def)
    with a Suc.IH [of m'] show ?case by simp
  qed simp
  have "map (\<lambda>_. contended_attempt) [0..<maxRetries] = replicate maxRetries contended_attempt"
    by (simp add: map_replicate_const)
  then show ?thesis
    using step [of mem_empty maxRetries] by (auto simp: UpdateDynExclude_def mem_empty_def split: prod.splits sum.splits)
qed

theorem UpdateDynExclude_failure_witness:
  "\<exists>st'. UpdateDynExclude mem_env 0 (\<lambda>_. contended_attempt) ''host'' ''b'' True mem_empty = (Inl ErrTxFailed, st')
    \<and> (\<exists>c \<in> set (others contended_attempt). cmd_key c = excludes_key \<and> is_write c)"
proof -
  obtain st' where u: "UpdateDynExclude mem_env 0 (\<lambda>_. contended_attempt) ''host'' ''b'' True mem_empty
      = (Inl ErrTxFailed, st')"
    using contended_update by (metis prod.collapse)
  with UpdateDynExclude_failure [OF mem.redis_axioms u] show ?thesis by fastforce
qed

text \<open>
  What an update does to the map: adding appends the value to its type unless it is there,
  removing drops its first occurrence, every other type keeps its values, \<open>changed\<close> says whether
  the value's presence changed, and no type is left with an empty list that had one before.
\<close>

theorem update_excludes_spec:
  fixes t :: string
  assumes "wf_map cur"
  defines "old \<equiv> lookup_or [] (map_of cur) t"
  shows "\<exists>m. update_excludes t v add (Some cur) = Inr (Some m, add \<longleftrightarrow> v \<notin> set old)
    \<and> wf_map m
    \<and> lookup_or [] (map_of m) t = (if add then (if v \<in> set old then old else old @ [v]) else remove1 v old)
    \<and> (\<forall>t'. t' \<noteq> t \<longrightarrow> map_of m t' = map_of cur t')
    \<and> ([] \<notin> ran (map_of cur) \<longrightarrow> [] \<notin> ran (map_of m))"
proof (cases "index_of v old")
  case None
  then have v: "v \<notin> set old" by simp
  show ?thesis
  proof (cases add)
    case True
    with None v assms(1) show ?thesis
      by (intro exI [of _ "AList.update t (old @ [v]) cur"])
        (auto simp: update_excludes_def old_def ran_def intro: wf_map_update)
  next
    case False
    then have "update_excludes t v add (Some cur) = Inr (Some cur, False)"
      using None by (simp add: update_excludes_def old_def Let_def del: index_of_None)
    with False v assms(1) show ?thesis
      by (intro exI [of _ cur]) (auto simp: old_def remove1_idem)
  qed
next
  case (Some i)
  then have v: "v \<in> set old" by (metis index_of_None option.distinct(1))
  show ?thesis
  proof (cases add)
    case True
    with Some v assms(1) show ?thesis
      by (intro exI [of _ cur]) (auto simp: update_excludes_def old_def)
  next
    case False
    let ?m' = "AList.update t (remove1 v old) cur"
    let ?m = "if remove1 v old = [] then AList.delete t ?m' else ?m'"
    have "update_excludes t v add (Some cur) = Inr (Some ?m, True)"
      using False Some remove_at_index_of [OF Some] by (simp add: update_excludes_def old_def)
    moreover have "wf_map ?m" using assms(1) by (auto intro: wf_intros)
    moreover have "lookup_or [] (map_of ?m) t = remove1 v old" by (auto simp: lookup_or_def)
    moreover have "[] \<notin> ran (map_of ?m)" if "[] \<notin> ran (map_of cur)"
      using that by (auto simp: ran_def split: if_splits)
    ultimately show ?thesis using False v by (intro exI [of _ ?m]) auto
  qed
qed

theorem update_excludes_spec_witness:
  "\<exists>m. update_excludes ''host'' ''a'' False (Some [(''host'', [''a'']), (''pid'', [''1''])]) = Inr (Some m, True)
    \<and> [] \<notin> ran (map_of m)"
proof -
  have w: "wf_map [(''host'', [''a'']), (''pid'', [''1''])]" by (simp add: wf_map_def)
  from update_excludes_spec [OF w, of "''host''" "''a''" False] show ?thesis
    by (auto simp: lookup_or_def ran_def split: if_splits)
qed

section \<open>Traffic over time\<close>

text \<open>The commands that reach the server between two operations, each at its millisecond.\<close>

fun traffic :: "'r redis_env \<Rightarrow> (int \<times> command) list \<Rightarrow> 'r \<Rightarrow> 'r" where
  "traffic env [] st = st"
| "traffic env ((t, c) # tcs) st = traffic env tcs (snd (rexec env t c st))"

definition leaves_alone :: "string \<Rightarrow> command \<Rightarrow> bool" where
  "leaves_alone k c \<longleftrightarrow> cmd_key c \<noteq> k \<or> \<not> is_write c"

lemma sees_earlier: "sees now' d k = Some x \<Longrightarrow> t \<le> now' \<Longrightarrow> sees t d k = Some x"
  by (auto simp: sees_def alive_def split: option.splits if_splits prod.splits)

lemma sees_gone_later: "sees now d k = None \<Longrightarrow> now \<le> now' \<Longrightarrow> sees now' d k = None"
  by (auto simp: sees_def alive_def split: option.splits if_splits prod.splits)

lemma sees_local: "d k = d' k \<Longrightarrow> sees now d k = sees now d' k"
  by (simp add: sees_def)

lemma effect_leaves_alone: "leaves_alone k c \<Longrightarrow> cmd_effect now c d k = d k"
  by (auto simp: leaves_alone_def cmd_effect_key cmd_effect_read)

context redis
begin

lemma step_later: "t \<le> now' \<Longrightarrow> ks now' (snd (rexec env t c st)) k = sees now' (cmd_effect t c (ks t st)) k"
  by (simp add: exec_later)

lemma traffic_other:
  "(\<And>t c. (t, c) \<in> set tcs \<Longrightarrow> t \<le> now' \<and> leaves_alone k c) \<Longrightarrow>
   ks now' (traffic env tcs st) k = ks now' st k"
proof (induction tcs arbitrary: st)
  case (Cons tc tcs)
  obtain t c where tc: "tc = (t, c)" by fastforce
  with Cons.prems have t: "t \<le> now'" "leaves_alone k c" by auto
  have "ks now' (snd (rexec env t c st)) k = sees now' (ks t st) k"
    using t by (simp add: step_later effect_leaves_alone sees_local [of "cmd_effect t c (ks t st)" k "ks t st"])
  also have "\<dots> = ks now' st k" using t by (simp add: sees_later)
  finally have s: "ks now' (snd (rexec env t c st)) k = ks now' st k" .
  have "ks now' (traffic env tcs (snd (rexec env t c st))) k = ks now' (snd (rexec env t c st)) k"
    by (rule Cons.IH) (use Cons.prems in auto)
  with s tc show ?case by simp
qed simp

lemma traffic_reserved:
  assumes "\<And>t c. (t, c) \<in> set tcs \<Longrightarrow> t \<le> now' \<and> (leaves_alone k c \<or> (\<exists>v d. c = SETNX k v d))"
    and "ks now' st k = Some x"
  shows "ks now' (traffic env tcs st) k = Some x"
  using assms
proof (induction tcs arbitrary: st)
  case (Cons tc tcs)
  obtain t c where tc: "tc = (t, c)" by fastforce
  with Cons.prems have t: "t \<le> now'" "leaves_alone k c \<or> (\<exists>v d. c = SETNX k v d)" by auto
  have "ks t st k = Some x" using Cons.prems(2) t(1) by (rule sees_earlier)
  then have "cmd_effect t c (ks t st) k = ks t st k"
    using t(2) by (auto simp: effect_leaves_alone)
  then have "ks now' (snd (rexec env t c st)) k = sees now' (ks t st) k"
    using t by (simp add: step_later sees_local [of "cmd_effect t c (ks t st)" k "ks t st"])
  also have "\<dots> = Some x" using t Cons.prems(2) by (simp add: sees_later)
  finally have "ks now' (traffic env tcs (snd (rexec env t c st))) k = Some x"
    by (intro Cons.IH) (use Cons.prems in auto)
  with tc show ?case by simp
qed simp

end

text \<open>
  What a successful change wrote is what every later reader gets: after \<open>UpdateDynExclude\<close>
  changed the map (of valid UTF-8 strings), whatever traffic follows on other keys,
  \<open>GetDynExcludes\<close> returns the same map.
\<close>

theorem UpdateDynExclude_read_back:
  assumes "redis env db" and u: "UpdateDynExclude env now as t v add st = (Inr (m, True), st')"
    and wf: "wf_map m" "valid_map m"
    and tr: "\<forall>(t', c) \<in> set tcs. t' \<le> now' \<and> leaves_alone excludes_key c"
    and later: "now \<le> now'"
  shows "\<exists>m'. fst (GetDynExcludes env delivered now' (traffic env tcs st')) = Inr m' \<and> same_map m' m"
proof -
  obtain cs where "sees now (db st') = put_excludes m (fold (cmd_effect now) cs (sees now (db st)))"
    using UpdateDynExclude_linear [OF assms(1) u] by auto
  then have "sees now (db st') excludes_key = Some (RStr (Marshal (map_to_json m)), None)"
    by (simp add: put_excludes_def)
  then have "sees now' (db st') excludes_key = Some (RStr (Marshal (map_to_json m)), None)"
    by (auto simp: sees_def split: option.splits if_splits)
  then have "sees now' (db (traffic env tcs st')) excludes_key = Some (RStr (Marshal (map_to_json m)), None)"
    using redis.traffic_other [OF assms(1), of tcs now' excludes_key st'] tr by auto
  then have "str_at (sees now' (db (traffic env tcs st'))) excludes_key = Inr (Some (Marshal (map_to_json m)))"
    by (simp add: str_at_def)
  then have "fst (client env delivered now' (GET excludes_key) reply_string (traffic env tcs st'))
      = Inr (Marshal (map_to_json m))"
    using redis.call_GET [OF assms(1), of now' excludes_key "traffic env tcs st'"]
    by (auto simp: client_def reply_string_def split: prod.splits sum.splits)
  moreover have "stored_excludes (Some (Marshal (map_to_json m))) = Inr (Some (canon_map m))"
    using wf by (rule stored_excludes_Marshal)
  ultimately have "fst (GetDynExcludes env delivered now' (traffic env tcs st')) = Inr (canon_map m)"
    using Marshal_nonempty [OF no_num_map_to_json, of m]
    by (auto simp: GetDynExcludes_def stored_excludes_def split: prod.splits option.splits)
  then show ?thesis using same_canon_map by blast
qed

lemma single_update:
  "fst (UpdateDynExclude mem_env 0 (\<lambda>_. quiet_attempt) ''host'' ''b'' True mem_empty) = Inr ([(''host'', [''b''])], True)"
proof -
  have "map (\<lambda>_. quiet_attempt) [0..<maxRetries] = quiet_attempt # map (\<lambda>_. quiet_attempt) [1..<16]"
    by (simp add: maxRetries_def upt_rec)
  then show ?thesis
    by (simp add: UpdateDynExclude_def update_attempt_def quiet_attempt_def mem_eval update_body_def
        stored_excludes_def update_excludes_def exec_set_def excludes_key_def map_of_nil_def)
qed

theorem UpdateDynExclude_read_back_witness:
  "\<exists>st' m'. UpdateDynExclude mem_env 0 (\<lambda>_. quiet_attempt) ''host'' ''b'' True mem_empty
      = (Inr ([(''host'', [''b''])], True), st')
    \<and> fst (GetDynExcludes mem_env delivered 9 (traffic mem_env [(5, DEL ''other'')] st')) = Inr m'
    \<and> same_map m' [(''host'', [''b''])]"
proof -
  obtain st' where u: "UpdateDynExclude mem_env 0 (\<lambda>_. quiet_attempt) ''host'' ''b'' True mem_empty
      = (Inr ([(''host'', [''b''])], True), st')"
    using single_update by (metis prod.collapse)
  have v: "valid_map [(''host'', [''b''])]" by (rule valid_ascii_map) (simp add: ascii_def byte_def)
  have "\<forall>(t', c) \<in> set [(5 :: int, DEL ''other'')]. t' \<le> 9 \<and> leaves_alone excludes_key c"
    by (simp add: leaves_alone_def excludes_key_def)
  from UpdateDynExclude_read_back [OF mem.redis_axioms u _ v this] u show ?thesis by (simp add: wf_map_def)
qed

section \<open>The reservations of the deduplication: properties\<close>

definition reserved_at :: "keyspace \<Rightarrow> string \<Rightarrow> bool" where
  "reserved_at d fingerprint \<longleftrightarrow> d (dedup_key fingerprint) \<noteq> None"

lemma setnx_ttl_ok: "0 < ttl \<Longrightarrow> setnx_ttl ttl = Some (ttl_ms ttl) \<and> 0 < ttl_ms ttl"
  by (auto simp: setnx_ttl_def ttl_ms_def Millisecond_def quot64_nonneg pos_imp_zdiv_pos_iff)

context redis
begin

lemma SETNX_once:
  fixes fp :: string and ttl :: duration
  defines "m \<equiv> \<lambda>now. client_once env now (SETNX (dedup_key fp) ''1'' (setnx_ttl ttl)) reply_bool"
  shows "ks now st (dedup_key fp) = Some x \<Longrightarrow> fst (m now st) \<noteq> Inr True"
    "ks now st (dedup_key fp) = Some x \<Longrightarrow> ks now (snd (m now st)) (dedup_key fp) = Some x"
    "0 < ttl \<Longrightarrow> ks now st (dedup_key fp) = Some x \<Longrightarrow> fst (m now st) = Inr False"
    "0 < ttl \<Longrightarrow> ks now st (dedup_key fp) = None \<Longrightarrow> fst (m now st) = Inr True"
    "0 < ttl \<Longrightarrow> ks now st (dedup_key fp) = None \<Longrightarrow>
       ks now (snd (m now st)) = (ks now st)(dedup_key fp \<mapsto> (RStr ''1'', Some (now + ttl_ms ttl)))"
proof -
  let ?c = "SETNX (dedup_key fp) ''1'' (setnx_ttl ttl)"
  obtain r where r: "reply_ok ?c (ks now st) r" "fst (redis_call env now ?c st) = (case r of RErr e \<Rightarrow> Inl e | _ \<Rightarrow> Inr r)"
    using exec_reply [of ?c now st] by (auto simp: redis_call_def split: prod.splits reply.splits)
  note t = setnx_ttl_ok [of ttl]
  show "ks now st (dedup_key fp) = Some x \<Longrightarrow> fst (m now st) \<noteq> Inr True"
    using r by (auto simp: m_def reply_bool_def split: if_splits)
  show "ks now st (dedup_key fp) = Some x \<Longrightarrow> ks now (snd (m now st)) (dedup_key fp) = Some x"
    by (simp add: m_def call_state)
  show "0 < ttl \<Longrightarrow> ks now st (dedup_key fp) = Some x \<Longrightarrow> fst (m now st) = Inr False"
    "0 < ttl \<Longrightarrow> ks now st (dedup_key fp) = None \<Longrightarrow> fst (m now st) = Inr True"
    using r t by (auto simp: m_def reply_bool_def bad_expire_def)
  show "0 < ttl \<Longrightarrow> ks now st (dedup_key fp) = None \<Longrightarrow>
      ks now (snd (m now st)) = (ks now st)(dedup_key fp \<mapsto> (RStr ''1'', Some (now + ttl_ms ttl)))"
    using t by (simp add: m_def call_state bad_expire_def deadline_def)
qed

lemma ReserveDedup_reserved:
  assumes "ks now st (dedup_key fp) = Some x"
  shows "fst (ReserveDedup env net now fp ttl st) \<noteq> Inr True"
proof -
  let ?m = "client_once env now (SETNX (dedup_key fp) ''1'' (setnx_ttl ttl)) reply_bool"
  have "ks now (executions m ?m st) (dedup_key fp) = Some x" for m
    by (rule executions_invariant [where P = "\<lambda>s. ks now s (dedup_key fp) = Some x"], rule SETNX_once(2))
      (assumption, rule assms)
  from SETNX_once(1) [OF this, of ttl] show ?thesis
    using send_answer [of net ?m st True] unfolding ReserveDedup_def client_def by blast
qed

lemma ReserveDedup_granted:
  assumes "0 < ttl" and "ReserveDedup env delivered now fp ttl st = (Inr True, st')"
  shows "ks now st (dedup_key fp) = None" "ks now st' (dedup_key fp) = Some (RStr ''1'', Some (now + ttl_ms ttl))"
proof -
  have m: "client_once env now (SETNX (dedup_key fp) ''1'' (setnx_ttl ttl)) reply_bool st = (Inr True, st')"
    using assms(2) by (simp add: ReserveDedup_def client_def)
  show n: "ks now st (dedup_key fp) = None"
    using SETNX_once(1) [of now st fp _ ttl] m by (cases "ks now st (dedup_key fp)") auto
  show "ks now st' (dedup_key fp) = Some (RStr ''1'', Some (now + ttl_ms ttl))"
    using SETNX_once(5) [OF assms(1) n] m by (simp add: eq_snd_iff)
qed

end

text \<open>
  A reservation is exclusive: once a client reserved a fingerprint for \<open>ttl\<close>, no request for the
  same fingerprint is granted before \<open>ttl\<close> has passed, whoever sends it and however often the
  connection makes the client library send it again, as long as nobody forgets the fingerprint.
\<close>

theorem ReserveDedup_exclusive:
  assumes "redis env db" and "ReserveDedup env delivered now fp ttl st = (Inr True, st')" and "0 < ttl"
    and "\<forall>(t, c) \<in> set tcs. t \<le> now' \<and> (leaves_alone (dedup_key fp) c \<or> (\<exists>v d. c = SETNX (dedup_key fp) v d))"
    and "now \<le> now'" and "now' < now + ttl_ms ttl"
  shows "fst (ReserveDedup env net now' fp ttl' (traffic env tcs st')) \<noteq> Inr True"
proof -
  note r = assms(1)
  have "sees now (db st') (dedup_key fp) = Some (RStr ''1'', Some (now + ttl_ms ttl))"
    by (rule redis.ReserveDedup_granted(2) [OF r assms(3,2)])
  then have "sees now' (db st') (dedup_key fp) = Some (RStr ''1'', Some (now + ttl_ms ttl))"
    using assms(6) by (auto simp: sees_def split: option.splits if_splits)
  then have "sees now' (db (traffic env tcs st')) (dedup_key fp) = Some (RStr ''1'', Some (now + ttl_ms ttl))"
    by (intro redis.traffic_reserved [OF r]) (use assms(4) in auto)
  then show ?thesis by (rule redis.ReserveDedup_reserved [OF r])
qed

theorem ReserveDedup_exclusive_witness:
  "\<exists>st'. ReserveDedup mem_env delivered 0 ''f'' Second mem_empty = (Inr True, st')
    \<and> fst (ReserveDedup mem_env (Net 3 True) 999 ''f'' Second (traffic mem_env [(5, DEL ''g'')] st')) \<noteq> Inr True"
proof -
  obtain st' where r: "ReserveDedup mem_env delivered 0 ''f'' Second mem_empty = (Inr True, st')"
    by (simp add: ReserveDedup_def mem_eval dedup_key_def setnx_ttl_def ttl_ms_def duration_units quot64_def)
  have "\<forall>(t, c) \<in> set [(5 :: int, DEL ''g'')]. t \<le> 999
      \<and> (leaves_alone (dedup_key ''f'') c \<or> (\<exists>v d. c = SETNX (dedup_key ''f'') v d))"
    by (simp add: leaves_alone_def dedup_key_def)
  from ReserveDedup_exclusive [OF mem.redis_axioms r _ this] r show ?thesis
    by (simp add: Second_def ttl_ms_def Millisecond_def quot64_def)
qed

text \<open>
  A fingerprint that nobody holds is granted to a request that the server executed once. When
  the client library had to send the request again after losing the reply, the answer is that of
  the last execution, which finds the reservation of the first: the request is refused although
  no other alert holds the fingerprint.
\<close>

theorem ReserveDedup_available:
  assumes "redis env db" and "0 < ttl" and "\<not> reserved_at (sees now (db st)) fp"
  shows "fst (ReserveDedup env (Net (Suc n) True) now fp ttl st) = Inr (n = 0)"
proof -
  note r = assms(1)
  let ?k = "dedup_key fp"
  let ?m = "client_once env now (SETNX ?k ''1'' (setnx_ttl ttl)) reply_bool"
  have free: "sees now (db st) ?k = None" using assms(3) by (simp only: reserved_at_def not_not)
  note once = redis.SETNX_once [OF r, where fp = fp and ttl = ttl and now = now]
  have send: "fst (ReserveDedup env (Net (Suc n) True) now fp ttl st) = fst (?m (executions n ?m st))"
    by (simp add: ReserveDedup_def client_def split: prod.splits)
  show ?thesis
  proof (cases n)
    case 0
    then show ?thesis using once(4) [OF assms(2) free] send by simp
  next
    case (Suc j)
    have "sees now (db (snd (?m st))) ?k = Some (RStr ''1'', Some (now + ttl_ms ttl))"
      using once(5) [OF assms(2) free] by simp
    then have "sees now (db (executions j ?m (snd (?m st)))) ?k = Some (RStr ''1'', Some (now + ttl_ms ttl))"
      by (rule executions_invariant [where P = "\<lambda>s. sees now (db s) ?k = Some (RStr ''1'', Some (now + ttl_ms ttl))",
            rotated]) (erule once(2))
    from once(3) [OF assms(2) this] show ?thesis using send Suc by simp
  qed
qed

theorem ReserveDedup_available_witness:
  "fst (ReserveDedup mem_env (Net (Suc 1) True) 0 ''f'' Second mem_empty) = Inr False"
  using ReserveDedup_available [OF mem.redis_axioms, of Second 0 mem_empty "''f''" 1]
  by (simp add: Second_def reserved_at_def mem_empty_def sees_def mem_view_def mview_def)

text \<open>
  \<open>ForgetDedup\<close> gives the fingerprint back: after it, and after any traffic that leaves the key
  alone, the next request for the fingerprint is granted.
\<close>

theorem ForgetDedup_releases:
  assumes "redis env db" and "ForgetDedup env delivered now fp st = (q, st')"
    and "\<forall>(t, c) \<in> set tcs. t \<le> now' \<and> leaves_alone (dedup_key fp) c" and "now \<le> now'" and "0 < ttl"
  shows "fst (ReserveDedup env delivered now' fp ttl (traffic env tcs st')) = Inr True"
proof -
  note r = assms(1)
  have "client_once env now (DEL (dedup_key fp)) reply_done st = (q, st')"
    using assms(2) by (simp add: ForgetDedup_def client_def)
  then have "st' = snd (redis_call env now (DEL (dedup_key fp)) st)" by (metis client_once_simps(1) snd_conv)
  then have "sees now (db st') (dedup_key fp) = None"
    using redis.call_state [OF r, of now "DEL (dedup_key fp)" st] by simp
  then have "sees now' (db st') (dedup_key fp) = None" using assms(4) by (rule sees_gone_later)
  then have "sees now' (db (traffic env tcs st')) (dedup_key fp) = None"
    using redis.traffic_other [OF r, of tcs now' "dedup_key fp" st'] assms(3) by auto
  from redis.SETNX_once(4) [OF r assms(5) this] show ?thesis
    by (simp add: ReserveDedup_def client_def)
qed

theorem ForgetDedup_releases_witness:
  "\<exists>q st'. ForgetDedup mem_env delivered 0 ''f'' mem_empty = (q, st')
    \<and> fst (ReserveDedup mem_env delivered 7 ''f'' Second (traffic mem_env [(5, DEL ''g'')] st')) = Inr True"
proof -
  obtain q st' where f: "ForgetDedup mem_env delivered 0 ''f'' mem_empty = (q, st')" by fastforce
  have "\<forall>(t, c) \<in> set [(5 :: int, DEL ''g'')]. t \<le> 7 \<and> leaves_alone (dedup_key ''f'') c"
    by (simp add: leaves_alone_def dedup_key_def)
  from ForgetDedup_releases [OF mem.redis_axioms f this] f show ?thesis by (simp add: Second_def)
qed

section \<open>Queues: properties\<close>


definition queue_at :: "keyspace \<Rightarrow> string \<Rightarrow> string list \<Rightarrow> bool" where
  "queue_at d key xs \<longleftrightarrow> (\<exists>t. list_at d key = Inr (xs, t))"

lemma queue_at_put [simp]: "queue_at (put_list k xs t d) k ys \<longleftrightarrow> ys = xs"
  by (auto simp: queue_at_def put_list_def list_at_def)

context redis
begin

lemma call_lists:
  assumes "list_at (ks now st) k = Inr (xs, t)"
  shows "fst (redis_call env now (RPUSH k v) st) = Inr (RInt (int (length xs) + 1))"
    "ks now (snd (redis_call env now (RPUSH k v) st)) = put_list k (xs @ [v]) t (ks now st)"
    "fst (redis_call env now (LTRIM k a b) st) = Inr RStatus"
    "ks now (snd (redis_call env now (LTRIM k a b) st)) = put_list k (list_range a b xs) t (ks now st)"
    "fst (redis_call env now (LRANGE k a b) st) = Inr (RMulti (list_range a b xs))"
    "ks now (snd (redis_call env now (LRANGE k a b) st)) = ks now st"
    "fst (redis_call env now (LLEN k) st) = Inr (RInt (int (length xs)))"
    "ks now (snd (redis_call env now (LLEN k) st)) = ks now st"
  using assms exec_reply [of "RPUSH k v" now st] exec_reply [of "LTRIM k a b" now st]
    exec_reply [of "LRANGE k a b" now st] exec_reply [of "LLEN k" now st]
  by (simp_all add: call_state) (auto simp: redis_call_def split: prod.splits)

lemma EnqueueJSON_list:
  assumes "list_at (ks now st) k = Inr (xs, t)"
  shows "fst (EnqueueJSON env delivered now k v mx st) = Inr ()"
    "queue_at (ks now (snd (EnqueueJSON env delivered now k v mx st))) k
       (if 0 < mx then drop (length xs + 1 - nat mx) (xs @ [Marshal v]) else xs @ [Marshal v])"
proof -
  obtain st1 where p: "redis_call env now (RPUSH k (Marshal v)) st = (Inr (RInt (int (length xs) + 1)), st1)"
    and st1: "ks now st1 = put_list k (xs @ [Marshal v]) t (ks now st)"
    using call_lists(1,2) [OF assms, of "Marshal v"] by (metis prod.collapse)
  have l: "list_at (ks now st1) k = Inr (xs @ [Marshal v], t)"
    by (simp add: st1 list_at_def put_list_def)
  obtain st2 where q: "redis_call env now (LTRIM k (- mx) (- 1)) st1 = (Inr RStatus, st2)"
    and st2: "ks now st2 = put_list k (list_range (- mx) (- 1) (xs @ [Marshal v])) t (ks now st1)"
    using call_lists(3,4) [OF l, of "- mx" "- 1"] by (metis prod.collapse)
  show "fst (EnqueueJSON env delivered now k v mx st) = Inr ()"
    using p q by (simp add: EnqueueJSON_def)
  show "queue_at (ks now (snd (EnqueueJSON env delivered now k v mx st))) k
       (if 0 < mx then drop (length xs + 1 - nat mx) (xs @ [Marshal v]) else xs @ [Marshal v])"
    using p q st1 st2 by (simp add: EnqueueJSON_def list_range_last)
qed

end

text \<open>
  C31. The outbox queues are bounded first-in first-out queues: \<open>EnqueueJSON\<close> appends and, with a
  bound, keeps the newest \<open>max\<close> items; \<open>PeekQueue\<close> shows the oldest items and changes nothing;
  \<open>DropQueue\<close> removes exactly the oldest ones; \<open>QueueLength\<close> is the length.
\<close>

theorem queue_operations:
  assumes "redis env db" and "queue_at (sees now (db st)) k xs"
  shows "fst (EnqueueJSON env delivered now k v mx st) = Inr ()
    \<and> queue_at (sees now (db (snd (EnqueueJSON env delivered now k v mx st)))) k
        (if 0 < mx then drop (length xs + 1 - nat mx) (xs @ [Marshal v]) else xs @ [Marshal v])
    \<and> fst (PeekQueue env delivered now k mx st) = Inr (take (nat mx) xs)
    \<and> queue_at (sees now (db (snd (PeekQueue env delivered now k mx st)))) k xs
    \<and> fst (DropQueue env delivered now k n st) = Inr ()
    \<and> queue_at (sees now (db (snd (DropQueue env delivered now k n st)))) k (drop (nat n) xs)
    \<and> fst (QueueLength env delivered now k st) = Inr (int (length xs))"
proof -
  note r = assms(1)
  obtain t where l: "list_at (sees now (db st)) k = Inr (xs, t)" using assms(2) by (auto simp: queue_at_def)
  note c = redis.call_lists [OF r l]
  show ?thesis
  proof (intro conjI)
    show "fst (PeekQueue env delivered now k mx st) = Inr (take (nat mx) xs)"
      by (cases "0 < mx") (simp_all add: PeekQueue_def client_def c reply_strings_def list_range_first)
    show "queue_at (sees now (db (snd (PeekQueue env delivered now k mx st)))) k xs"
      using assms(2) by (simp add: PeekQueue_def client_def c)
    show "fst (DropQueue env delivered now k n st) = Inr ()"
      by (simp add: DropQueue_def client_def c reply_done_def)
    show "queue_at (sees now (db (snd (DropQueue env delivered now k n st)))) k (drop (nat n) xs)"
      using assms(2) by (simp add: DropQueue_def client_def c list_range_from)
    show "fst (QueueLength env delivered now k st) = Inr (int (length xs))"
      by (simp add: QueueLength_def client_def c reply_int_def)
  qed (rule redis.EnqueueJSON_list [OF r l])+
qed

theorem queue_operations_witness:
  "fst (PeekQueue mem_env delivered 0 ''q'' 2 mem_empty) = Inr (take 2 [])"
  using queue_operations [OF mem.redis_axioms, of 0 mem_empty "''q''" "[]" JNull 2 1]
  by (simp add: queue_at_def mem_empty_def sees_def mem_view_def mview_def list_at_def)


end
