(* ===== verification/Incident_Store.thy ===== *)
theory Incident_Store
  imports Keydb
begin

text \<open>
  The incidents of package \<open>keydb\<close> (keydb/keydb.go): the three Lua scripts that record, release and
  close an incident, as sequences of commands that run without interruption, the Go functions that
  call them, and what each does to the key space. The lemmas about the scripts are Hoare triples
  over the visible key space.
\<close>

section \<open>Incidents\<close>

text \<open>A key and an argument of a script are strings; the names say which is which.\<close>

type_synonym redis_key = string
type_synonym lua_arg = string

definition incident_key :: "string \<Rightarrow> string" where
  "incident_key name = ''incident:v1:'' @ name"

definition active_key :: string where
  "active_key = ''incident:v1:active''"

definition recovery_outbox_key :: string where
  "recovery_outbox_key = ''incident:v1:recovery-outbox''"

text \<open>\<open>recordIncidentScript\<close>, with its keys and arguments in the order of the code: the body from the
  increment of \<open>count\<close> on, then the whole script.\<close>

definition recordIncidentBody ::
  "'r redis_env \<Rightarrow> int \<Rightarrow> redis_key \<Rightarrow> redis_key \<Rightarrow> lua_arg \<Rightarrow> lua_arg \<Rightarrow> lua_arg \<Rightarrow> lua_arg \<Rightarrow> lua_arg \<Rightarrow> lua_arg
     \<Rightarrow> lua_arg \<Rightarrow> lua_arg \<Rightarrow> ('r, reply list) script" where
  "recordIncidentBody env now k1 k2 observed name title sample host process reminder quiet =
     script_bind (redis_call env now (HINCRBY k1 ''count'' 1)) (\<lambda>c.
     script_bind (redis_call env now (HSET k1 [(''name'', name), (''title'', title),
        (''last_seen_ms'', observed), (''sample'', sample)])) (\<lambda>_.
     script_bind (if host \<noteq> '''' then redis_call env now (HSET k1 [(''host:'' @ host, Itoa 1)])
        else script_return RNil) (\<lambda>_.
     script_bind (if process \<noteq> '''' then redis_call env now (HSET k1 [(''process:'' @ process, Itoa 1)])
        else script_return RNil) (\<lambda>_.
     script_bind (redis_call env now (HGET k1 ''last_notified_count'')) (\<lambda>ln.
     script_bind (tonumber_arg reminder) (\<lambda>every.
     (let count = number_or_zero c;
          notify = (number_or_zero ln = 0 \<or> every \<le> count - number_or_zero ln)
      in script_bind (if notify then redis_call env now (HSET k1 [(''last_notified_count'', Itoa count)])
           else script_return RNil) (\<lambda>_.
         script_bind (tonumber_arg quiet) (\<lambda>q.
         script_bind (redis_call env now (PEXPIRE k1 (q * 4))) (\<lambda>_.
         script_bind (tonumber_arg observed) (\<lambda>score.
         script_bind (redis_call env now (ZADD k2 score name)) (\<lambda>_.
         script_bind (redis_call env now (HGET k1 ''first_seen_ms'')) (\<lambda>first.
         script_return [first, RBulk observed, c, RInt (if notify then 1 else 0)])))))))))))))"

definition recordIncidentScript ::
  "'r redis_env \<Rightarrow> int \<Rightarrow> redis_key \<Rightarrow> redis_key \<Rightarrow> lua_arg \<Rightarrow> lua_arg \<Rightarrow> lua_arg \<Rightarrow> lua_arg \<Rightarrow> lua_arg \<Rightarrow> lua_arg
     \<Rightarrow> lua_arg \<Rightarrow> lua_arg \<Rightarrow> ('r, reply list) script" where
  "recordIncidentScript env now k1 k2 observed name title sample host process reminder quiet =
     script_bind (redis_call env now (HGET k1 ''count'')) (\<lambda>c0.
     script_bind (if number_or_zero c0 = 0
        then redis_call env now (HSET k1 [(''first_seen_ms'', observed), (''last_notified_count'', Itoa 0)])
        else script_return RNil) (\<lambda>_.
     recordIncidentBody env now k1 k2 observed name title sample host process reminder quiet))"

definition releaseIncidentNotificationScript ::
  "'r redis_env \<Rightarrow> int \<Rightarrow> redis_key \<Rightarrow> lua_arg \<Rightarrow> ('r, reply) script" where
  "releaseIncidentNotificationScript env now k1 n =
     script_bind (redis_call env now (HGET k1 ''last_notified_count'')) (\<lambda>c.
     script_bind (tonumber_arg n) (\<lambda>i.
     (if number_or_zero c = i then redis_call env now (HSET k1 [(''last_notified_count'', Itoa 0)])
      else script_return (RInt 0))))"

text \<open>The table that \<open>closeIncidentScript\<close> builds from the flat reply of \<open>HGETALL\<close>.\<close>

definition add_field :: "string \<Rightarrow> string \<Rightarrow> (string \<times> lua) list \<Rightarrow> (string \<times> lua) list option" where
  "add_field f s tab = (case map_of tab f of
      Some (LList xs) \<Rightarrow> Some (AList.update f (LList (xs @ [s])) tab)
    | _ \<Rightarrow> None)"

fun incident_table :: "string list \<Rightarrow> (string \<times> lua) list \<Rightarrow> (string \<times> lua) list option" where
  "incident_table (k # v # fs) tab =
     Option.bind
       (if take 5 k = ''host:'' then add_field ''hosts'' (drop 5 k) tab
        else if take 8 k = ''process:'' then add_field ''processes'' (drop 8 k) tab
        else Some (AList.update k (LStr v) tab))
       (incident_table fs)"
| "incident_table _ tab = Some tab"

definition incident_of :: "reply \<Rightarrow> (string \<times> lua) list option" where
  "incident_of reply =
     incident_table (case reply of RMulti xs \<Rightarrow> xs | _ \<Rightarrow> []) [(''hosts'', LList []), (''processes'', LList [])]"

definition closeIncidentScript ::
  "'r redis_env \<Rightarrow> int \<Rightarrow> redis_key \<Rightarrow> redis_key \<Rightarrow> redis_key \<Rightarrow> lua_arg \<Rightarrow> lua_arg \<Rightarrow> lua_arg \<Rightarrow> ('r, reply) script" where
  "closeIncidentScript env now k1 k2 k3 cutoff mx name =
     script_bind (redis_call env now (HGET k1 ''last_seen_ms'')) (\<lambda>ls.
     (case lua_number ls of
        None \<Rightarrow> script_return (RInt 0)
      | Some last_seen \<Rightarrow>
          script_bind (tonumber_arg cutoff) (\<lambda>c.
          if last_seen > c then script_return (RInt 0)
          else script_bind (redis_call env now (HGETALL k1)) (\<lambda>flds.
          (case incident_of flds of
             None \<Rightarrow> script_fail (ErrText ''ERR user_script: bad argument to insert'')
           | Some incident \<Rightarrow>
               script_bind (redis_call env now (RPUSH k3 (cjson env incident))) (\<lambda>_.
               script_bind (tonumber_arg mx) (\<lambda>m.
               script_bind (redis_call env now (LTRIM k3 (- m) (- 1))) (\<lambda>_.
               script_bind (redis_call env now (DEL k1)) (\<lambda>_.
               script_bind (redis_call env now (ZREM k2 name)) (\<lambda>_.
               script_return (RInt 1)))))))))))"

record IncidentUpdate =
  FirstSeenMS :: int
  LastSeenMS :: int
  Count :: int
  Notify :: bool

text \<open>\<open>fmt.Sscan\<close> into an \<open>int64\<close>: white space, a sign and decimal digits; what follows them is
  left. (Octal, hexadecimal and underscore forms are not decimal and not modelled: the scripts
  store what Go printed.)\<close>

definition Sscan_int64 :: "string \<Rightarrow> int result" where
  "Sscan_int64 s =
     (let t = dropWhile (\<lambda>c. is_space (byte c)) s;
          (sg, ds) = (case t of c # cs \<Rightarrow> if c = CHR ''-'' then (- 1, cs) else if c = CHR ''+'' then (1, cs) else (1, t)
                       | [] \<Rightarrow> (1, t));
          digits = takeWhile is_digit ds;
          i = sg * int (digits_value digits)
      in if digits = [] then Inl (ErrText ''expected integer'')
         else if in_int64 i then Inr i else Inl (ErrText ''integer overflow''))"

definition toInt64 :: "reply \<Rightarrow> int result" where
  "toInt64 r = (case r of
      RInt i \<Rightarrow> Inr i
    | RBulk s \<Rightarrow> Sscan_int64 s
    | _ \<Rightarrow> Inl (ErrText ''unexpected redis integer type''))"

fun toInt64s :: "reply list \<Rightarrow> int list result" where
  "toInt64s [] = Inr []"
| "toInt64s (r # rs) =
     (case toInt64 r of
        Inl e \<Rightarrow> Inl e
      | Inr i \<Rightarrow> (case toInt64s rs of Inl e \<Rightarrow> Inl e | Inr is \<Rightarrow> Inr (i # is)))"

definition RecordIncident ::
  "'r redis_env \<Rightarrow> net \<Rightarrow> int \<Rightarrow> string \<Rightarrow> string \<Rightarrow> string \<Rightarrow> string \<Rightarrow> string \<Rightarrow> instant \<Rightarrow> duration \<Rightarrow> int
     \<Rightarrow> ('r, IncidentUpdate) script" where
  "RecordIncident env net now name title sample host process observed quiet reminderEvery st =
     (let reminderEvery = (if reminderEvery < 1 then 25 else reminderEvery)
      in case send net (recordIncidentScript env now (incident_key name) active_key
              (Itoa (UnixMilli observed)) name title sample host process (Itoa reminderEvery)
              (Itoa (dur_Milliseconds quiet))) st of
           (Inl e, st') \<Rightarrow> (Inl e, st')
         | (Inr rs, st') \<Rightarrow>
             (case toInt64s rs of
                Inl e \<Rightarrow> Inl e
              | Inr vs \<Rightarrow>
                  (if length vs < 4 then Inl (GoPanic ''index out of range'')
                   else Inr \<lparr>FirstSeenMS = vs ! 0, LastSeenMS = vs ! 1, Count = vs ! 2, Notify = (vs ! 3 = 1)\<rparr>),
              st'))"

definition ReleaseIncidentNotification ::
  "'r redis_env \<Rightarrow> net \<Rightarrow> int \<Rightarrow> string \<Rightarrow> int \<Rightarrow> ('r, unit) script" where
  "ReleaseIncidentNotification env net now name n st =
     (case send net (releaseIncidentNotificationScript env now (incident_key name) (Itoa n)) st of
        (Inl e, st') \<Rightarrow> (Inl e, st')
      | (Inr r, st') \<Rightarrow> (Inr (), st'))"

definition DueIncidents :: "'r redis_env \<Rightarrow> net \<Rightarrow> int \<Rightarrow> instant \<Rightarrow> int \<Rightarrow> ('r, string list) script" where
  "DueIncidents env net now cutoff mx =
     client env net now (ZRANGEBYSCORE active_key (UnixMilli cutoff) (if mx < 1 then 100 else mx)) reply_strings"

definition CloseIncidentToOutbox ::
  "'r redis_env \<Rightarrow> net \<Rightarrow> int \<Rightarrow> string \<Rightarrow> instant \<Rightarrow> int \<Rightarrow> ('r, bool) script" where
  "CloseIncidentToOutbox env net now name cutoff mx st =
     (case send net (closeIncidentScript env now (incident_key name) active_key recovery_outbox_key
            (Itoa (UnixMilli cutoff)) (Itoa (if mx < 1 then 1000 else mx)) name) st of
        (Inl e, st') \<Rightarrow> (Inl e, st')
      | (Inr r, st') \<Rightarrow> (case reply_int r of Inl e \<Rightarrow> Inl e | Inr i \<Rightarrow> Inr (i = 1), st'))"

section \<open>Decimal numbers\<close>

lemma is_digit_not_space: "is_digit c \<Longrightarrow> \<not> is_space (byte c)"
  by (auto simp: is_digit_def is_space_def)

lemma takeWhile_nat_dec: "takeWhile is_digit (nat_dec n) = nat_dec n"
  using nat_dec_digits [of n] by (simp add: takeWhile_eq_all_conv list_all_iff)

lemma Sscan_Itoa [simp]: "in_int64 i \<Longrightarrow> Sscan_int64 (Itoa i) = Inr i"
proof -
  assume i: "in_int64 i"
  obtain c cs where n: "nat_dec (nat \<bar>i\<bar>) = c # cs" by (meson nat_dec_nonempty neq_Nil_conv)
  have d: "is_digit c" using n by (rule nat_dec_hd)
  have ns: "\<not> is_space (byte c)" "c \<noteq> CHR ''-''" "c \<noteq> CHR ''+''"
    using d is_digit_not_space by (auto simp: is_digit_def byte_def)
  have t: "takeWhile is_digit (c # cs) = nat_dec (nat \<bar>i\<bar>)" using takeWhile_nat_dec [of "nat \<bar>i\<bar>"] n by simp
  have dv: "int (digits_value (c # cs)) = \<bar>i\<bar>"
    using digits_value_nat_dec [of "nat \<bar>i\<bar>"] n by simp
  show ?thesis
  proof (cases "i < 0")
    case True
    moreover have "\<not> is_space (byte (CHR ''-''))" by (simp add: is_space_def byte_def)
    moreover have "nat \<bar>i\<bar> = nat (- i)" using True by simp
    ultimately show ?thesis using i t n dv
      by (simp add: Sscan_int64_def Itoa_def Let_def)
  next
    case False
    moreover have "nat \<bar>i\<bar> = nat i" using False by simp
    ultimately show ?thesis using i t n ns dv
      by (simp add: Sscan_int64_def Itoa_def Let_def)
  qed
qed

lemma in_int64_UnixMilli [simp]: "in_int64 (UnixMilli t)"
  by (simp add: UnixMilli_def)

section \<open>Triples over the visible key space\<close>

lemma hash_at_upd [simp]:
  "hash_at (d(k \<mapsto> (RHash h, t))) k = Inr (h, t)"
  "k' \<noteq> k \<Longrightarrow> hash_at (d(k' \<mapsto> v)) k = hash_at d k"
  "k' \<noteq> k \<Longrightarrow> hash_at (d(k' := None)) k = hash_at d k"
  by (simp_all add: hash_at_def)

lemma zset_at_upd [simp]:
  "k' \<noteq> k \<Longrightarrow> zset_at (d(k' \<mapsto> v)) k = zset_at d k"
  "k' \<noteq> k \<Longrightarrow> zset_at (d(k' := None)) k = zset_at d k"
  by (simp_all add: zset_at_def)

lemma list_at_upd [simp]:
  "k' \<noteq> k \<Longrightarrow> list_at (d(k' \<mapsto> v)) k = list_at d k"
  "k' \<noteq> k \<Longrightarrow> list_at (d(k' := None)) k = list_at d k"
  by (simp_all add: list_at_def)

context redis
begin

definition triple :: "int \<Rightarrow> keyspace \<Rightarrow> ('r, 'a) script \<Rightarrow> ('a result \<Rightarrow> keyspace \<Rightarrow> bool) \<Rightarrow> bool" where
  "triple now d m Q \<longleftrightarrow> (\<forall>st. ks now st = d \<longrightarrow> Q (fst (m st)) (ks now (snd (m st))))"

lemma tripleD: "triple now d m Q \<Longrightarrow> ks now st = d \<Longrightarrow> Q (fst (m st)) (ks now (snd (m st)))"
  by (simp add: triple_def)

lemma triple_return: "Q (Inr a) d \<Longrightarrow> triple now d (script_return a) Q"
  by (simp add: triple_def script_return_def)

lemma bind_call:
  assumes "\<And>r. reply_ok c d r \<Longrightarrow> (\<forall>e. r \<noteq> RErr e) \<and> triple now (cmd_effect now c d) (f r) Q"
  shows "triple now d (script_bind (redis_call env now c) f) Q"
  unfolding triple_def
proof (intro allI impI)
  fix st assume d: "ks now st = d"
  obtain r st' where x: "rexec env now c st = (r, st')" by fastforce
  have r: "reply_ok c d r" and v: "ks now st' = cmd_effect now c d" using call_ok [OF x] d by simp_all
  from assms [OF r] have "redis_call env now c st = (Inr r, st')"
    by (simp add: redis_call_def x split: reply.splits)
  then show "Q (fst (script_bind (redis_call env now c) f st)) (ks now (snd (script_bind (redis_call env now c) f st)))"
    using tripleD [OF conjunct2 [OF assms [OF r]] v] by (simp add: script_bind_def)
qed

lemma bind_HGET:
  assumes "hash_at d k = Inr (h, t)"
    and "triple now d (f (case h fld of None \<Rightarrow> RNil | Some s \<Rightarrow> RBulk s)) Q"
  shows "triple now d (script_bind (redis_call env now (HGET k fld)) f) Q"
  using assms by (intro bind_call) (auto split: option.splits)

lemma bind_HSET:
  assumes "hash_at d k = Inr (h, t)"
    and "\<And>r. triple now (d(k \<mapsto> (RHash (h ++ map_of (rev fs)), t))) (f r) Q"
  shows "triple now d (script_bind (redis_call env now (HSET k fs)) f) Q"
  using assms by (intro bind_call) auto

lemma bind_HSET_if:
  assumes "hash_at d k = Inr (h, t)" and "d k = Some (RHash h, t)"
    and "\<And>r. triple now (d(k \<mapsto> (RHash (if b then h ++ map_of (rev fs) else h), t))) (f r) Q"
  shows "triple now d (script_bind (if b then redis_call env now (HSET k fs) else script_return RNil) f) Q"
proof (cases b)
  case True
  with assms(3) have "\<And>r. triple now (d(k \<mapsto> (RHash (h ++ map_of (rev fs)), t))) (f r) Q" by simp
  from bind_HSET [OF assms(1) this] True show ?thesis by simp
next
  case False
  have "d(k \<mapsto> (RHash h, t)) = d" using assms(2) by (simp add: fun_upd_idem)
  with False assms(3) show ?thesis by (simp only: if_False script_bind_return)
qed

lemma bind_HINCRBY:
  assumes "hash_at d k = Inr (h, t)" "hash_int h fld = Some i" "in_int64 (i + n)"
    and "triple now (d(k \<mapsto> (RHash (h(fld \<mapsto> Itoa (i + n))), t))) (f (RInt (i + n))) Q"
  shows "triple now d (script_bind (redis_call env now (HINCRBY k fld n)) f) Q"
  using assms by (intro bind_call) auto

lemma bind_PEXPIRE:
  assumes "d k = Some (v, t)" "0 < ms"
    and "triple now (d(k \<mapsto> (v, Some (now + ms)))) (f (RInt 1)) Q"
  shows "triple now d (script_bind (redis_call env now (PEXPIRE k ms)) f) Q"
  using assms by (intro bind_call) auto

lemma bind_ZADD:
  assumes "zset_at d k = Inr (z, t)"
    and "\<And>r. triple now (d(k \<mapsto> (RZset (z(m \<mapsto> s)), t))) (f r) Q"
  shows "triple now d (script_bind (redis_call env now (ZADD k s m)) f) Q"
  using assms by (intro bind_call) (auto simp: put_zset_def)

end

section \<open>Recording\<close>

text \<open>
  The abstract incident: how many events it has, at which count it was last notified (0 when that
  notification was released), and when it was first seen. \<open>incident_at\<close> reads it from the key
  space; an incident with no event is a missing key.
\<close>

record incident =
  in_count :: int
  in_notified :: int
  in_first :: int

definition no_incident :: incident where
  "no_incident = \<lparr>in_count = 0, in_notified = 0, in_first = 0\<rparr>"

definition hash_incident :: "(string \<rightharpoonup> string) \<Rightarrow> incident \<Rightarrow> bool" where
  "hash_incident h i \<longleftrightarrow> h ''count'' = Some (Itoa (in_count i)) \<and> h ''last_notified_count'' = Some (Itoa (in_notified i))
     \<and> h ''first_seen_ms'' = Some (Itoa (in_first i)) \<and> 0 < in_count i \<and> in_count i < max_int64 \<and> in_int64 (in_first i)"

definition incident_at :: "keyspace \<Rightarrow> string \<Rightarrow> incident \<Rightarrow> bool" where
  "incident_at d name i \<longleftrightarrow>
     d (incident_key name) = None \<and> i = no_incident
     \<or> (\<exists>h t. d (incident_key name) = Some (RHash h, t) \<and> hash_incident h i)"

text \<open>The abstract operation: one more event at \<open>obs\<close>; it notifies when nothing was notified yet and
  at every \<open>every\<close> events since.\<close>

definition notify_due :: "int \<Rightarrow> incident \<Rightarrow> bool" where
  "notify_due every i \<longleftrightarrow> in_notified i = 0 \<or> every \<le> in_count i + 1 - in_notified i"

definition incident_event :: "int \<Rightarrow> int \<Rightarrow> incident \<Rightarrow> incident" where
  "incident_event every obs i = \<lparr>in_count = in_count i + 1,
     in_notified = (if notify_due every i then in_count i + 1 else in_notified i),
     in_first = (if in_count i = 0 then obs else in_first i)\<rparr>"

text \<open>The hash after the fields were written, before the count of the last notification.\<close>

definition touched :: "string \<Rightarrow> string \<Rightarrow> string \<Rightarrow> string \<Rightarrow> string \<Rightarrow> string \<Rightarrow> int \<Rightarrow> (string \<rightharpoonup> string) \<Rightarrow> string \<rightharpoonup> string" where
  "touched obs name title sample host process n h =
     (let h1 = h(''count'' \<mapsto> Itoa n, ''name'' \<mapsto> name, ''title'' \<mapsto> title, ''last_seen_ms'' \<mapsto> obs, ''sample'' \<mapsto> sample);
          h2 = (if host \<noteq> '''' then h1(''host:'' @ host \<mapsto> Itoa 1) else h1)
      in (if process \<noteq> '''' then h2(''process:'' @ process \<mapsto> Itoa 1) else h2))"

lemma touched_counts [simp]:
  "touched obs name title sample host process n h ''count'' = Some (Itoa n)"
  "touched obs name title sample host process n h ''last_notified_count'' = h ''last_notified_count''"
  "touched obs name title sample host process n h ''first_seen_ms'' = h ''first_seen_ms''"
  "touched obs name title sample host process n h ''last_seen_ms'' = Some obs"
  by (simp_all add: touched_def Let_def)

definition started :: "string \<Rightarrow> (string \<rightharpoonup> string) \<Rightarrow> string \<rightharpoonup> string" where
  "started obs h = h(''first_seen_ms'' \<mapsto> obs, ''last_notified_count'' \<mapsto> Itoa 0)"

lemma number_or_zero_simps [simp]:
  "number_or_zero RNil = 0" "number_or_zero (RBulk (Itoa i)) = i" "number_or_zero (RInt i) = i"
  by (simp_all add: number_or_zero_def lua_number_def)

context redis
begin

text \<open>From the increment of the count to the end, on an existing hash.\<close>

lemma record_tail:
  assumes "d k1 = Some (RHash h, t)" and "k1 \<noteq> k2" and "zset_at d k2 = Inr (z, u)" and "0 < q"
    and h: "h ''last_notified_count'' = Some (Itoa l)" "h ''first_seen_ms'' = Some f" "hash_int h ''count'' = Some c"
    and c: "in_int64 (c + 1)"
    and Q: "Q (Inr [RBulk f, RBulk (Itoa obs), RInt (c + 1), RInt (if l = 0 \<or> every \<le> c + 1 - l then 1 else 0)])
      (d(k1 \<mapsto> (RHash (if l = 0 \<or> every \<le> c + 1 - l
                then (touched (Itoa obs) name title sample host process (c + 1) h)(''last_notified_count'' \<mapsto> Itoa (c + 1))
                else touched (Itoa obs) name title sample host process (c + 1) h), Some (now + q * 4)),
         k2 \<mapsto> (RZset (z(name \<mapsto> obs)), u)))"
  shows "triple now d
    (recordIncidentBody env now k1 k2 (Itoa obs) name title sample host process (Itoa every) (Itoa q)) Q"
proof -
  let ?h1 = "h(''count'' \<mapsto> Itoa (c + 1), ''name'' \<mapsto> name, ''title'' \<mapsto> title, ''last_seen_ms'' \<mapsto> Itoa obs, ''sample'' \<mapsto> sample)"
  let ?h2 = "if host \<noteq> '''' then ?h1 ++ map_of (rev [(''host:'' @ host, Itoa 1)]) else ?h1"
  let ?h3 = "if process \<noteq> '''' then ?h2 ++ map_of (rev [(''process:'' @ process, Itoa 1)]) else ?h2"
  let ?t3 = "touched (Itoa obs) name title sample host process (c + 1) h"
  let ?n = "l = 0 \<or> every \<le> c + 1 - l"
  have h3: "?h3 = ?t3" by (simp add: touched_def Let_def)
  show ?thesis
    unfolding recordIncidentBody_def
    apply (rule bind_HINCRBY [where h = h and t = t and i = c])
       apply (simp add: hash_at_def assms(1))
      apply (rule h(3))
     apply (rule c)
    apply (rule bind_HSET, rule hash_at_upd(1))
    apply (rule bind_HSET_if [where h = ?h1 and t = t], simp, simp)
    apply (rule bind_HSET_if [where h = ?h2 and t = t], simp, simp)
    apply (rule bind_HGET [where h = ?t3 and t = t], simp only: h3, simp)
    apply (simp only: touched_counts h option.case tonumber_arg_Itoa script_bind_return Let_def number_or_zero_simps h3)
    apply (rule bind_HSET_if [where h = ?t3 and t = t], simp, simp)
    apply (simp only: tonumber_arg_Itoa script_bind_return fun_upd_upd)
    apply (rule bind_PEXPIRE, simp, simp add: assms(4))
    apply (simp only: tonumber_arg_Itoa script_bind_return fun_upd_upd)
    apply (rule bind_ZADD [where z = z and t = u], simp add: assms(2,3))
    apply (rule bind_HGET [where t = "Some (now + q * 4)"], simp add: assms(2) [symmetric])
    apply (rule triple_return)
    using Q assms(2)
    by (auto simp: h(2) split: if_splits)
qed

end

text \<open>What recording leaves behind: the incident with one more event, its expiry, the active set.\<close>

definition recorded :: "int \<Rightarrow> string \<Rightarrow> int \<Rightarrow> int \<Rightarrow> int \<Rightarrow> incident \<Rightarrow> keyspace \<Rightarrow> keyspace \<Rightarrow> bool" where
  "recorded now name every obs q i d d' \<longleftrightarrow>
     incident_at d' name (incident_event every obs i)
     \<and> (\<exists>v. d' (incident_key name) = Some (v, Some (now + q * 4)))
     \<and> (\<exists>z t. zset_at d active_key = Inr (z, t) \<and> d' active_key = Some (RZset (z(name \<mapsto> obs)), t))
     \<and> (\<forall>k. k \<noteq> incident_key name \<longrightarrow> k \<noteq> active_key \<longrightarrow> d' k = d k)"

lemma parse_count: "in_int64 n \<Longrightarrow> h f = Some (Itoa n) \<Longrightarrow> hash_int h f = Some n"
  by (simp add: hash_int_def)

text \<open>
  The hash behind an abstract incident, and the hash that one more event leaves: its fields are
  overwritten, its host and its process are added, and the count is noted when it notifies.
\<close>

definition event_hash :: "int \<Rightarrow> int \<Rightarrow> string \<Rightarrow> string \<Rightarrow> string \<Rightarrow> string \<Rightarrow> string \<Rightarrow> incident \<Rightarrow> (string \<rightharpoonup> string) \<Rightarrow> string \<rightharpoonup> string" where
  "event_hash every obs name title sample host process i h =
     (let h1 = touched (Itoa obs) name title sample host process (in_count i + 1)
                 (if in_count i = 0 then started (Itoa obs) h else h)
      in if notify_due every i then h1(''last_notified_count'' \<mapsto> Itoa (in_count i + 1)) else h1)"

definition incident_hash :: "keyspace \<Rightarrow> string \<Rightarrow> (string \<rightharpoonup> string) \<Rightarrow> incident \<Rightarrow> bool" where
  "incident_hash d name h i \<longleftrightarrow>
     d (incident_key name) = None \<and> h = Map.empty \<and> i = no_incident
     \<or> (\<exists>t. d (incident_key name) = Some (RHash h, t)) \<and> hash_incident h i"

lemma incident_at_hash: "incident_at d name i \<longleftrightarrow> (\<exists>h. incident_hash d name h i)"
  by (auto simp: incident_at_def incident_hash_def)

lemma hash_incident_event:
  assumes "hash_incident h i \<or> h = Map.empty \<and> i = no_incident" and "in_count i + 1 < max_int64" and "in_int64 obs"
  shows "hash_incident (event_hash every obs name title sample host process i h) (incident_event every obs i)"
  using assms
  by (auto simp: hash_incident_def event_hash_def incident_event_def no_incident_def notify_due_def started_def Let_def)

lemma recorded_exact:
  assumes "incident_hash d name h i" and "in_count i + 1 < max_int64" and "in_int64 obs"
    and "incident_key name \<noteq> active_key" and "zset_at d active_key = Inr (z, u)"
  shows "recorded now name every obs q i d
    (d(incident_key name \<mapsto> (RHash (event_hash every obs name title sample host process i h), Some (now + q * 4)),
       active_key \<mapsto> (RZset (z(name \<mapsto> obs)), u)))"
proof -
  have "hash_incident (event_hash every obs name title sample host process i h) (incident_event every obs i)"
    using assms(1-3) by (intro hash_incident_event) (auto simp: incident_hash_def)
  with assms(4,5) show ?thesis by (auto simp: recorded_def incident_at_def)
qed

context redis
begin

lemma record_script_exact:
  assumes i: "incident_hash d name h i" and room: "in_count i + 1 < max_int64" and k: "incident_key name \<noteq> active_key"
    and z: "zset_at d active_key = Inr (z, u)" and q: "0 < q"
  shows "triple now d
     (recordIncidentScript env now (incident_key name) active_key (Itoa obs) name title sample host process
        (Itoa every) (Itoa q))
     (\<lambda>r d'. r = Inr [RBulk (Itoa (in_first (incident_event every obs i))), RBulk (Itoa obs), RInt (in_count i + 1),
           RInt (if notify_due every i then 1 else 0)]
       \<and> d' = d(incident_key name \<mapsto> (RHash (event_hash every obs name title sample host process i h), Some (now + q * 4)),
               active_key \<mapsto> (RZset (z(name \<mapsto> obs)), u)))"
  using i unfolding incident_hash_def
proof (elim disjE exE conjE)
  assume n: "d (incident_key name) = None" and i0: "h = Map.empty" "i = no_incident"
  let ?k = "incident_key name"
  let ?h = "started (Itoa obs) Map.empty"
  let ?d = "d(?k \<mapsto> (RHash ?h, None))"
  have c: "hash_int ?h ''count'' = Some 0" by (simp add: hash_int_def started_def)
  have h: "?h ''last_notified_count'' = Some (Itoa 0)" "?h ''first_seen_ms'' = Some (Itoa obs)"
    by (simp_all add: started_def)
  have hash: "hash_at d ?k = Inr (Map.empty, None)" using n by (simp add: hash_at_def)
  have z': "zset_at ?d active_key = Inr (z, u)" using z k by simp
  have ms: "Map.empty ++ map_of (rev [(''first_seen_ms'', Itoa obs), (''last_notified_count'', Itoa 0)]) = ?h"
    by (simp add: started_def fun_upd_twist)
  show ?thesis
    unfolding recordIncidentScript_def
    apply (rule bind_HGET [OF hash])
    apply (simp only: option.case number_or_zero_simps if_True refl)
    apply (rule bind_HSET [OF hash])
    apply (simp only: ms)
    apply (rule record_tail [OF _ k z' q h c])
      apply simp
     apply (simp add: in_int64_def int64_defs)
    by (simp add: i0 incident_event_def notify_due_def no_incident_def event_hash_def)
next
  fix t
  assume n: "d (incident_key name) = Some (RHash h, t)" and hi: "hash_incident h i"
  let ?k = "incident_key name"
  have pos: "in_count i \<noteq> 0" and c64: "in_int64 (in_count i)" and c64': "in_int64 (in_count i + 1)"
    using hi room by (auto simp: hash_incident_def int64_defs)
  have h: "h ''last_notified_count'' = Some (Itoa (in_notified i))" "h ''first_seen_ms'' = Some (Itoa (in_first i))"
    "hash_int h ''count'' = Some (in_count i)" "h ''count'' = Some (Itoa (in_count i))"
    using hi c64 by (auto simp: hash_incident_def parse_count)
  have hash: "hash_at d ?k = Inr (h, t)" using n by (simp add: hash_at_def)
  show ?thesis
    unfolding recordIncidentScript_def
    apply (rule bind_HGET [OF hash])
    apply (simp only: h(4) option.case number_or_zero_simps pos if_False script_bind_return)
    apply (rule record_tail [OF n k z q h(1,2,3) c64'])
    by (simp add: pos incident_event_def notify_due_def event_hash_def)
qed

end

definition reminder_interval :: "int \<Rightarrow> int" where
  "reminder_interval reminderEvery = (if reminderEvery < 1 then 25 else reminderEvery)"

definition update_of :: "int \<Rightarrow> int \<Rightarrow> incident \<Rightarrow> IncidentUpdate" where
  "update_of every obs i =
     \<lparr>FirstSeenMS = in_first (incident_event every obs i), LastSeenMS = obs, Count = in_count i + 1,
      Notify = notify_due every i\<rparr>"

lemma incident_at_first:
  "incident_at d name i \<Longrightarrow> in_int64 obs \<Longrightarrow> in_int64 (in_first (incident_event every obs i))"
  by (auto simp: incident_at_def hash_incident_def incident_event_def no_incident_def)

lemma RecordIncident_exact:
  assumes r: "redis env db" and h: "incident_hash (sees now (db st)) name h i" and room: "in_count i + 1 < max_int64"
    and n: "incident_key name \<noteq> active_key" and z: "zset_at (sees now (db st)) active_key = Inr (z, u)"
    and q: "0 < dur_Milliseconds quiet"
    and c: "RecordIncident env delivered now name title sample host process observed quiet reminderEvery st = (res, st')"
  shows "res = Inr (update_of (reminder_interval reminderEvery) (UnixMilli observed) i)"
    and "sees now (db st') = (sees now (db st))
      (incident_key name \<mapsto> (RHash (event_hash (reminder_interval reminderEvery) (UnixMilli observed) name title sample host process i h),
         Some (now + dur_Milliseconds quiet * 4)),
       active_key \<mapsto> (RZset (z(name \<mapsto> UnixMilli observed)), u))"
proof -
  let ?every = "reminder_interval reminderEvery" and ?obs = "UnixMilli observed" and ?q = "dur_Milliseconds quiet"
  note t = redis.tripleD [OF r redis.record_script_exact
      [OF r h room n z q, of now ?obs title sample host process ?every] refl]
  have "incident_at (sees now (db st)) name i" using h by (auto simp: incident_at_hash)
  then have v: "toInt64s [RBulk (Itoa (in_first (incident_event ?every ?obs i))), RBulk (Itoa ?obs), RInt (in_count i + 1),
           RInt (if notify_due ?every i then 1 else 0)]
      = Inr [in_first (incident_event ?every ?obs i), ?obs, in_count i + 1, if notify_due ?every i then 1 else 0]"
    using incident_at_first [of "sees now (db st)" name i ?obs ?every] by (simp add: toInt64_def)
  from t v c show "res = Inr (update_of ?every ?obs i)" "sees now (db st') = (sees now (db st))
      (incident_key name \<mapsto> (RHash (event_hash ?every ?obs name title sample host process i h), Some (now + ?q * 4)),
       active_key \<mapsto> (RZset (z(name \<mapsto> ?obs)), u))"
    by (auto simp: RecordIncident_def Let_def reminder_interval_def [symmetric] update_of_def split: prod.splits sum.splits if_splits)
qed

lemma RecordIncident_step:
  assumes r: "redis env db" and i: "incident_at (sees now (db st)) name i" and room: "in_count i + 1 < max_int64"
    and n: "incident_key name \<noteq> active_key" and z: "zset_at (sees now (db st)) active_key = Inr (z, u)"
    and q: "0 < dur_Milliseconds quiet"
  shows "fst (RecordIncident env delivered now name title sample host process observed quiet reminderEvery st)
      = Inr (update_of (reminder_interval reminderEvery) (UnixMilli observed) i)
    \<and> recorded now name (reminder_interval reminderEvery) (UnixMilli observed) (dur_Milliseconds quiet) i
        (sees now (db st))
        (sees now (db (snd (RecordIncident env delivered now name title sample host process observed quiet reminderEvery st))))"
proof -
  obtain h where h: "incident_hash (sees now (db st)) name h i" using i by (auto simp: incident_at_hash)
  note e = RecordIncident_exact [OF r h room n z q prod.collapse [symmetric]]
  show ?thesis unfolding e using recorded_exact [OF h room in_int64_UnixMilli n z] by simp
qed

text \<open>
  C9. Recording an event refines the abstract incident: the caller learns the first and the last
  event's time, the new count and whether to notify, which is at the first event, after a released
  notification and every \<open>reminderEvery\<close> events; the incident expires after four quiet periods, its
  name is in the active set with the event's time, and no other key changes.
\<close>

theorem RecordIncident_refines:
  assumes "redis env db" and "incident_at (sees now (db st)) name i" and "in_count i + 1 < max_int64"
    and "incident_key name \<noteq> active_key" and "zset_at (sees now (db st)) active_key = Inr (z, u)"
    and "0 < dur_Milliseconds quiet"
    and "RecordIncident env delivered now name title sample host process observed quiet reminderEvery st = (r, st')"
  shows "r = Inr (update_of (reminder_interval reminderEvery) (UnixMilli observed) i)
    \<and> recorded now name (reminder_interval reminderEvery) (UnixMilli observed) (dur_Milliseconds quiet) i
        (sees now (db st)) (sees now (db st'))"
  using RecordIncident_step [OF assms(1-6), of title sample host process observed reminderEvery] assms(7) by simp

lemma mem_empty_view: "sees now (mem_view mem_empty) = Map.empty"
  by (auto simp: mem_empty_def sees_def mem_view_def mview_def)

theorem RecordIncident_refines_witness:
  "\<exists>st'. RecordIncident mem_env delivered 0 ''disk'' ''Disk full'' ''s'' ''h'' '''' unix_epoch Minute 0 mem_empty
      = (Inr \<lparr>FirstSeenMS = 0, LastSeenMS = 0, Count = 1, Notify = True\<rparr>, st')
    \<and> incident_at (sees 0 (mem_view st')) ''disk'' \<lparr>in_count = 1, in_notified = 1, in_first = 0\<rparr>"
proof -
  obtain r st' where e: "RecordIncident mem_env delivered 0 ''disk'' ''Disk full'' ''s'' ''h'' '''' unix_epoch Minute 0 mem_empty
      = (r, st')" by fastforce
  have "incident_at (sees 0 (mem_view mem_empty)) ''disk'' no_incident"
    by (simp add: mem_empty_view incident_at_def)
  from RecordIncident_refines [OF mem.redis_axioms this _ _ _ _ e, of Map.empty None] e show ?thesis
    by (simp add: mem_empty_view no_incident_def int64_defs incident_key_def active_key_def zset_at_def
        dur_Milliseconds_def Minute_def quot64_def update_of_def notify_due_def incident_event_def reminder_interval_def
        recorded_def UnixMilli_def wrap64_def)
qed

text \<open>A series of events of one incident, each with its clock, time, sample, host and process.\<close>

record event =
  ev_now :: int
  ev_observed :: instant
  ev_sample :: string
  ev_host :: string
  ev_process :: string

fun record_series ::
  "'r redis_env \<Rightarrow> string \<Rightarrow> string \<Rightarrow> duration \<Rightarrow> int \<Rightarrow> event list \<Rightarrow> 'r \<Rightarrow> IncidentUpdate result list \<times> 'r" where
  "record_series env name title quiet every [] st = ([], st)"
| "record_series env name title quiet every (e # es) st =
     (let (r, st1) = RecordIncident env delivered (ev_now e) name title (ev_sample e) (ev_host e) (ev_process e)
            (ev_observed e) quiet every st;
          (rs, st2) = record_series env name title quiet every es st1
      in (r # rs, st2))"

text \<open>Each event comes before the incident has expired.\<close>

fun in_time :: "int \<Rightarrow> int \<Rightarrow> event list \<Rightarrow> bool" where
  "in_time q now [] \<longleftrightarrow> True"
| "in_time q now (e # es) \<longleftrightarrow> now \<le> ev_now e \<and> ev_now e < now + q * 4 \<and> in_time q (ev_now e) es"

lemma incident_at_later:
  assumes "incident_at (sees now d) name i" "sees now d (incident_key name) = Some (v, Some (now + m))"
    and "now \<le> now'" "now' < now + m"
  shows "incident_at (sees now' d) name i"
proof -
  have "sees now' d (incident_key name) = Some (v, Some (now + m))"
    using assms(2,4) by (auto simp: sees_def split: option.splits if_splits)
  with assms(1,2) show ?thesis by (auto simp: incident_at_def)
qed

lemma zset_later:
  "sees now d k = Some (RZset z, None) \<Longrightarrow> now \<le> now' \<Longrightarrow> zset_at (sees now' d) k = Inr (z, None)"
  by (auto simp: sees_def zset_at_def split: option.splits if_splits)

text \<open>In an incident whose notifications were all kept, the last one is the latest of 1, 1+R, 1+2R, ...\<close>

definition on_cadence :: "int \<Rightarrow> incident \<Rightarrow> bool" where
  "on_cadence R i \<longleftrightarrow> 0 < in_count i \<and> in_notified i = in_count i - (in_count i - 1) mod R"

lemma on_cadence_event:
  assumes "on_cadence R i" "0 < R"
  shows "notify_due R i \<longleftrightarrow> in_count i mod R = 0" "on_cadence R (incident_event R obs i)"
proof -
  let ?c = "in_count i"
  have le: "(?c - 1) mod R \<le> ?c - 1"
    using assms by (intro zmod_le_nonneg_dividend) (simp add: on_cadence_def)
  have m: "0 \<le> (?c - 1) mod R" "(?c - 1) mod R < R" "(?c - 1) mod R \<le> ?c - 1"
    using assms le by simp_all
  have nz: "in_notified i \<noteq> 0" using assms m by (auto simp: on_cadence_def)
  have step: "?c mod R = (if (?c - 1) mod R = R - 1 then 0 else (?c - 1) mod R + 1)"
  proof -
    have "?c mod R = ((?c - 1) mod R + 1) mod R" by (simp add: mod_add_left_eq)
    then show ?thesis using m by (auto simp: mod_pos_pos_trivial)
  qed
  have "notify_due R i \<longleftrightarrow> R \<le> (?c - 1) mod R + 1" using nz assms by (auto simp: notify_due_def on_cadence_def)
  with step m show n: "notify_due R i \<longleftrightarrow> ?c mod R = 0" by auto
  show "on_cadence R (incident_event R obs i)"
  proof (cases "?c mod R = 0")
    case True
    with n assms show ?thesis by (simp add: on_cadence_def incident_event_def)
  next
    case False
    with step have "?c mod R = (?c - 1) mod R + 1" by (auto split: if_splits)
    with False n assms show ?thesis by (auto simp: on_cadence_def incident_event_def)
  qed
qed

text \<open>The updates that a series of events must produce when \<open>c\<close> events are already counted.\<close>

fun expected_updates :: "int \<Rightarrow> int \<Rightarrow> int \<Rightarrow> event list \<Rightarrow> IncidentUpdate result list" where
  "expected_updates R first c [] = []"
| "expected_updates R first c (e # es) =
     Inr \<lparr>FirstSeenMS = first, LastSeenMS = UnixMilli (ev_observed e), Count = c + 1, Notify = (c mod R = 0)\<rparr>
     # expected_updates R first (c + 1) es"

lemma record_series_running:
  assumes r: "redis env db" and k: "incident_key name \<noteq> active_key" and q: "0 < dur_Milliseconds quiet"
    and "incident_at (sees now (db st)) name i" and "on_cadence (reminder_interval every) i"
    and "sees now (db st) (incident_key name) = Some (v, Some (now + dur_Milliseconds quiet * 4))"
    and "sees now (db st) active_key = Some (RZset z, None)"
    and "in_time (dur_Milliseconds quiet) now es" and "in_count i + int (length es) < max_int64"
  shows "fst (record_series env name title quiet every es st)
    = expected_updates (reminder_interval every) (in_first i) (in_count i) es"
  using assms(4-)
proof (induction es arbitrary: now st i v z)
  case (Cons e es)
  let ?R = "reminder_interval every" and ?q = "dur_Milliseconds quiet" and ?now = "ev_now e"
  let ?obs = "UnixMilli (ev_observed e)"
  obtain rr st1 where rec: "RecordIncident env delivered ?now name title (ev_sample e) (ev_host e) (ev_process e)
      (ev_observed e) quiet every st = (rr, st1)" by fastforce
  have t: "now \<le> ?now" "?now < now + ?q * 4" using Cons.prems(5) by simp_all
  note i = incident_at_later [OF Cons.prems(1,3) t]
  note z = zset_later [OF Cons.prems(4) t(1)]
  have R: "0 < ?R" by (simp add: reminder_interval_def)
  from RecordIncident_step [OF r i _ k z q, of title "ev_sample e" "ev_host e" "ev_process e" "ev_observed e" every]
  have rr: "rr = Inr (update_of ?R ?obs i)"
    and d: "recorded ?now name ?R ?obs ?q i (sees ?now (db st)) (sees ?now (db st1))"
    using rec Cons.prems(6) by simp_all
  have pos: "in_count i \<noteq> 0" using Cons.prems(2) by (simp add: on_cadence_def)
  obtain w where w: "sees ?now (db st1) (incident_key name) = Some (w, Some (?now + ?q * 4))"
    "sees ?now (db st1) active_key = Some (RZset (z(name \<mapsto> ?obs)), None)"
    "incident_at (sees ?now (db st1)) name (incident_event ?R ?obs i)"
    using d z by (auto simp: recorded_def)
  have "fst (record_series env name title quiet every es st1)
      = expected_updates ?R (in_first (incident_event ?R ?obs i)) (in_count (incident_event ?R ?obs i)) es"
    by (rule Cons.IH [OF w(3) on_cadence_event(2) [OF Cons.prems(2) R] w(1,2)])
      (use Cons.prems(5,6) in \<open>simp_all add: incident_event_def\<close>)
  moreover have "rr = Inr \<lparr>FirstSeenMS = in_first i, LastSeenMS = ?obs, Count = in_count i + 1, Notify = (in_count i mod ?R = 0)\<rparr>"
    using rr pos on_cadence_event(1) [OF Cons.prems(2) R] by (simp add: update_of_def incident_event_def)
  ultimately show ?case
    using rec pos by (auto simp: incident_event_def split: prod.splits)
qed simp

text \<open>
  C15. The cadence of a series: when the events of an incident arrive one after the other before it
  expires and every notification is kept, the n-th event has count n, all report the time of the
  first, and exactly the events 1, 1+R, 1+2R, ... notify, where R is \<open>reminderEvery\<close> (25 when it is
  not positive).
\<close>

theorem RecordIncident_cadence:
  assumes "redis env db" and "incident_key name \<noteq> active_key" and "0 < dur_Milliseconds quiet"
    and "sees (ev_now e) (db st) (incident_key name) = None" and "sees (ev_now e) (db st) active_key = None"
    and "in_time (dur_Milliseconds quiet) (ev_now e) es" and "1 + int (length es) < max_int64"
  shows "fst (record_series env name title quiet every (e # es) st)
    = expected_updates (reminder_interval every) (UnixMilli (ev_observed e)) 0 (e # es)"
proof -
  let ?R = "reminder_interval every" and ?q = "dur_Milliseconds quiet" and ?now = "ev_now e"
  let ?obs = "UnixMilli (ev_observed e)"
  obtain rr st1 where rec: "RecordIncident env delivered ?now name title (ev_sample e) (ev_host e) (ev_process e)
      (ev_observed e) quiet every st = (rr, st1)" by fastforce
  have i: "incident_at (sees ?now (db st)) name no_incident" using assms(4) by (simp add: incident_at_def)
  have z: "zset_at (sees ?now (db st)) active_key = Inr (Map.empty, None)" using assms(5) by (simp add: zset_at_def)
  from RecordIncident_step [OF assms(1) i _ assms(2) z assms(3), of title "ev_sample e" "ev_host e" "ev_process e" "ev_observed e" every]
  have rr: "rr = Inr (update_of ?R ?obs no_incident)"
    and d: "recorded ?now name ?R ?obs ?q no_incident (sees ?now (db st)) (sees ?now (db st1))"
    using rec by (simp_all add: no_incident_def int64_defs)
  let ?i = "incident_event ?R ?obs no_incident"
  have i1: "in_count ?i = 1" "in_first ?i = ?obs" "on_cadence ?R ?i"
    by (simp_all add: incident_event_def no_incident_def notify_due_def on_cadence_def)
  obtain w where w: "sees ?now (db st1) (incident_key name) = Some (w, Some (?now + ?q * 4))"
    "sees ?now (db st1) active_key = Some (RZset (Map.empty(name \<mapsto> ?obs)), None)"
    "incident_at (sees ?now (db st1)) name ?i"
    using d z by (auto simp: recorded_def)
  have "fst (record_series env name title quiet every es st1) = expected_updates ?R ?obs 1 es"
    using record_series_running [OF assms(1-3) w(3) i1(3) w(1,2) assms(6)] assms(7) i1 by simp
  with rr rec show ?thesis
    by (auto simp: update_of_def no_incident_def notify_due_def incident_event_def split: prod.splits)
qed

definition sample_event :: "int \<Rightarrow> event" where
  "sample_event t = \<lparr>ev_now = t, ev_observed = unix_epoch, ev_sample = ''s'', ev_host = ''h'', ev_process = ''''\<rparr>"

theorem RecordIncident_cadence_witness:
  "map (map_sum id Notify) (fst (record_series mem_env ''disk'' ''Disk'' Minute 2
      [sample_event 0, sample_event 5, sample_event 9] mem_empty)) = [Inr True, Inr False, Inr True]"
  using RecordIncident_cadence [OF mem.redis_axioms, of "''disk''" Minute "sample_event 0" mem_empty
      "[sample_event 5, sample_event 9]" "''Disk''" 2]
  by (simp add: mem_empty_view incident_key_def active_key_def dur_Milliseconds_def Minute_def quot64_def
      sample_event_def int64_defs reminder_interval_def)

section \<open>Releasing\<close>

context redis
begin

lemma call_HSET_end:
  assumes "hash_at d k = Inr (h, t)" and "\<And>n. Q (Inr (RInt n)) (d(k \<mapsto> (RHash (h ++ map_of (rev fs)), t)))"
  shows "triple now d (redis_call env now (HSET k fs)) Q"
  unfolding triple_def
proof (intro allI impI)
  fix st assume d: "ks now st = d"
  obtain r st' where x: "rexec env now (HSET k fs) st = (r, st')" by fastforce
  from call_ok [OF x] d assms(1) obtain n where "r = RInt n"
    "ks now st' = d(k \<mapsto> (RHash (h ++ map_of (rev fs)), t))" by auto
  with assms(2) show "Q (fst (redis_call env now (HSET k fs) st)) (ks now (snd (redis_call env now (HSET k fs) st)))"
    by (simp add: redis_call_def x)
qed

lemma release_script:
  assumes i: "incident_at d name i" and n: "0 < n"
  shows "triple now d (releaseIncidentNotificationScript env now (incident_key name) (Itoa n))
    (\<lambda>r d'. (\<exists>x. r = Inr x) \<and> incident_at d' name (if in_notified i = n then i\<lparr>in_notified := 0\<rparr> else i)
       \<and> (\<forall>k. k \<noteq> incident_key name \<longrightarrow> d' k = d k))"
  using i [unfolded incident_at_def]
proof (elim disjE exE conjE)
  assume k: "d (incident_key name) = None" and i0: "i = no_incident"
  have "hash_at d (incident_key name) = Inr (Map.empty, None)" using k by (simp add: hash_at_def)
  then show ?thesis
    unfolding releaseIncidentNotificationScript_def
    by (rule bind_HGET) (use n k i0 in \<open>auto intro!: triple_return simp: no_incident_def incident_at_def\<close>)
next
  fix h t
  assume k: "d (incident_key name) = Some (RHash h, t)" and hi: "hash_incident h i"
  have hash: "hash_at d (incident_key name) = Inr (h, t)" using k by (simp add: hash_at_def)
  have l: "h ''last_notified_count'' = Some (Itoa (in_notified i))" using hi by (simp add: hash_incident_def)
  show ?thesis
    unfolding releaseIncidentNotificationScript_def
  proof (rule bind_HGET [OF hash], simp add: l, intro conjI impI, goal_cases)
    case 1
    show ?case
      by (rule call_HSET_end [OF hash]) (use hi in \<open>auto simp: incident_at_def hash_incident_def\<close>)
  next
    case 2
    then show ?case using k hi by (auto intro!: triple_return simp: incident_at_def)
  qed
qed

end

text \<open>
  Releasing the notification of count \<open>n\<close> makes the next event notify again, but only while \<open>n\<close>
  is still the last notified count: a release that comes after a later notification changes nothing.
\<close>

theorem ReleaseIncidentNotification_spec:
  assumes "redis env db" and "incident_at (sees now (db st)) name i" and "0 < n"
    and "ReleaseIncidentNotification env delivered now name n st = (r, st')"
  shows "r = Inr () \<and> (\<exists>i'. incident_at (sees now (db st')) name i' \<and> in_count i' = in_count i \<and> in_first i' = in_first i
    \<and> in_notified i' = (if in_notified i = n then 0 else in_notified i)
    \<and> (in_notified i = n \<longrightarrow> (\<forall>R. notify_due R i')))"
proof -
  let ?i' = "if in_notified i = n then i\<lparr>in_notified := 0\<rparr> else i"
  from redis.tripleD [OF assms(1) redis.release_script [OF assms(1,2,3)] refl] assms(4)
  have "r = Inr ()" "incident_at (sees now (db st')) name ?i'"
    by (auto simp: ReleaseIncidentNotification_def split: prod.splits sum.splits)
  then show ?thesis by (intro conjI exI [of _ ?i']) (auto simp: notify_due_def)
qed

theorem ReleaseIncidentNotification_spec_witness:
  "\<exists>st r st' i'. RecordIncident mem_env delivered 0 ''disk'' ''Disk full'' ''s'' ''h'' '''' unix_epoch Minute 0 mem_empty
      = (Inr \<lparr>FirstSeenMS = 0, LastSeenMS = 0, Count = 1, Notify = True\<rparr>, st)
    \<and> ReleaseIncidentNotification mem_env delivered 0 ''disk'' 1 st = (r, st')
    \<and> incident_at (sees 0 (mem_view st')) ''disk'' i' \<and> in_notified i' = 0"
proof -
  obtain r0 st where e: "RecordIncident mem_env delivered 0 ''disk'' ''Disk full'' ''s'' ''h'' '''' unix_epoch Minute 0 mem_empty
      = (r0, st)" by fastforce
  have "incident_at (sees 0 (mem_view mem_empty)) ''disk'' no_incident"
    by (simp add: mem_empty_view incident_at_def)
  from RecordIncident_step [OF mem.redis_axioms this, of Map.empty None Minute "''Disk full''" "''s''" "''h''" "''''" unix_epoch 0] e
  have r0: "r0 = Inr \<lparr>FirstSeenMS = 0, LastSeenMS = 0, Count = 1, Notify = True\<rparr>"
    and i: "incident_at (sees 0 (mem_view st)) ''disk'' \<lparr>in_count = 1, in_notified = 1, in_first = 0\<rparr>"
    by (simp_all add: mem_empty_view no_incident_def int64_defs incident_key_def active_key_def zset_at_def
        dur_Milliseconds_def Minute_def quot64_def update_of_def notify_due_def incident_event_def reminder_interval_def
        recorded_def UnixMilli_def wrap64_def)
  obtain r st' where rel: "ReleaseIncidentNotification mem_env delivered 0 ''disk'' 1 st = (r, st')" by fastforce
  from ReleaseIncidentNotification_spec [OF mem.redis_axioms i _ rel] obtain i' where
    "incident_at (sees 0 (mem_view st')) ''disk'' i'" "in_notified i' = 0" by auto
  with rel e r0 show ?thesis by blast
qed

section \<open>Closing\<close>

lemma list_at_RList [simp]: "d k = Some (RList xs, t) \<Longrightarrow> list_at d k = Inr (xs, t)"
  by (simp add: list_at_def)

text \<open>The table of an incident: its plain fields, and the hosts and processes of its events.\<close>

definition plain_field :: "string \<Rightarrow> bool" where
  "plain_field k \<longleftrightarrow> take 5 k \<noteq> ''host:'' \<and> take 8 k \<noteq> ''process:''"

definition incident_fields :: "(string \<rightharpoonup> string) \<Rightarrow> (string \<times> lua) list \<Rightarrow> bool" where
  "incident_fields h tab \<longleftrightarrow> wf_map tab
     \<and> (\<exists>hs. map_of tab ''hosts'' = Some (LList hs) \<and> distinct hs \<and> set hs = {x. ''host:'' @ x \<in> dom h})
     \<and> (\<exists>ps. map_of tab ''processes'' = Some (LList ps) \<and> distinct ps \<and> set ps = {x. ''process:'' @ x \<in> dom h})
     \<and> (\<forall>k. k \<noteq> ''hosts'' \<longrightarrow> k \<noteq> ''processes'' \<longrightarrow>
          map_of tab k = (if plain_field k then map_option LStr (h k) else None))"

text \<open>No plain field is called \<open>hosts\<close> or \<open>processes\<close>, as in every hash that the script wrote.\<close>

definition script_hash :: "(string \<rightharpoonup> string) \<Rightarrow> bool" where
  "script_hash h \<longleftrightarrow> h ''hosts'' = None \<and> h ''processes'' = None"

lemma take_host: "take 5 k = ''host:'' \<longleftrightarrow> (\<exists>x. k = ''host:'' @ x)"
proof
  assume "take 5 k = ''host:''"
  then show "\<exists>x. k = ''host:'' @ x" by (metis append_take_drop_id)
qed auto

lemma take_process: "take 8 k = ''process:'' \<longleftrightarrow> (\<exists>x. k = ''process:'' @ x)"
proof
  assume "take 8 k = ''process:''"
  then show "\<exists>x. k = ''process:'' @ x" by (metis append_take_drop_id)
qed auto

lemma plain_field_cases:
  obtains x where "k = ''host:'' @ x" | x where "k = ''process:'' @ x" "take 5 k \<noteq> ''host:''"
  | "plain_field k" "take 5 k \<noteq> ''host:''" "take 8 k \<noteq> ''process:''" "\<And>x. k \<noteq> ''host:'' @ x" "\<And>x. k \<noteq> ''process:'' @ x"
  unfolding plain_field_def take_host take_process by blast

lemma incident_fields_step:
  assumes f: "incident_fields h tab" and new: "k \<notin> dom h" and s: "k \<noteq> ''hosts''" "k \<noteq> ''processes''"
  shows "\<exists>tab'. (if take 5 k = ''host:'' then add_field ''hosts'' (drop 5 k) tab
        else if take 8 k = ''process:'' then add_field ''processes'' (drop 8 k) tab
        else Some (AList.update k (LStr v) tab)) = Some tab' \<and> incident_fields (h(k \<mapsto> v)) tab'"
proof -
  obtain hs ps where w: "wf_map tab" "map_of tab ''hosts'' = Some (LList hs)" "distinct hs"
    "set hs = {x. ''host:'' @ x \<in> dom h}" "map_of tab ''processes'' = Some (LList ps)" "distinct ps"
    "set ps = {x. ''process:'' @ x \<in> dom h}"
    and pl: "\<And>k. k \<noteq> ''hosts'' \<Longrightarrow> k \<noteq> ''processes'' \<Longrightarrow>
       map_of tab k = (if plain_field k then map_option LStr (h k) else None)"
    using f [unfolded incident_fields_def] by (elim conjE exE) (rule that, assumption+, simp)
  show ?thesis
  proof (rule plain_field_cases [of k])
    fix x assume k: "k = ''host:'' @ x"
    let ?tab = "AList.update ''hosts'' (LList (hs @ [x])) tab"
    have t: "take 5 k = ''host:''" "drop 5 k = x" and np: "\<not> plain_field k" by (simp_all add: k plain_field_def)
    have a: "add_field ''hosts'' x tab = Some ?tab" by (simp add: add_field_def w(2))
    have "map_of ?tab ''hosts'' = Some (LList (hs @ [x]))" "map_of ?tab ''processes'' = Some (LList ps)"
      using w(5) by simp_all
    moreover have "map_of ?tab k' = (if plain_field k' then map_option LStr ((h(k \<mapsto> v)) k') else None)"
      if "k' \<noteq> ''hosts''" "k' \<noteq> ''processes''" for k'
      using pl [OF that] that(1) np by auto
    moreover have "set (hs @ [x]) = {y. ''host:'' @ y \<in> dom (h(k \<mapsto> v))}" "distinct (hs @ [x])"
      using w(3,4) new by (auto simp: k)
    moreover have "set ps = {y. ''process:'' @ y \<in> dom (h(k \<mapsto> v))}" using w(7) by (simp add: k)
    ultimately have "incident_fields (h(k \<mapsto> v)) ?tab"
      using w(1,6) unfolding incident_fields_def by (blast intro: wf_map_update)
    then show ?thesis using t a by (simp only: if_True refl) blast
  next
    fix x assume k: "k = ''process:'' @ x" and n: "take 5 k \<noteq> ''host:''"
    let ?tab = "AList.update ''processes'' (LList (ps @ [x])) tab"
    have t: "take 8 k = ''process:''" "drop 8 k = x" and np: "\<not> plain_field k" by (simp_all add: k plain_field_def)
    have a: "add_field ''processes'' x tab = Some ?tab" by (simp add: add_field_def w(5))
    have "map_of ?tab ''hosts'' = Some (LList hs)" "map_of ?tab ''processes'' = Some (LList (ps @ [x]))"
      using w(2) by simp_all
    moreover have "map_of ?tab k' = (if plain_field k' then map_option LStr ((h(k \<mapsto> v)) k') else None)"
      if "k' \<noteq> ''hosts''" "k' \<noteq> ''processes''" for k'
      using pl [OF that] that(2) np by auto
    moreover have "set (ps @ [x]) = {y. ''process:'' @ y \<in> dom (h(k \<mapsto> v))}" "distinct (ps @ [x])"
      using w(6,7) new by (auto simp: k)
    moreover have "set hs = {y. ''host:'' @ y \<in> dom (h(k \<mapsto> v))}" using w(4) by (simp add: k)
    ultimately have "incident_fields (h(k \<mapsto> v)) ?tab"
      using w(1,3) unfolding incident_fields_def by (blast intro: wf_map_update)
    then show ?thesis using t a n by (simp only: if_True if_False refl) blast
  next
    assume k: "plain_field k" "take 5 k \<noteq> ''host:''" "take 8 k \<noteq> ''process:''"
      "\<And>x. k \<noteq> ''host:'' @ x" "\<And>x. k \<noteq> ''process:'' @ x"
    let ?tab = "AList.update k (LStr v) tab"
    have "''host:'' @ y \<noteq> k" "''process:'' @ y \<noteq> k" for y using k(4,5) by metis+
    then have "set hs = {y. ''host:'' @ y \<in> dom (h(k \<mapsto> v))}" "set ps = {y. ''process:'' @ y \<in> dom (h(k \<mapsto> v))}"
      using w(4,7) by simp_all
    moreover have "map_of ?tab ''hosts'' = Some (LList hs)" "map_of ?tab ''processes'' = Some (LList ps)"
      using w(2,5) s by simp_all
    moreover have "map_of ?tab k' = (if plain_field k' then map_option LStr ((h(k \<mapsto> v)) k') else None)"
      if "k' \<noteq> ''hosts''" "k' \<noteq> ''processes''" for k'
      using pl [OF that] k(1) by simp
    ultimately have "incident_fields (h(k \<mapsto> v)) ?tab"
      using w(1,3,6) unfolding incident_fields_def by (blast intro: wf_map_update)
    then show ?thesis using k(2,3) by simp
  qed
qed

lemma incident_table_fields:
  assumes "wf_map ps" "incident_fields h tab" "\<forall>k \<in> fst ` set ps. k \<notin> dom h \<and> k \<noteq> ''hosts'' \<and> k \<noteq> ''processes''"
  shows "\<exists>tab'. incident_table (flat_pairs ps) tab = Some tab' \<and> incident_fields (h ++ map_of (rev ps)) tab'"
  using assms
proof (induction ps arbitrary: h tab)
  case (Cons p ps)
  obtain k v where p: "p = (k, v)" by fastforce
  obtain tab1 where t: "(if take 5 k = ''host:'' then add_field ''hosts'' (drop 5 k) tab
        else if take 8 k = ''process:'' then add_field ''processes'' (drop 8 k) tab
        else Some (AList.update k (LStr v) tab)) = Some tab1" and f: "incident_fields (h(k \<mapsto> v)) tab1"
    using incident_fields_step [of h tab k v] Cons.prems p by auto
  have "\<exists>tab'. incident_table (flat_pairs ps) tab1 = Some tab' \<and> incident_fields (h(k \<mapsto> v) ++ map_of (rev ps)) tab'"
  proof (rule Cons.IH [OF _ f])
    show "wf_map ps" using Cons.prems(1) by (simp add: wf_map_def)
    have k: "k \<notin> fst ` set ps" using Cons.prems(1) p by (simp add: wf_map_def)
    show "\<forall>x \<in> fst ` set ps. x \<notin> dom (h(k \<mapsto> v)) \<and> x \<noteq> ''hosts'' \<and> x \<noteq> ''processes''"
    proof
      fix x assume x: "x \<in> fst ` set ps"
      then have "x \<in> fst ` set (p # ps)" by auto
      with Cons.prems(3) have "x \<notin> dom h \<and> x \<noteq> ''hosts'' \<and> x \<noteq> ''processes''" by blast
      moreover have "x \<noteq> k" using x k by blast
      ultimately show "x \<notin> dom (h(k \<mapsto> v)) \<and> x \<noteq> ''hosts'' \<and> x \<noteq> ''processes''" by simp
    qed
  qed
  moreover have "h(k \<mapsto> v) ++ map_of (rev ps) = h ++ map_of (rev (p # ps))"
    by (simp add: p)
  ultimately show ?case by (simp only: p flat_pairs.simps incident_table.simps t Option.bind.simps)
qed simp

lemma incident_of_fields:
  assumes "wf_map ps" "map_of ps = h" "script_hash h"
  shows "\<exists>tab. incident_of (RMulti (flat_pairs ps)) = Some tab \<and> incident_fields h tab"
proof -
  have "map_of (rev ps) = h"
    using assms(1,2) map_of_inject_set [of "rev ps" ps] by (simp add: wf_map_def rev_map [symmetric])
  moreover have "incident_fields Map.empty [(''hosts'', LList []), (''processes'', LList [])]"
    by (auto simp: incident_fields_def wf_map_def)
  moreover have "\<forall>k \<in> fst ` set ps. k \<noteq> ''hosts'' \<and> k \<noteq> ''processes''"
    using assms(3) unfolding script_hash_def assms(2) [symmetric] map_of_eq_None_iff by blast
  ultimately show ?thesis
    using incident_table_fields [OF assms(1), of Map.empty] by (fastforce simp: incident_of_def)
qed

text \<open>What closing leaves behind: the incident and its active entry are gone, the outbox has one more
  item (the newest \<open>mx\<close> are kept), every other key is as it was.\<close>

definition closed :: "'r redis_env \<Rightarrow> string \<Rightarrow> int \<Rightarrow> (string \<rightharpoonup> string) \<Rightarrow> (string \<rightharpoonup> int) \<Rightarrow> string list
    \<Rightarrow> keyspace \<Rightarrow> keyspace \<Rightarrow> bool" where
  "closed env name mx h z xs d d' \<longleftrightarrow>
     d' (incident_key name) = None
     \<and> (\<exists>t. zset_at d' active_key = Inr (z(name := None), t))
     \<and> (\<exists>tab. incident_fields h tab
          \<and> queue_at d' recovery_outbox_key (drop (length xs + 1 - nat mx) (xs @ [cjson env tab])))
     \<and> (\<forall>k. k \<noteq> incident_key name \<longrightarrow> k \<noteq> active_key \<longrightarrow> k \<noteq> recovery_outbox_key \<longrightarrow> d' k = d k)"

lemma put_other [simp]: "k \<noteq> k' \<Longrightarrow> put_list k xs t d k' = d k'" "k \<noteq> k' \<Longrightarrow> put_zset k z t d k' = d k'"
  by (simp_all add: put_list_def put_zset_def)

lemma list_at_put [simp]: "list_at (put_list k xs t d) k = Inr (xs, if xs = [] then None else t)"
  by (simp add: put_list_def list_at_def)

lemma zset_at_put [simp]: "zset_at (put_zset k z t d) k = Inr (z, if z = Map.empty then None else t)"
  by (simp add: put_zset_def zset_at_def)

lemma zset_at_put_list [simp]: "k \<noteq> k' \<Longrightarrow> zset_at (put_list k xs t d) k' = zset_at d k'"
  by (simp add: zset_at_def)

lemma queue_at_put_zset [simp]: "k \<noteq> k' \<Longrightarrow> queue_at (put_zset k z t d) k' xs = queue_at d k' xs"
  by (simp add: queue_at_def list_at_def)

lemma queue_at_upd [simp]: "k \<noteq> k' \<Longrightarrow> queue_at (d(k := v)) k' xs = queue_at d k' xs"
  by (simp add: queue_at_def list_at_def)

lemma keys_distinct: "active_key \<noteq> recovery_outbox_key"
  by (simp add: active_key_def recovery_outbox_key_def)

lemma lua_number_Itoa [simp]: "lua_number (RBulk (Itoa i)) = Some i"
  by (simp add: lua_number_def)

context redis
begin

lemma bind_HGETALL:
  assumes "hash_at d k = Inr (h, t)"
    and "\<And>ps. wf_map ps \<Longrightarrow> map_of ps = h \<Longrightarrow> triple now d (f (RMulti (flat_pairs ps))) Q"
  shows "triple now d (script_bind (redis_call env now (HGETALL k)) f) Q"
  using assms by (intro bind_call) auto

lemma bind_RPUSH:
  assumes "list_at d k = Inr (xs, t)" and "\<And>r. triple now (put_list k (xs @ [v]) t d) (f r) Q"
  shows "triple now d (script_bind (redis_call env now (RPUSH k v)) f) Q"
  using assms by (intro bind_call) auto

lemma bind_LTRIM:
  assumes "list_at d k = Inr (xs, t)" and "\<And>r. triple now (put_list k (list_range a b xs) t d) (f r) Q"
  shows "triple now d (script_bind (redis_call env now (LTRIM k a b)) f) Q"
  using assms by (intro bind_call) auto

lemma bind_DEL:
  assumes "\<And>r. triple now (d(k := None)) (f r) Q"
  shows "triple now d (script_bind (redis_call env now (DEL k)) f) Q"
  using assms by (intro bind_call) auto

lemma bind_ZREM:
  assumes "zset_at d k = Inr (z, t)" and "\<And>r. triple now (put_zset k (z(m := None)) t d) (f r) Q"
  shows "triple now d (script_bind (redis_call env now (ZREM k m)) f) Q"
  using assms by (intro bind_call) auto

lemma close_script_due:
  assumes d: "d (incident_key name) = Some (RHash h, t)" and ls: "h ''last_seen_ms'' = Some (Itoa ls)" "ls \<le> co"
    and sh: "script_hash h" and mx: "0 < mx" and k: "incident_key name \<noteq> active_key" "incident_key name \<noteq> recovery_outbox_key"
    and z: "zset_at d active_key = Inr (z, u)" and q: "list_at d recovery_outbox_key = Inr (xs, w)"
  shows "triple now d (closeIncidentScript env now (incident_key name) active_key recovery_outbox_key (Itoa co) (Itoa mx) name)
    (\<lambda>r d'. r = Inr (RInt 1) \<and> closed env name mx h z xs d d')"
proof -
  let ?k = "incident_key name" and ?o = recovery_outbox_key
  have hash: "hash_at d ?k = Inr (h, t)" using d by (simp add: hash_at_def)
  let ?push = "\<lambda>tab. script_bind (redis_call env now (RPUSH ?o (cjson env tab))) (\<lambda>_.
       script_bind (tonumber_arg (Itoa mx)) (\<lambda>m.
       script_bind (redis_call env now (LTRIM ?o (- m) (- 1))) (\<lambda>_.
       script_bind (redis_call env now (DEL ?k)) (\<lambda>_.
       script_bind (redis_call env now (ZREM active_key name)) (\<lambda>_.
       script_return (RInt 1))))))"
  let ?Q = "\<lambda>r d'. r = Inr (RInt 1) \<and> closed env name mx h z xs d d'"
  have push: "triple now d (?push tab) ?Q" if "incident_fields h tab" for tab
    apply (rule bind_RPUSH [OF q])
    apply (simp only: tonumber_arg_Itoa script_bind_return)
    apply (rule bind_LTRIM, rule list_at_put)
    apply (rule bind_DEL)
    apply (rule bind_ZREM [where z = z and t = u], simp add: z k keys_distinct [symmetric])
    apply (rule triple_return)
    using k mx keys_distinct that
    by (auto simp: closed_def list_range_last)
  have "triple now d (case incident_of (RMulti (flat_pairs ps)) of
      None \<Rightarrow> script_fail (ErrText ''ERR user_script: bad argument to insert'') | Some tab \<Rightarrow> ?push tab) ?Q"
    if "wf_map ps" "map_of ps = h" for ps
    using incident_of_fields [OF that sh] push by auto
  then show ?thesis
    unfolding closeIncidentScript_def
    apply (intro bind_HGET [OF hash])
    apply (simp only: ls(1) option.case lua_number_Itoa tonumber_arg_Itoa script_bind_return not_less [THEN iffD2, OF ls(2)] if_False)
    by (rule bind_HGETALL [OF hash])
qed

end

text \<open>
  Closing a quiet incident moves it to the recovery outbox in one step: the incident and its entry
  in the active set are gone, and the outbox ends with one item made of the incident's fields and the
  sets of its hosts and processes, after the newest older items that fit the bound.
\<close>

theorem CloseIncidentToOutbox_due:
  assumes "redis env db" and "sees now (db st) (incident_key name) = Some (RHash h, t)" and "script_hash h"
    and "h ''last_seen_ms'' = Some (Itoa ls)" and "ls \<le> UnixMilli cutoff"
    and "incident_key name \<noteq> active_key" and "incident_key name \<noteq> recovery_outbox_key"
    and "zset_at (sees now (db st)) active_key = Inr (z, u)"
    and "list_at (sees now (db st)) recovery_outbox_key = Inr (xs, w)"
    and "CloseIncidentToOutbox env delivered now name cutoff mx st = (r, st')"
  shows "r = Inr True \<and> closed env name (if mx < 1 then 1000 else mx) h z xs (sees now (db st)) (sees now (db st'))"
proof -
  have "0 < (if mx < 1 then 1000 else mx)" by simp
  from redis.tripleD [OF assms(1) redis.close_script_due [OF assms(1,2,4,5,3) this assms(6-9)] refl] assms(10)
  show ?thesis by (auto simp: CloseIncidentToOutbox_def reply_int_def split: prod.splits sum.splits)
qed

text \<open>A server with one incident, last seen at millisecond 5.\<close>

definition sample_hash :: "(string, string) gomap" where
  "sample_hash = [(''count'', ''1''), (''last_seen_ms'', ''5''), (''host:h'', ''1'')]"

definition sample_server :: mem where
  "sample_server = \<lparr>mdb = [incident_key ''disk'' \<mapsto> (MHash sample_hash, Some 100), active_key \<mapsto> (MZset [(''disk'', 5)], None)],
     mver = (\<lambda>_. 0)\<rparr>"

lemma sample_server_view:
  "sees 50 (mem_view sample_server) = [incident_key ''disk'' \<mapsto> (RHash (map_of sample_hash), Some 100),
     active_key \<mapsto> (RZset [''disk'' \<mapsto> 5], None)]"
  by (auto simp: sample_server_def mem_view_def mview_def sees_def mval_view_def fun_eq_iff)

lemma Itoa_5: "''5'' = Itoa 5"
  by code_simp

theorem CloseIncidentToOutbox_due_witness:
  "\<exists>r st'. CloseIncidentToOutbox mem_env delivered 50 ''disk'' (time_of_UnixMilli 7) 10 sample_server = (r, st')
    \<and> r = Inr True \<and> sees 50 (mem_view st') (incident_key ''disk'') = None
    \<and> (\<exists>tab. queue_at (sees 50 (mem_view st')) recovery_outbox_key [cjson mem_env tab])"
proof -
  obtain r st' where c: "CloseIncidentToOutbox mem_env delivered 50 ''disk'' (time_of_UnixMilli 7) 10 sample_server = (r, st')"
    by fastforce
  let ?d = "sees 50 (mem_view sample_server)"
  have k: "incident_key ''disk'' \<noteq> active_key" "incident_key ''disk'' \<noteq> recovery_outbox_key"
    by (simp_all add: incident_key_def active_key_def recovery_outbox_key_def)
  have "?d (incident_key ''disk'') = Some (RHash (map_of sample_hash), Some 100)"
    using k by (simp add: sample_server_view)
  moreover have "map_of sample_hash ''last_seen_ms'' = Some (Itoa 5)" by (simp add: sample_hash_def Itoa_5)
  moreover have "script_hash (map_of sample_hash)" by (simp add: sample_hash_def script_hash_def)
  moreover have "zset_at ?d active_key = Inr ([''disk'' \<mapsto> 5], None)" by (simp add: sample_server_view zset_at_def)
  moreover have "list_at ?d recovery_outbox_key = Inr ([], None)"
    using k keys_distinct by (simp add: sample_server_view list_at_def)
  moreover have "5 \<le> UnixMilli (time_of_UnixMilli 7)" by (simp add: UnixMilli_of_UnixMilli int64_defs)
  ultimately have "r = Inr True \<and> closed mem_env ''disk'' 10 (map_of sample_hash) [''disk'' \<mapsto> 5] [] ?d (sees 50 (mem_view st'))"
    using CloseIncidentToOutbox_due [OF mem.redis_axioms _ _ _ _ k _ _ c] by simp
  with c show ?thesis by (auto simp: closed_def)
qed

text \<open>
  Nothing happens to an incident that had an event after the cutoff. Nothing happens either when
  the incident's hash is gone (it expired): in particular the name then stays in the active set, with
  no item in the outbox.
\<close>

theorem CloseIncidentToOutbox_kept:
  assumes "redis env db"
    and "sees now (db st) (incident_key name) = None
      \<or> sees now (db st) (incident_key name) = Some (RHash h, t) \<and> h ''last_seen_ms'' = Some (Itoa ls) \<and> UnixMilli cutoff < ls"
    and "CloseIncidentToOutbox env delivered now name cutoff mx st = (r, st')"
  shows "r = Inr False \<and> sees now (db st') = sees now (db st)"
proof -
  let ?d = "sees now (db st)" and ?o = recovery_outbox_key
  let ?mx = "if mx < 1 then 1000 else mx"
  let ?m = "closeIncidentScript env now (incident_key name) active_key ?o (Itoa (UnixMilli cutoff)) (Itoa ?mx) name"
  have "redis.triple db now ?d ?m (\<lambda>r d'. r = Inr (RInt 0) \<and> d' = ?d)"
    using assms(2)
  proof
    assume n: "?d (incident_key name) = None"
    then have "hash_at ?d (incident_key name) = Inr (Map.empty, None)" by (simp add: hash_at_def)
    then show ?thesis
      unfolding closeIncidentScript_def
      by (rule redis.bind_HGET [OF assms(1)])
        (simp add: lua_number_def redis.triple_return [OF assms(1)])
  next
    assume n: "?d (incident_key name) = Some (RHash h, t) \<and> h ''last_seen_ms'' = Some (Itoa ls) \<and> UnixMilli cutoff < ls"
    then have "hash_at ?d (incident_key name) = Inr (h, t)" by (simp add: hash_at_def)
    then show ?thesis
      unfolding closeIncidentScript_def
      by (rule redis.bind_HGET [OF assms(1)])
        (use n in \<open>simp add: redis.triple_return [OF assms(1)]\<close>)
  qed
  from redis.tripleD [OF assms(1) this refl] assms(3)
  show ?thesis by (auto simp: CloseIncidentToOutbox_def reply_int_def split: prod.splits sum.splits)
qed

theorem CloseIncidentToOutbox_kept_witness:
  "\<exists>r st'. CloseIncidentToOutbox mem_env delivered 200 ''disk'' (time_of_UnixMilli 7) 10 sample_server = (r, st')
    \<and> r = Inr False \<and> zset_at (sees 200 (mem_view st')) active_key = Inr ([''disk'' \<mapsto> 5], None)"
proof -
  obtain r st' where c: "CloseIncidentToOutbox mem_env delivered 200 ''disk'' (time_of_UnixMilli 7) 10 sample_server = (r, st')"
    by fastforce
  have "sees 200 (mem_view sample_server) (incident_key ''disk'') = None"
    by (simp add: sample_server_def mem_view_def mview_def sees_def incident_key_def active_key_def)
  moreover have "zset_at (sees 200 (mem_view sample_server)) active_key = Inr ([''disk'' \<mapsto> 5], None)"
    by (auto simp: sample_server_def mem_view_def mview_def sees_def zset_at_def mval_view_def)
  ultimately show ?thesis
    using CloseIncidentToOutbox_kept [OF mem.redis_axioms _ c, of Map.empty None 0] c by auto
qed


end
