(* ===== verification/Go_Http.thy ===== *)
theory Go_Http
  imports Complex_Main Json_Decode
begin

text \<open>
  The parts of \<open>net/http\<close> and \<open>fmt\<close> the program uses: the response writer of a handler, the fields
  of a request that the handlers read and the verbs that print numbers and quoted constants.
  Floating point values are the rational numbers they stand for (the code handles finite ones only):
  the rounding of an operation to the nearest \<open>float64\<close> is the parameter \<open>fround\<close>, and the shortest
  decimal form that \<open>%g\<close> prints is the parameter \<open>fmt_g\<close>.
\<close>

section \<open>Responses\<close>

text \<open>\<open>rstatus\<close> is None until the header has been sent.\<close>

record response =
  rstatus :: "int option"
  rheader :: "(string, string) gomap"
  rbody :: string

definition new_response :: response where
  "new_response = \<lparr>rstatus = None, rheader = [], rbody = []\<rparr>"

text \<open>A header set after the status was sent does not reach the client, and a second status is ignored.\<close>

definition set_header :: "string \<Rightarrow> string \<Rightarrow> response \<Rightarrow> response" where
  "set_header k v w = (if rstatus w = None then w\<lparr>rheader := AList.update k v (rheader w)\<rparr> else w)"

definition WriteHeader :: "int \<Rightarrow> response \<Rightarrow> response" where
  "WriteHeader code w = (if rstatus w = None then w\<lparr>rstatus := Some code\<rparr> else w)"

definition w_Write :: "string \<Rightarrow> response \<Rightarrow> response" where
  "w_Write s w = (let w = WriteHeader 200 w in w\<lparr>rbody := rbody w @ s\<rparr>)"

text \<open>\<open>http.Error\<close>, and the status a client sees when the handler never set one.\<close>

definition newline :: string where
  "newline = [byte_char 10]"

definition http_Error :: "string \<Rightarrow> int \<Rightarrow> response \<Rightarrow> response" where
  "http_Error msg code w =
     w_Write (msg @ newline)
       (WriteHeader code
         (set_header ''X-Content-Type-Options'' ''nosniff''
           (set_header ''Content-Type'' ''text/plain; charset=utf-8'' w)))"

definition final_status :: "response \<Rightarrow> int" where
  "final_status w = (case rstatus w of None \<Rightarrow> 200 | Some c \<Rightarrow> c)"

text \<open>\<open>json.NewEncoder(w).Encode(v)\<close>.\<close>

definition json_Encode :: "json \<Rightarrow> response \<Rightarrow> response" where
  "json_Encode v w = w_Write (Marshal v @ newline) w"

lemma response_simps [simp]:
  "rstatus (set_header k v w) = rstatus w"
  "rbody (set_header k v w) = rbody w"
  "rstatus (WriteHeader c w) = Some (case rstatus w of None \<Rightarrow> c | Some c' \<Rightarrow> c')"
  "rbody (WriteHeader c w) = rbody w"
  "rheader (WriteHeader c w) = rheader w"
  "rstatus (w_Write s w) = Some (case rstatus w of None \<Rightarrow> 200 | Some c' \<Rightarrow> c')"
  "rbody (w_Write s w) = rbody w @ s"
  "rheader (w_Write s w) = rheader w"
  "rstatus (json_Encode j w) = Some (case rstatus w of None \<Rightarrow> 200 | Some c' \<Rightarrow> c')"
  "rbody (json_Encode j w) = rbody w @ Marshal j @ newline"
  "rstatus (http_Error m c w) = Some (case rstatus w of None \<Rightarrow> c | Some c' \<Rightarrow> c')"
  "rbody (http_Error m c w) = rbody w @ m @ newline"
  "rstatus new_response = None" "rbody new_response = []" "rheader new_response = []"
  by (auto simp: set_header_def WriteHeader_def w_Write_def json_Encode_def http_Error_def new_response_def
      Let_def split: option.splits)

lemma final_status_simps [simp]:
  "rstatus w = Some c \<Longrightarrow> final_status w = c" "rstatus w = None \<Longrightarrow> final_status w = 200"
  by (simp_all add: final_status_def)

section \<open>Requests\<close>

text \<open>
  What the handlers read of a request: \<open>FormValue\<close> and the header values are functions of their
  name (the empty string when absent), and the body is what the reader of \<open>json.Decoder\<close> delivers.
\<close>

record request =
  rmethod :: string
  remoteAddr :: string
  formValue :: "string \<Rightarrow> string"
  headerGet :: "string \<Rightarrow> string"
  requestBody :: string

section \<open>Printing\<close>

text \<open>\<open>%q\<close> of a string without characters to escape, and \<open>%d\<close> of an unsigned counter.\<close>

definition quote_plain :: "string \<Rightarrow> string" where
  "quote_plain s = byte_char 34 # s @ [byte_char 34]"

definition fmt_uint :: "64 word \<Rightarrow> string" where
  "fmt_uint w = nat_dec (unat w)"

text \<open>\<open>%.0f\<close>: the nearest integer, a tie to the even one. (A negative value that rounds to zero
  prints as \<open>-0\<close>.)\<close>

definition round_half_even :: "rat \<Rightarrow> int" where
  "round_half_even x =
     (let f = \<lfloor>x\<rfloor>; r = x - of_int f
      in if r < 1 / 2 \<or> (r = 1 / 2 \<and> even f) then f else f + 1)"

definition fmt_f0 :: "rat \<Rightarrow> string" where
  "fmt_f0 x = (let i = round_half_even x in if x < 0 \<and> i = 0 then ''-0'' else Itoa i)"

text \<open>\<open>Duration.Seconds\<close>.\<close>

definition rem64 :: "int \<Rightarrow> int \<Rightarrow> int" where
  "rem64 a b = a - b * quot64 a b"

definition dur_Seconds :: "(rat \<Rightarrow> rat) \<Rightarrow> duration \<Rightarrow> rat" where
  "dur_Seconds fround d =
     fround (of_int (quot64 d Second) + fround (of_int (rem64 d Second) / 1000000000))"

text \<open>The conversion of a finite \<open>float64\<close> to \<open>int64\<close> truncates.\<close>

definition trunc_rat :: "rat \<Rightarrow> int" where
  "trunc_rat x = (if 0 \<le> x then \<lfloor>x\<rfloor> else \<lceil>x\<rceil>)"

end
