(* ===== verification/Telemetry.thy ===== *)
theory Telemetry
  imports Go_Http
begin

text \<open>
  telemetry.go: the counters of the process, the histogram of the decision requests and the
  handlers of \<open>/healthz\<close> and \<open>/metrics\<close>. The unsigned counters are 64-bit words that wrap around;
  the mutex and the atomics make each operation one step.
\<close>

section \<open>State\<close>

record telemetry =
  decisionOutcomeCounts :: "(string, 64 word) gomap"
  decisionDurationBuckets :: "64 word list"
  decisionDurationSum :: rat
  decisionDurationCount :: "64 word"
  startedAt :: instant
  ready :: bool
  shuttingDown :: bool
  linesRead :: "64 word"
  jobsStarted :: "64 word"
  jobsCompleted :: "64 word"
  queueDepth :: int
  queueSaturations :: "64 word"
  tailRestarts :: "64 word"
  decisionCacheHits :: "64 word"
  decisionCacheMisses :: "64 word"
  decisionFailures :: "64 word"
  notificationFailures :: "64 word"
  keyDBFailures :: "64 word"
  outboxPublishFailures :: "64 word"
  incidentOutboxDepth :: int
  lastLineUnix :: int

text \<open>The bounds as \<open>float64\<close> values: all but 0.1 are exact.\<close>

definition decisionDurationBounds :: "rat list" where
  "decisionDurationBounds =
     [3602879701896397 / 36028797018963968, 1 / 4, 1 / 2, 1, 2, 4, 8, 10, 15, 20, 30, 40, 60]"

definition decisionOutcomes :: "string list" where
  "decisionOutcomes = [''allow'', ''deny'', ''low_confidence'', ''timeout'', ''rate_limited'', ''http_error'',
     ''request_error'', ''configuration_error'']"

definition newTelemetry :: "instant \<Rightarrow> telemetry" where
  "newTelemetry now =
     \<lparr>decisionOutcomeCounts = [], decisionDurationBuckets = replicate 13 0, decisionDurationSum = 0,
      decisionDurationCount = 0, startedAt = now, ready = False, shuttingDown = False, linesRead = 0,
      jobsStarted = 0, jobsCompleted = 0, queueDepth = 0, queueSaturations = 0, tailRestarts = 0,
      decisionCacheHits = 0, decisionCacheMisses = 0, decisionFailures = 0, notificationFailures = 0,
      keyDBFailures = 0, outboxPublishFailures = 0, incidentOutboxDepth = 0, lastLineUnix = 0\<rparr>"

section \<open>The histogram\<close>

text \<open>The loop over the bounds.\<close>

fun observe_buckets :: "rat \<Rightarrow> rat list \<Rightarrow> 64 word list \<Rightarrow> 64 word list" where
  "observe_buckets seconds (b # bs) (n # ns) = (if seconds \<le> b then n + 1 else n) # observe_buckets seconds bs ns"
| "observe_buckets seconds _ ns = ns"

definition observeDecision :: "(rat \<Rightarrow> rat) \<Rightarrow> string \<Rightarrow> rat \<Rightarrow> telemetry \<Rightarrow> telemetry" where
  "observeDecision fround outcome seconds m =
     m\<lparr>decisionOutcomeCounts := AList.update outcome
         (lookup_or 0 (map_of (decisionOutcomeCounts m)) outcome + 1) (decisionOutcomeCounts m),
       decisionDurationCount := decisionDurationCount m + 1,
       decisionDurationSum := fround (decisionDurationSum m + seconds),
       decisionDurationBuckets := observe_buckets seconds decisionDurationBounds (decisionDurationBuckets m)\<rparr>"

section \<open>The handlers\<close>

definition type_line :: "string \<Rightarrow> string \<Rightarrow> string" where
  "type_line name kind = ''# TYPE '' @ name @ '' '' @ kind @ newline"

definition sample_line :: "string \<Rightarrow> string \<Rightarrow> string" where
  "sample_line name val = name @ '' '' @ val @ newline"

definition writeDecisionMetrics :: "(rat \<Rightarrow> string) \<Rightarrow> telemetry \<Rightarrow> string" where
  "writeDecisionMetrics fmt_g m =
     type_line ''clattermark_decision_requests_total'' ''counter''
     @ concat (map (\<lambda>outcome. sample_line (''clattermark_decision_requests_total{outcome='' @ quote_plain outcome @ ''}'')
         (fmt_uint (lookup_or 0 (map_of (decisionOutcomeCounts m)) outcome))) decisionOutcomes)
     @ type_line ''clattermark_decision_request_duration_seconds'' ''histogram''
     @ concat (map (\<lambda>(bound, n). sample_line
         (''clattermark_decision_request_duration_seconds_bucket{le='' @ quote_plain (fmt_g bound) @ ''}'')
         (fmt_uint n)) (zip decisionDurationBounds (decisionDurationBuckets m)))
     @ sample_line (''clattermark_decision_request_duration_seconds_bucket{le='' @ quote_plain ''+Inf'' @ ''}'')
         (fmt_uint (decisionDurationCount m))
     @ sample_line ''clattermark_decision_request_duration_seconds_sum'' (fmt_g (decisionDurationSum m))
     @ sample_line ''clattermark_decision_request_duration_seconds_count'' (fmt_uint (decisionDurationCount m))"

definition healthHandler :: "(rat \<Rightarrow> rat) \<Rightarrow> instant \<Rightarrow> telemetry \<Rightarrow> response \<Rightarrow> response" where
  "healthHandler fround now m w =
     (let w = set_header ''Content-Type'' ''application/json'' w;
          (status, code) = (if \<not> ready m \<or> shuttingDown m then (''unavailable'', 503) else (''ok'', 200))
      in json_Encode (JObj
           [(''ready'', JBool (ready m)), (''shutting_down'', JBool (shuttingDown m)), (''status'', JStr status),
            (''uptime_seconds'', JNum (Itoa (trunc_rat (dur_Seconds fround (time_Sub now (startedAt m))))))])
           (WriteHeader code w))"

definition metricsHandler ::
  "(rat \<Rightarrow> rat) \<Rightarrow> (rat \<Rightarrow> string) \<Rightarrow> instant \<Rightarrow> telemetry \<Rightarrow> response \<Rightarrow> response" where
  "metricsHandler fround fmt_g now m w =
     (let w = set_header ''Content-Type'' ''text/plain; version=0.0.4'' w;
          is_ready = (if ready m \<and> \<not> shuttingDown m then 1 else 0 :: int);
          gauge = (\<lambda>name val. type_line name ''gauge'' @ sample_line name val);
          counter = (\<lambda>name val. type_line name ''counter'' @ sample_line name (fmt_uint val))
      in w_Write (writeDecisionMetrics fmt_g m) (w_Write
          (gauge ''clattermark_ready'' (Itoa is_ready)
           @ gauge ''clattermark_uptime_seconds'' (fmt_f0 (dur_Seconds fround (time_Sub now (startedAt m))))
           @ counter ''clattermark_lines_read_total'' (linesRead m)
           @ counter ''clattermark_pipeline_jobs_started_total'' (jobsStarted m)
           @ counter ''clattermark_pipeline_jobs_completed_total'' (jobsCompleted m)
           @ gauge ''clattermark_pipeline_queue_depth'' (Itoa (queueDepth m))
           @ counter ''clattermark_pipeline_queue_saturations_total'' (queueSaturations m)
           @ counter ''clattermark_tail_restarts_total'' (tailRestarts m)
           @ counter ''clattermark_decision_cache_hits_total'' (decisionCacheHits m)
           @ counter ''clattermark_decision_cache_misses_total'' (decisionCacheMisses m)
           @ counter ''clattermark_decision_failures_total'' (decisionFailures m)
           @ counter ''clattermark_notification_failures_total'' (notificationFailures m)
           @ counter ''clattermark_keydb_failures_total'' (keyDBFailures m)
           @ counter ''clattermark_outbox_publish_failures_total'' (outboxPublishFailures m)
           @ gauge ''clattermark_incident_outbox_depth'' (Itoa (incidentOutboxDepth m))
           @ gauge ''clattermark_last_line_timestamp_seconds'' (Itoa (lastLineUnix m))) w))"

section \<open>Properties\<close>

definition observe_all :: "(rat \<Rightarrow> rat) \<Rightarrow> (string \<times> rat) list \<Rightarrow> telemetry \<Rightarrow> telemetry" where
  "observe_all fround obs m = fold (\<lambda>(outcome, seconds). observeDecision fround outcome seconds) obs m"

lemma observe_buckets_map:
  "observe_buckets s bs (map (\<lambda>b. of_nat (f b)) bs) = map (\<lambda>b. of_nat (f b + (if s \<le> b then 1 else 0))) bs"
  by (induction bs) simp_all

text \<open>The part of the state that the histogram owns, after any list of observations.\<close>

definition histogram :: "telemetry \<Rightarrow> (string \<rightharpoonup> 64 word) \<times> 64 word list \<times> 64 word" where
  "histogram m = (\<lambda>k. map_of (decisionOutcomeCounts m) k, decisionDurationBuckets m, decisionDurationCount m)"

definition histogram_of :: "(string \<times> rat) list \<Rightarrow> (string \<rightharpoonup> 64 word) \<times> 64 word list \<times> 64 word" where
  "histogram_of obs =
     (\<lambda>k. if k \<in> fst ` set obs then Some (of_nat (length (filter (\<lambda>x. fst x = k) obs))) else None,
      map (\<lambda>b. of_nat (length (filter (\<lambda>x. snd x \<le> b) obs))) decisionDurationBounds,
      of_nat (length obs))"

lemma observeDecision_step:
  assumes "histogram m = histogram_of obs"
  shows "histogram (observeDecision fround k s m) = histogram_of (obs @ [(k, s)])"
proof -
  have buckets: "decisionDurationBuckets m = map (\<lambda>b. of_nat (length (filter (\<lambda>x. snd x \<le> b) obs))) decisionDurationBounds"
    and outs: "map_of (decisionOutcomeCounts m) = (\<lambda>k. if k \<in> fst ` set obs
      then Some (of_nat (length (filter (\<lambda>x. fst x = k) obs))) else None)"
    and n: "decisionDurationCount m = of_nat (length obs)"
    using assms by (simp_all add: histogram_def histogram_of_def)
  have "lookup_or 0 (map_of (decisionOutcomeCounts m)) k = of_nat (length (filter (\<lambda>x. fst x = k) obs))"
  proof (cases "k \<in> fst ` set obs")
    case False
    then have "filter (\<lambda>x. fst x = k) obs = []" by (auto simp: filter_empty_conv)
    with False show ?thesis by (simp add: outs lookup_or_def)
  qed (simp add: outs lookup_or_def)
  then show ?thesis
    by (auto simp: histogram_def histogram_of_def observeDecision_def buckets outs n fun_eq_iff
        observe_buckets_map [of s _ "\<lambda>b. length (filter (\<lambda>x. snd x \<le> b) obs)"])
qed

lemma observe_all_histogram:
  "histogram m = histogram_of obs \<Longrightarrow> histogram (observe_all fround obs' m) = histogram_of (obs @ obs')"
proof (induction obs' arbitrary: obs m)
  case (Cons x obs')
  obtain k s where "x = (k, s)" by (cases x)
  with Cons.IH [OF observeDecision_step [OF Cons.prems, of fround k s]] show ?case
    by (simp add: observe_all_def)
qed (simp add: observe_all_def)

text \<open>
  C40. The histogram is exact (modulo 2^64): after any list of observations each outcome counts its
  observations, the bucket of each bound counts the observations of at most that many seconds, so the
  buckets are cumulative, and the total counts them all.
\<close>

theorem observeDecision_histogram:
  "histogram (observe_all fround obs (newTelemetry now)) = histogram_of obs"
  using observe_all_histogram [of "newTelemetry now" "[]" fround obs]
  by (simp add: histogram_def histogram_of_def newTelemetry_def decisionDurationBounds_def numeral_eq_Suc)

text \<open>
  \<open>/healthz\<close> answers 200 exactly when the process is ready and not shutting down and 503
  otherwise, and its body is JSON that says the same; \<open>/metrics\<close> always answers 200.
\<close>

theorem healthHandler_status:
  "final_status (healthHandler fround now m new_response) = (if ready m \<and> \<not> shuttingDown m then 200 else 503)
   \<and> final_status (metricsHandler fround fmt_g now m new_response) = 200
   \<and> (\<exists>up. rbody (healthHandler fround now m new_response)
        = Marshal (JObj [(''ready'', JBool (ready m)), (''shutting_down'', JBool (shuttingDown m)),
            (''status'', JStr (if final_status (healthHandler fround now m new_response) = 200
               then ''ok'' else ''unavailable'')), (''uptime_seconds'', JNum up)]) @ newline)"
  by (auto simp: healthHandler_def metricsHandler_def Let_def)

end
