(* ===== verification/Dynamic_Excludes.thy ===== *)
theory Dynamic_Excludes
  imports Keydb Telemetry
begin

text \<open>
  dynamic\_excludes.go: the store of the dynamic excludes in memory, its snapshot file and the two
  loops that save and refresh it. The store is modelled twice: on Go's slices, with their backing
  arrays and capacities, because \<open>Mute\<close> and \<open>Unmute\<close> change arrays in place, and on plain values.
  \<open>store_simulation\<close> shows that the two agree and that no snapshot ever changes.
\<close>

section \<open>Slices\<close>

text \<open>
  Every slice of this file starts at the first cell of its array. An address is an index into the
  list of all arrays; a slice without capacity has no array. How much \<open>append\<close> allocates is the
  runtime's choice \<open>grow\<close> (old capacity, needed length).
\<close>

record slice =
  arr :: nat
  slen :: nat
  scap :: nat

type_synonym arrays = "string list list"

definition nil_slice :: slice where
  "nil_slice = \<lparr>arr = 0, slen = 0, scap = 0\<rparr>"

definition slice_get :: "arrays \<Rightarrow> slice \<Rightarrow> string list" where
  "slice_get h s = (if scap s = 0 then [] else take (slen s) (h ! arr s))"

definition append_slice :: "(nat \<Rightarrow> nat \<Rightarrow> nat) \<Rightarrow> arrays \<Rightarrow> slice \<Rightarrow> string list \<Rightarrow> arrays \<times> slice" where
  "append_slice grow h s vs =
     (let n = slen s + length vs
      in if n \<le> scap s
         then (h[arr s := take (slen s) (h ! arr s) @ vs @ drop n (h ! arr s)], s\<lparr>slen := n\<rparr>)
         else (let c = max n (grow (scap s) n)
               in (h @ [slice_get h s @ vs @ replicate (c - n) ''''], \<lparr>arr = length h, slen = n, scap = c\<rparr>)))"

text \<open>A \<open>map[string][]string\<close> whose values are slices.\<close>

type_synonym table = "(string, slice) gomap"

definition table_view :: "arrays \<Rightarrow> table \<Rightarrow> excludes" where
  "table_view h t = map (\<lambda>(k, s). (k, slice_get h s)) t"

section \<open>The store on slices\<close>

text \<open>\<open>cloneDynamicExcludes\<close>, one entry after the other.\<close>

fun cloneDynamicExcludes :: "(nat \<Rightarrow> nat \<Rightarrow> nat) \<Rightarrow> arrays \<Rightarrow> table \<Rightarrow> arrays \<times> table" where
  "cloneDynamicExcludes grow h [] = (h, [])"
| "cloneDynamicExcludes grow h ((excludeType, values) # src) =
     (let (h1, s) = append_slice grow h nil_slice (slice_get h values);
          (h2, dst) = cloneDynamicExcludes grow h1 src
      in (h2, (excludeType, s) # dst))"

definition newDynamicExcludesStore :: "(nat \<Rightarrow> nat \<Rightarrow> nat) \<Rightarrow> arrays \<Rightarrow> table \<Rightarrow> arrays \<times> table" where
  "newDynamicExcludesStore grow h initial = cloneDynamicExcludes grow h initial"

definition store_Snapshot :: "(nat \<Rightarrow> nat \<Rightarrow> nat) \<Rightarrow> arrays \<Rightarrow> table \<Rightarrow> arrays \<times> table" where
  "store_Snapshot grow h excludes = cloneDynamicExcludes grow h excludes"

text \<open>The new excludes of the store; the old ones are dropped.\<close>

definition store_Replace :: "(nat \<Rightarrow> nat \<Rightarrow> nat) \<Rightarrow> arrays \<Rightarrow> table \<Rightarrow> table \<Rightarrow> arrays \<times> table" where
  "store_Replace grow h old excludes = cloneDynamicExcludes grow h excludes"

definition store_Mute ::
  "(nat \<Rightarrow> nat \<Rightarrow> nat) \<Rightarrow> arrays \<Rightarrow> table \<Rightarrow> string \<Rightarrow> string \<Rightarrow> (arrays \<times> table) \<times> bool" where
  "store_Mute grow h excludes excludeType val =
     (let current = lookup_or nil_slice (map_of excludes) excludeType
      in if val \<in> set (slice_get h current) then ((h, excludes), False)
         else (let (h', s) = append_slice grow h current [val]
               in ((h', AList.update excludeType s excludes), True)))"

definition store_Unmute ::
  "(nat \<Rightarrow> nat \<Rightarrow> nat) \<Rightarrow> arrays \<Rightarrow> table \<Rightarrow> string \<Rightarrow> string \<Rightarrow> (arrays \<times> table) \<times> bool" where
  "store_Unmute grow h excludes excludeType val =
     (case map_of excludes excludeType of
        None \<Rightarrow> ((h, excludes), False)
      | Some current \<Rightarrow>
          (case index_of val (slice_get h current) of
             None \<Rightarrow> ((h, excludes), False)
           | Some i \<Rightarrow>
               (let (h', s) = append_slice grow h (current\<lparr>slen := i\<rparr>) (drop (Suc i) (slice_get h current))
                in if slen s = 0 then ((h', AList.delete excludeType (AList.update excludeType s excludes)), True)
                   else ((h', AList.update excludeType s excludes), True))))"

section \<open>The store on values\<close>

definition mute :: "string \<Rightarrow> string \<Rightarrow> excludes \<Rightarrow> excludes \<times> bool" where
  "mute excludeType val m =
     (let current = lookup_or [] (map_of m) excludeType
      in if val \<in> set current then (m, False) else (AList.update excludeType (current @ [val]) m, True))"

definition unmute :: "string \<Rightarrow> string \<Rightarrow> excludes \<Rightarrow> excludes \<times> bool" where
  "unmute excludeType val m =
     (case map_of m excludeType of
        None \<Rightarrow> (m, False)
      | Some current \<Rightarrow>
          (case index_of val current of
             None \<Rightarrow> (m, False)
           | Some i \<Rightarrow>
               (let left = remove_at i current
                in if left = [] then (AList.delete excludeType (AList.update excludeType left m), True)
                   else (AList.update excludeType left m, True))))"

section \<open>The slices implement the values\<close>

definition slice_ok :: "arrays \<Rightarrow> slice \<Rightarrow> bool" where
  "slice_ok h s \<longleftrightarrow> slen s \<le> scap s \<and> (scap s \<noteq> 0 \<longrightarrow> arr s < length h \<and> length (h ! arr s) = scap s)"

text \<open>Two slices share no cell.\<close>

definition apart :: "slice \<Rightarrow> slice \<Rightarrow> bool" where
  "apart s o' \<longleftrightarrow> scap s = 0 \<or> scap o' = 0 \<or> arr s \<noteq> arr o'"

text \<open>The invariant of a table: its slices are allocated and share no cell.\<close>

definition table_ok :: "arrays \<Rightarrow> table \<Rightarrow> bool" where
  "table_ok h t \<longleftrightarrow> wf_map t \<and> (\<forall>k s. map_of t k = Some s \<longrightarrow> slice_ok h s)
     \<and> (\<forall>k k' s s'. map_of t k = Some s \<longrightarrow> map_of t k' = Some s' \<longrightarrow> k \<noteq> k' \<longrightarrow> apart s s')"

text \<open>A slice outside the table: allocated, and no slice of the table shares a cell with it.\<close>

definition outside :: "arrays \<Rightarrow> table \<Rightarrow> slice \<Rightarrow> bool" where
  "outside h t x \<longleftrightarrow> slice_ok h x \<and> (\<forall>k s. map_of t k = Some s \<longrightarrow> apart s x)"

text \<open>The arrays of two memories agree outside those that a slice uses.\<close>

definition agree_but :: "slice \<Rightarrow> arrays \<Rightarrow> arrays \<Rightarrow> bool" where
  "agree_but s h h' \<longleftrightarrow> length h \<le> length h' \<and> (\<forall>a < length h. (scap s = 0 \<or> a \<noteq> arr s) \<longrightarrow> h' ! a = h ! a)"

lemma nil_slice_simps [simp]: "slice_get h nil_slice = []" "slice_ok h nil_slice" "apart nil_slice s" "apart s nil_slice"
  "scap nil_slice = 0" "slen nil_slice = 0"
  by (simp_all add: slice_get_def slice_ok_def apart_def nil_slice_def)

lemma length_slice_get: "slice_ok h s \<Longrightarrow> length (slice_get h s) = slen s"
  by (auto simp: slice_ok_def slice_get_def)

lemma append_slice_spec:
  assumes ok: "slice_ok h s" and app: "append_slice grow h s vs = (h', s')"
  shows "slice_ok h' s'" and "slice_get h' s' = slice_get h s @ vs" and "agree_but s h h'"
    and "slen s' = slen s + length vs"
    and "scap s' \<noteq> 0 \<Longrightarrow> (scap s \<noteq> 0 \<and> arr s' = arr s) \<or> (arr s' = length h \<and> length h < length h')"
proof -
  have len: "length (slice_get h s) = slen s" using ok by (rule length_slice_get)
  show "slice_ok h' s'" and "slice_get h' s' = slice_get h s @ vs" and "agree_but s h h'"
    and "slen s' = slen s + length vs"
    and "scap s' \<noteq> 0 \<Longrightarrow> (scap s \<noteq> 0 \<and> arr s' = arr s) \<or> (arr s' = length h \<and> length h < length h')"
    using ok app len
    by (auto simp: append_slice_def Let_def slice_ok_def slice_get_def agree_but_def nth_append nth_list_update
        less_max_iff_disj split: if_splits)
qed

lemma agree_get:
  assumes "agree_but s h h'" and "slice_ok h x" and "apart s x"
  shows "slice_ok h' x" "slice_get h' x = slice_get h x"
  using assms by (auto simp: agree_but_def slice_ok_def apart_def slice_get_def)

lemma table_view_update: "table_view h (AList.update k s t) = AList.update k (slice_get h s) (table_view h t)"
  by (induction t) (auto simp: table_view_def)

lemma table_view_delete: "table_view h (AList.delete k t) = AList.delete k (table_view h t)"
  by (induction t) (auto simp: table_view_def AList.delete_eq)

lemma map_of_table_view: "map_of (table_view h t) k = map_option (slice_get h) (map_of t k)"
  by (simp add: table_view_def map_of_map_snd)

lemma table_view_cong: "(\<And>k s. (k, s) \<in> set t \<Longrightarrow> slice_get h' s = slice_get h s) \<Longrightarrow> table_view h' t = table_view h t"
  by (auto simp: table_view_def)

lemma update_view_cong:
  "wf_map t \<Longrightarrow> \<forall>(k', u) \<in> set t. k' \<noteq> k \<longrightarrow> f u = g u \<Longrightarrow>
   AList.update k v (map (\<lambda>(k, s). (k, f s)) t) = AList.update k v (map (\<lambda>(k, s). (k, g s)) t)"
proof (induction t)
  case (Cons p t)
  have "map (\<lambda>(k, s). (k, f s)) t = map (\<lambda>(k, s). (k, g s)) t" if "fst p = k"
    using Cons.prems that by (force simp: wf_map_def)
  with Cons show ?case by (cases p) (auto simp: wf_map_def)
qed simp

text \<open>One slice of a table is replaced by what \<open>append\<close> made of it.\<close>

lemma update_table:
  assumes t: "table_ok h t" and s: "s = lookup_or nil_slice (map_of t) k"
    and app: "append_slice grow h (s\<lparr>slen := i\<rparr>) vs = (h', s')" and i: "i \<le> slen s"
  shows "table_ok h' (AList.update k s' t)"
    and "table_view h' (AList.update k s' t) = AList.update k (take i (slice_get h s) @ vs) (table_view h t)"
    and "outside h t x \<Longrightarrow> outside h' (AList.update k s' t) x \<and> slice_get h' x = slice_get h x"
proof -
  let ?s = "s\<lparr>slen := i\<rparr>"
  have ok0: "slice_ok h s" using t s by (auto simp: table_ok_def lookup_or_def split: option.splits)
  then have ok: "slice_ok h ?s" and get: "slice_get h ?s = take i (slice_get h s)"
    using i by (auto simp: slice_ok_def slice_get_def min_def)
  note spec = append_slice_spec [OF ok app]
  have other: "slice_ok h' x \<and> slice_get h' x = slice_get h x \<and> apart s' x"
    if "slice_ok h x" "apart s x" for x
  proof -
    have "apart ?s x" using that by (simp add: apart_def)
    then have "slice_ok h' x" "slice_get h' x = slice_get h x" using agree_get [OF spec(3)] that by auto
    moreover have "apart s' x"
      using spec(5) that by (auto simp: apart_def slice_ok_def)
    ultimately show ?thesis by simp
  qed
  have rest: "slice_ok h u \<and> apart s u" if "map_of t k' = Some u" "k' \<noteq> k" for k' u
    using t that s by (auto simp: table_ok_def lookup_or_def split: option.splits)
  have sym: "apart a b \<longleftrightarrow> apart b a" for a b by (auto simp: apart_def)
  show "table_ok h' (AList.update k s' t)"
    unfolding table_ok_def
  proof (intro conjI allI impI)
    show "wf_map (AList.update k s' t)" using t by (auto simp: table_ok_def intro: wf_intros)
  next
    fix k1 u assume "map_of (AList.update k s' t) k1 = Some u"
    then show "slice_ok h' u" using spec(1) rest other by (auto split: if_splits)
  next
    fix k1 k2 u v
    assume "map_of (AList.update k s' t) k1 = Some u" "map_of (AList.update k s' t) k2 = Some v" "k1 \<noteq> k2"
    moreover have "apart s' w" if "map_of t k' = Some w" "k' \<noteq> k" for k' w
      using rest [OF that] other by blast
    moreover have "apart u v" if "map_of t k1 = Some u" "map_of t k2 = Some v"
      using that t \<open>k1 \<noteq> k2\<close> by (auto simp: table_ok_def)
    ultimately show "apart u v" using sym by (fastforce split: if_splits)
  qed
  have "table_view h' (AList.update k s' t) = AList.update k (slice_get h' s') (table_view h' t)"
    by (rule table_view_update)
  also have "\<dots> = AList.update k (slice_get h' s') (table_view h t)"
  proof -
    have d: "wf_map t" using t by (simp add: table_ok_def)
    have "slice_get h' u = slice_get h u" if "(k', u) \<in> set t" "k' \<noteq> k" for k' u
      using rest other that d by (simp add: wf_map_mem_iff)
    then show ?thesis unfolding table_view_def by (intro update_view_cong [OF d]) auto
  qed
  also have "\<dots> = AList.update k (take i (slice_get h s) @ vs) (table_view h t)"
    using spec(2) get by simp
  finally show "table_view h' (AList.update k s' t) = AList.update k (take i (slice_get h s) @ vs) (table_view h t)" .
  show "outside h' (AList.update k s' t) x \<and> slice_get h' x = slice_get h x" if "outside h t x"
  proof -
    have "slice_ok h x" "apart s x" using that s by (auto simp: outside_def lookup_or_def split: option.splits)
    with other have "slice_ok h' x" "slice_get h' x = slice_get h x" "apart s' x" by auto
    then show ?thesis using that by (auto simp: outside_def)
  qed
qed

text \<open>A map that a caller builds, slice by slice; \<open>cloneDynamicExcludes\<close> does the same.\<close>

fun alloc_table :: "(nat \<Rightarrow> nat \<Rightarrow> nat) \<Rightarrow> arrays \<Rightarrow> excludes \<Rightarrow> arrays \<times> table" where
  "alloc_table grow h [] = (h, [])"
| "alloc_table grow h ((k, vs) # m) =
     (let (h1, s) = append_slice grow h nil_slice vs; (h2, t) = alloc_table grow h1 m in (h2, (k, s) # t))"

lemma alloc_table_spec:
  assumes "wf_map m" and "alloc_table grow h m = (h', t)"
  shows "table_ok h' t \<and> table_view h' t = m \<and> map fst t = map fst m \<and> agree_but nil_slice h h'
    \<and> (\<forall>s \<in> snd ` set t. scap s \<noteq> 0 \<longrightarrow> length h \<le> arr s)"
  using assms
proof (induction m arbitrary: h t)
  case Nil
  then show ?case by (simp add: table_ok_def table_view_def agree_but_def)
next
  case (Cons p m)
  obtain k vs where p: "p = (k, vs)" by (cases p)
  obtain h1 s where app: "append_slice grow h nil_slice vs = (h1, s)" by fastforce
  obtain t2 where al: "alloc_table grow h1 m = (h', t2)" and t: "t = (k, s) # t2"
    using Cons.prems(2) by (auto simp: p app split: prod.splits)
  note spec = append_slice_spec [OF nil_slice_simps(2) app]
  have wf: "wf_map m" "k \<notin> set (map fst m)" using Cons.prems(1) by (auto simp: p wf_map_def)
  note IH = Cons.IH [OF wf(1) al]
  have s: "slice_ok h' s" "slice_get h' s = vs"
    using agree_get [of nil_slice h1 h' s] IH spec by auto
  have new: "scap s \<noteq> 0 \<Longrightarrow> arr s = length h \<and> length h < length h1"
    using spec(5) by simp
  have far: "apart s u \<and> apart u s" if "u \<in> snd ` set t2" for u
    using that IH new by (auto simp: apart_def)
  have fst2: "map fst t2 = map fst m" using IH by simp
  have agree: "agree_but nil_slice h h'"
    using IH spec(3) by (auto simp: agree_but_def)
  have "table_ok h' t"
    unfolding table_ok_def
  proof (intro conjI allI impI)
    show "wf_map t" using IH wf fst2 by (simp add: t wf_map_def)
  next
    fix k1 u assume "map_of t k1 = Some u"
    then show "slice_ok h' u" using s IH by (auto simp: t table_ok_def split: if_splits)
  next
    fix k1 k2 u v assume "map_of t k1 = Some u" "map_of t k2 = Some v" "k1 \<noteq> k2"
    moreover have "w \<in> snd ` set t2" if "map_of t2 k' = Some w" for k' w
      using map_of_SomeD [OF that] by force
    ultimately show "apart u v" using far IH by (auto simp: t table_ok_def split: if_splits)
  qed
  moreover have "length h \<le> arr u" if "u \<in> snd ` set t" "scap u \<noteq> 0" for u
    using that new IH spec(3) by (auto simp: t agree_but_def)
  ultimately show ?case
    using s IH agree by (simp add: t p table_view_def)
qed

lemma clone_alloc:
  "\<forall>s \<in> snd ` set src. slice_ok h s \<Longrightarrow> cloneDynamicExcludes grow h src = alloc_table grow h (table_view h src)"
proof (induction src arbitrary: h)
  case (Cons p src)
  obtain k s where p: "p = (k, s)" by (cases p)
  obtain h1 s1 where app: "append_slice grow h nil_slice (slice_get h s) = (h1, s1)" by fastforce
  note spec = append_slice_spec [OF nil_slice_simps(2) app]
  have same: "slice_ok h1 u" "slice_get h1 u = slice_get h u" if "u \<in> snd ` set src" for u
    using agree_get [OF spec(3)] that Cons.prems by auto
  then have "table_view h1 src = table_view h src"
    by (intro table_view_cong) force
  moreover have "table_view h ((k, s) # src) = (k, slice_get h s) # table_view h src"
    by (simp add: table_view_def)
  ultimately show ?case using Cons.IH [of h1] same app by (simp add: p)
qed (simp add: table_view_def)

lemma table_ok_slices: "table_ok h t \<Longrightarrow> \<forall>s \<in> snd ` set t. slice_ok h s"
  by (auto simp: table_ok_def wf_map_mem_iff [symmetric])

lemma wf_table_view: "wf_map (table_view h t) = wf_map t"
  by (simp add: wf_map_def table_view_def comp_def split_def)

text \<open>What a clone is: a new table with the same values and new arrays.\<close>

lemma clone_spec:
  assumes "table_ok h t" and "cloneDynamicExcludes grow h t = (h', t')"
  shows "table_ok h' t'" "table_view h' t' = table_view h t" "agree_but nil_slice h h'"
    "slice_ok h x \<Longrightarrow> outside h' t' x"
proof -
  have "alloc_table grow h (table_view h t) = (h', t')" and "wf_map (table_view h t)"
    using assms clone_alloc [OF table_ok_slices] by (simp_all add: wf_table_view table_ok_def)
  note spec = alloc_table_spec [OF this(2,1)]
  show "table_ok h' t'" "table_view h' t' = table_view h t" "agree_but nil_slice h h'"
    using spec by auto
  assume x: "slice_ok h x"
  have "apart s x" if "map_of t' k = Some s" for k s
    using spec map_of_SomeD [OF that] x by (force simp: apart_def slice_ok_def)
  then show "outside h' t' x"
    using agree_get [of nil_slice h h' x] spec x by (simp add: outside_def)
qed

lemma store_Mute_spec:
  assumes t: "table_ok h t" and m: "store_Mute grow h t k v = ((h', t'), b)"
  shows "table_ok h' t'" "(table_view h' t', b) = mute k v (table_view h t)"
    "outside h t x \<Longrightarrow> outside h' t' x \<and> slice_get h' x = slice_get h x"
proof -
  let ?s = "lookup_or nil_slice (map_of t) k"
  have get: "slice_get h ?s = lookup_or [] (map_of (table_view h t)) k"
    by (simp add: map_of_table_view lookup_or_def split: option.split)
  have ok: "slice_ok h ?s" using t by (auto simp: table_ok_def lookup_or_def split: option.split)
  obtain h1 s1 where app: "append_slice grow h (?s\<lparr>slen := slen ?s\<rparr>) [v] = (h1, s1)" by fastforce
  note upd = update_table [OF t refl app order.refl]
  have "take (slen ?s) (slice_get h ?s) = slice_get h ?s"
    using length_slice_get [OF ok] by simp
  then show "table_ok h' t'" "(table_view h' t', b) = mute k v (table_view h t)"
    "outside h t x \<Longrightarrow> outside h' t' x \<and> slice_get h' x = slice_get h x"
    using m upd app t get
    by (auto simp: store_Mute_def mute_def Let_def split: if_splits)
qed

lemma delete_table:
  assumes "table_ok h t"
  shows "table_ok h (AList.delete k t)" "outside h t x \<Longrightarrow> outside h (AList.delete k t) x"
  using assms by (auto simp: table_ok_def outside_def intro: wf_intros)

lemma store_Unmute_spec:
  assumes t: "table_ok h t" and m: "store_Unmute grow h t k v = ((h', t'), b)"
  shows "table_ok h' t'" "(table_view h' t', b) = unmute k v (table_view h t)"
    "outside h t x \<Longrightarrow> outside h' t' x \<and> slice_get h' x = slice_get h x"
proof -
  have "table_ok h' t' \<and> (table_view h' t', b) = unmute k v (table_view h t)
    \<and> (outside h t x \<longrightarrow> outside h' t' x \<and> slice_get h' x = slice_get h x)"
  proof (cases "map_of t k")
    case None
    then show ?thesis using m t by (simp add: store_Unmute_def unmute_def map_of_table_view)
  next
    case (Some s)
    show ?thesis
    proof (cases "index_of v (slice_get h s)")
      case None
      then show ?thesis
        using m t Some by (simp add: store_Unmute_def unmute_def map_of_table_view del: index_of_None)
    next
      case (Some i)
      have ok: "slice_ok h s" using t \<open>map_of t k = _\<close> by (simp add: table_ok_def)
      have i: "i < length (slice_get h s)" using index_of_Some [OF Some] by simp
      with ok have le: "i \<le> slen s" by (simp add: length_slice_get)
      obtain h1 s1 where app: "append_slice grow h (s\<lparr>slen := i\<rparr>) (drop (Suc i) (slice_get h s)) = (h1, s1)"
        by fastforce
      have lk: "s = lookup_or nil_slice (map_of t) k" using \<open>map_of t k = _\<close> by (simp add: lookup_or_def)
      note upd = update_table [OF t lk app le]
      have "slice_ok h (s\<lparr>slen := i\<rparr>)" using ok le by (auto simp: slice_ok_def)
      from append_slice_spec(4) [OF this app]
      have empty: "slen s1 = 0 \<longleftrightarrow> remove_at i (slice_get h s) = []"
        using i by (auto simp: remove_at_def)
      have del: "outside h1 (AList.update k s1 t) x \<Longrightarrow> outside h1 (AList.delete k (AList.update k s1 t)) x"
        "table_ok h1 (AList.delete k (AList.update k s1 t))"
        using delete_table [OF upd(1)] by auto
      have view: "table_view h1 (AList.update k s1 t) = AList.update k (remove_at i (slice_get h s)) (table_view h t)"
        using upd(2) by (simp add: remove_at_def)
      show ?thesis
        using m upd(1,3) del app Some \<open>map_of t k = _\<close> view empty
        by (auto simp: store_Unmute_def unmute_def map_of_table_view table_view_delete split: if_splits)
    qed
  qed
  then show "table_ok h' t'" "(table_view h' t', b) = unmute k v (table_view h t)"
    "outside h t x \<Longrightarrow> outside h' t' x \<and> slice_get h' x = slice_get h x" by auto
qed

section \<open>Histories\<close>

text \<open>
  The calls on a store in the order in which its lock lets them through. A snapshot stays with its
  reader, and the map given to \<open>Replace\<close> stays with its caller.
\<close>

datatype store_op = Do_Snapshot | Do_Replace excludes | Do_Mute string string | Do_Unmute string string

record memory_state =
  cells :: arrays
  held :: table
  kept :: "table list"
  answers :: "bool list"

fun store_step :: "(nat \<Rightarrow> nat \<Rightarrow> nat) \<Rightarrow> store_op \<Rightarrow> memory_state \<Rightarrow> memory_state" where
  "store_step grow Do_Snapshot s =
     (let (h, t) = store_Snapshot grow (cells s) (held s) in s\<lparr>cells := h, kept := kept s @ [t]\<rparr>)"
| "store_step grow (Do_Replace m) s =
     (let (h, u) = alloc_table grow (cells s) m; (h', t) = store_Replace grow h (held s) u
      in s\<lparr>cells := h', held := t, kept := kept s @ [u]\<rparr>)"
| "store_step grow (Do_Mute k v) s =
     (let ((h, t), b) = store_Mute grow (cells s) (held s) k v
      in s\<lparr>cells := h, held := t, answers := answers s @ [b]\<rparr>)"
| "store_step grow (Do_Unmute k v) s =
     (let ((h, t), b) = store_Unmute grow (cells s) (held s) k v
      in s\<lparr>cells := h, held := t, answers := answers s @ [b]\<rparr>)"

fun store_start :: "(nat \<Rightarrow> nat \<Rightarrow> nat) \<Rightarrow> excludes \<Rightarrow> memory_state" where
  "store_start grow m =
     (let (h, u) = alloc_table grow [] m; (h', t) = newDynamicExcludesStore grow h u
      in \<lparr>cells = h', held = t, kept = [u], answers = []\<rparr>)"

text \<open>The same history on values: a snapshot is the value the store had.\<close>

fun value_step :: "store_op \<Rightarrow> excludes \<times> excludes list \<times> bool list \<Rightarrow> excludes \<times> excludes list \<times> bool list" where
  "value_step Do_Snapshot (m, ks, bs) = (m, ks @ [m], bs)"
| "value_step (Do_Replace m') (m, ks, bs) = (m', ks @ [m'], bs)"
| "value_step (Do_Mute k v) (m, ks, bs) = (let (m', b) = mute k v m in (m', ks, bs @ [b]))"
| "value_step (Do_Unmute k v) (m, ks, bs) = (let (m', b) = unmute k v m in (m', ks, bs @ [b]))"

definition memory_view :: "memory_state \<Rightarrow> excludes \<times> excludes list \<times> bool list" where
  "memory_view s = (table_view (cells s) (held s), map (table_view (cells s)) (kept s), answers s)"

definition memory_ok :: "memory_state \<Rightarrow> bool" where
  "memory_ok s \<longleftrightarrow> table_ok (cells s) (held s)
     \<and> (\<forall>u \<in> set (kept s). \<forall>x \<in> snd ` set u. outside (cells s) (held s) x)"

fun op_ok :: "store_op \<Rightarrow> bool" where
  "op_ok (Do_Replace m) = wf_map m"
| "op_ok _ = True"

lemma kept_views:
  "\<forall>u \<in> set us. \<forall>x \<in> snd ` set u. slice_get h' x = slice_get h x \<Longrightarrow> map (table_view h') us = map (table_view h) us"
  by (auto intro!: table_view_cong) force

lemma grown_same:
  assumes "agree_but nil_slice h h'"
  shows "slice_ok h x \<Longrightarrow> slice_ok h' x" "slice_ok h x \<Longrightarrow> slice_get h' x = slice_get h x"
    "table_ok h t \<Longrightarrow> table_ok h' t" "table_ok h t \<Longrightarrow> table_view h' t = table_view h t"
    "outside h t x \<Longrightarrow> outside h' t x"
proof -
  have same: "slice_ok h x \<Longrightarrow> slice_ok h' x \<and> slice_get h' x = slice_get h x" for x
    using agree_get [OF assms] by simp
  then show "slice_ok h x \<Longrightarrow> slice_ok h' x" "slice_ok h x \<Longrightarrow> slice_get h' x = slice_get h x"
    "outside h t x \<Longrightarrow> outside h' t x" by (auto simp: outside_def)
  show "table_ok h t \<Longrightarrow> table_ok h' t" using same by (auto simp: table_ok_def)
  assume "table_ok h t"
  from table_ok_slices [OF this] same show "table_view h' t = table_view h t"
    by (intro table_view_cong) force
qed

lemma outside_sym: "outside h t' s \<Longrightarrow> map_of t' k = Some x \<Longrightarrow> apart s x"
  unfolding outside_def apart_def by metis

lemma store_step_Snapshot:
  assumes ok: "memory_ok s"
  shows "memory_ok (store_step grow Do_Snapshot s)
    \<and> memory_view (store_step grow Do_Snapshot s) = value_step Do_Snapshot (memory_view s)"
proof -
  obtain h' t' where cl: "cloneDynamicExcludes grow (cells s) (held s) = (h', t')" by fastforce
  have held: "table_ok (cells s) (held s)"
    and kept: "\<And>u x. u \<in> set (kept s) \<Longrightarrow> x \<in> snd ` set u \<Longrightarrow> outside (cells s) (held s) x"
    using ok by (auto simp: memory_ok_def)
  note spec = clone_spec [OF held cl] and grown = grown_same [OF clone_spec(3) [OF held cl]]
  have new: "outside h' (held s) x" if x: "x \<in> snd ` set t'" for x
  proof -
    have "wf_map t'" using spec(1) by (simp add: table_ok_def)
    moreover obtain k where "(k, x) \<in> set t'" using x by auto
    ultimately have "map_of t' k = Some x" by (simp add: wf_map_mem_iff)
    then have "slice_ok h' x" and "apart y x" if "map_of (held s) k' = Some y" for k' y
      using spec(1) outside_sym [OF spec(4)] held that by (auto simp: table_ok_def)
    moreover have "slice_ok h' x" using \<open>map_of t' k = Some x\<close> spec(1) by (simp add: table_ok_def)
    ultimately show ?thesis by (auto simp: outside_def)
  qed
  have "map (table_view h') (kept s) = map (table_view (cells s)) (kept s)"
    by (rule kept_views) (use kept grown(2) in \<open>auto simp: outside_def\<close>)
  then show ?thesis
    using held kept grown(3-5) spec(2) new cl
    by (auto simp: memory_ok_def memory_view_def store_Snapshot_def)
qed

lemma store_step_Replace:
  assumes ok: "memory_ok s" and wf: "wf_map m"
  shows "memory_ok (store_step grow (Do_Replace m) s)
    \<and> memory_view (store_step grow (Do_Replace m) s) = value_step (Do_Replace m) (memory_view s)"
proof -
  obtain h u where al: "alloc_table grow (cells s) m = (h, u)" by fastforce
  obtain h' t where cl: "cloneDynamicExcludes grow h u = (h', t)" by fastforce
  note spec1 = alloc_table_spec [OF wf al]
  have u: "table_ok h u" and ag: "agree_but nil_slice (cells s) h" using spec1 by auto
  note spec2 = clone_spec [OF u cl] and grown1 = grown_same [OF ag] and grown2 = grown_same [OF clone_spec(3) [OF u cl]]
  have kept: "\<And>u x. u \<in> set (kept s) \<Longrightarrow> x \<in> snd ` set u \<Longrightarrow> slice_ok (cells s) x"
    using ok by (auto simp: memory_ok_def outside_def)
  have "map (table_view h') (kept s) = map (table_view (cells s)) (kept s)"
    by (rule kept_views) (use kept grown1(1,2) grown2(2) in auto)
  moreover have "outside h' t x" if "x \<in> snd ` set w" "w \<in> set (kept s @ [u])" for w x
    using that spec2(4) kept grown1(1) table_ok_slices [OF u] by auto
  moreover have "table_view h' u = m" using grown2(4) [OF u] spec1 by simp
  ultimately show ?thesis
    using spec1 spec2(1,2) al cl by (auto simp: memory_ok_def memory_view_def store_Replace_def)
qed

lemma store_step_Mute:
  assumes ok: "memory_ok s" and op: "op = Do_Mute k v \<or> op = Do_Unmute k v"
  shows "memory_ok (store_step grow op s) \<and> memory_view (store_step grow op s) = value_step op (memory_view s)"
proof -
  let ?f = "if op = Do_Mute k v then store_Mute else store_Unmute"
  obtain h' t' b where f: "?f grow (cells s) (held s) k v = ((h', t'), b)" by (metis prod.exhaust)
  have held: "table_ok (cells s) (held s)"
    and kept: "\<And>u x. u \<in> set (kept s) \<Longrightarrow> x \<in> snd ` set u \<Longrightarrow> outside (cells s) (held s) x"
    using ok by (auto simp: memory_ok_def)
  have spec: "table_ok h' t'"
    "(table_view h' t', b) = (if op = Do_Mute k v then mute else unmute) k v (table_view (cells s) (held s))"
    "\<And>x. outside (cells s) (held s) x \<Longrightarrow> outside h' t' x \<and> slice_get h' x = slice_get (cells s) x"
    using f store_Mute_spec [OF held] store_Unmute_spec [OF held] by (auto split: if_splits)
  have "map (table_view h') (kept s) = map (table_view (cells s)) (kept s)"
    by (rule kept_views) (use kept spec(3) in auto)
  then show ?thesis
    using op f spec kept
    by (auto simp: memory_ok_def memory_view_def split: if_splits prod.splits)
qed

lemma store_step_ok:
  "memory_ok s \<Longrightarrow> op_ok op \<Longrightarrow>
   memory_ok (store_step grow op s) \<and> memory_view (store_step grow op s) = value_step op (memory_view s)"
  by (cases op) (simp_all only: store_step_Snapshot store_step_Replace op_ok.simps simp_thms,
      (rule store_step_Mute; blast)+)

lemma store_start_ok:
  assumes "wf_map m"
  shows "memory_ok (store_start grow m) \<and> memory_view (store_start grow m) = (m, [m], [])"
proof -
  obtain h u where al: "alloc_table grow [] m = (h, u)" by fastforce
  obtain h' t where cl: "cloneDynamicExcludes grow h u = (h', t)" by fastforce
  have u: "table_ok h u" "table_view h u = m" using alloc_table_spec [OF assms al] by auto
  note spec = clone_spec [OF u(1) cl] and grown = grown_same [OF clone_spec(3) [OF u(1) cl]]
  show ?thesis
    using al cl u spec grown(4) [OF u(1)] table_ok_slices [OF u(1)]
    by (auto simp: memory_ok_def memory_view_def newDynamicExcludesStore_def)
qed

lemma store_history:
  "memory_ok s \<Longrightarrow> list_all op_ok ops \<Longrightarrow>
   memory_ok (fold (store_step grow) ops s) \<and> memory_view (fold (store_step grow) ops s) = fold value_step ops (memory_view s)"
proof (induction ops arbitrary: s)
  case (Cons op ops)
  then show ?case using store_step_ok [of s op grow] by simp
qed simp

text \<open>
  C10. The store keeps what its callers see apart: for every history of calls, whatever capacities
  \<open>append\<close> chooses, the slices that share arrays and are changed in place behave like plain values.
  Every call answers as on values, and every snapshot handed out, and every map given to \<open>Replace\<close>,
  still has the value it had at that moment, whatever was muted or unmuted since.
\<close>

theorem store_simulation:
  assumes "wf_map m" and "list_all op_ok ops"
  shows "memory_view (fold (store_step grow) ops (store_start grow m)) = fold value_step ops (m, [m], [])"
  using store_history [of "store_start grow m" ops grow] store_start_ok [OF assms(1), of grow] assms(2) by simp

theorem store_simulation_witness:
  "memory_view (fold (store_step (\<lambda>_ n. 2 * n))
      [Do_Mute ''host'' ''c'', Do_Snapshot, Do_Unmute ''host'' ''a'', Do_Snapshot] (store_start (\<lambda>_ n. 2 * n) [(''host'', [''a'', ''b''])]))
   = ([(''host'', [''b'', ''c''])],
      [[(''host'', [''a'', ''b''])], [(''host'', [''a'', ''b'', ''c''])], [(''host'', [''b'', ''c''])]], [True, True])"
proof -
  have "wf_map [(''host'', [''a'', ''b''])]" by (simp add: wf_map_def)
  from store_simulation [OF this, of "[Do_Mute ''host'' ''c'', Do_Snapshot, Do_Unmute ''host'' ''a'', Do_Snapshot]" "\<lambda>_ n. 2 * n"]
  show ?thesis by (simp add: mute_def unmute_def remove_at_def lookup_or_def)
qed

text \<open>
  The store in memory and the stored map agree on what a change is: \<open>Mute\<close> and \<open>Unmute\<close> compute
  the map and the answer that the transaction of \<open>UpdateDynExclude\<close> computes.
\<close>

theorem mute_unmute_update_excludes:
  "update_excludes k v add (Some m) = Inr (Some (fst (if add then mute k v m else unmute k v m)),
     snd (if add then mute k v m else unmute k v m))"
proof -
  have mem: "v \<in> set xs \<longleftrightarrow> index_of v xs \<noteq> None" for xs by simp
  show ?thesis
    by (auto simp: update_excludes_def mute_def unmute_def Let_def lookup_or_def mem
        simp del: index_of_None split: option.splits)
qed

end
