(* ===== verification/Excludes_Snapshot.thy ===== *)
theory Excludes_Snapshot
  imports Dynamic_Excludes
begin

text \<open>
  dynamic\_excludes.go, the files and loops: reading and writing the snapshot file, the loop that
  saves the store and the loop that refreshes it from a source. The file system is a map from paths
  to contents, and each call of \<open>os\<close> has a fate that the model takes as an argument.
\<close>

section \<open>Package os and filepath\<close>

type_synonym files = "string \<rightharpoonup> string"

fun split_slash :: "string \<Rightarrow> string list" where
  "split_slash [] = [[]]"
| "split_slash (c # cs) =
     (if c = CHR ''/'' then [] # split_slash cs
      else (case split_slash cs of [] \<Rightarrow> [[c]] | p # ps \<Rightarrow> (c # p) # ps))"

text \<open>One element of a path is pushed on the (reversed) elements before it.\<close>

definition clean_push :: "bool \<Rightarrow> string \<Rightarrow> string list \<Rightarrow> string list" where
  "clean_push rooted p ps =
     (if p = '''' \<or> p = ''.'' then ps
      else if p = ''..'' then
        (case ps of
           [] \<Rightarrow> if rooted then [] else [''..'']
         | q # qs \<Rightarrow> if q = ''..'' then ''..'' # ps else qs)
      else p # ps)"

definition filepath_Clean :: "string \<Rightarrow> string" where
  "filepath_Clean path =
     (let rooted = prefix ''/'' path;
          body = str_join ''/'' (rev (fold (clean_push rooted) (split_slash path) []))
      in if rooted then ''/'' @ body else if body = '''' then ''.'' else body)"

definition filepath_Dir :: "string \<Rightarrow> string" where
  "filepath_Dir path = filepath_Clean (rev (dropWhile (\<lambda>c. c \<noteq> CHR ''/'') (rev path)))"

definition os_ReadFile :: "go_error option \<Rightarrow> string \<Rightarrow> files \<Rightarrow> string result" where
  "os_ReadFile fate path fs =
     (case fate of
        Some e \<Rightarrow> Inl e
      | None \<Rightarrow> (case fs path of None \<Rightarrow> Inl ErrNotExist | Some d \<Rightarrow> Inr d))"

text \<open>
  \<open>WriteFile\<close> truncates the file and writes it in pieces: it may fail to open the file, or stop (the
  disk is full, the machine loses power) after some bytes. \<open>Rename\<close> replaces its target at once.
\<close>

datatype write_fate = Written | Not_opened go_error | Cut_off nat go_error

definition os_WriteFile :: "write_fate \<Rightarrow> string \<Rightarrow> string \<Rightarrow> files \<Rightarrow> unit result \<times> files" where
  "os_WriteFile fate path d fs =
     (case fate of
        Written \<Rightarrow> (Inr (), fs(path \<mapsto> d))
      | Not_opened e \<Rightarrow> (Inl e, fs)
      | Cut_off n e \<Rightarrow> (Inl e, fs(path \<mapsto> take n d)))"

definition os_Rename :: "go_error option \<Rightarrow> string \<Rightarrow> string \<Rightarrow> files \<Rightarrow> unit result \<times> files" where
  "os_Rename fate old new fs =
     (case fate of
        Some e \<Rightarrow> (Inl e, fs)
      | None \<Rightarrow> (case fs old of None \<Rightarrow> (Inl ErrNotExist, fs) | Some d \<Rightarrow> (Inr (), (fs(old := None))(new \<mapsto> d))))"

section \<open>The snapshot file\<close>

definition readDynamicExcludesSnapshot :: "go_error option \<Rightarrow> string \<Rightarrow> files \<Rightarrow> excludes result" where
  "readDynamicExcludesSnapshot fate path fs =
     (case os_ReadFile fate (filepath_Clean path) fs of
        Inl e \<Rightarrow> if errors_Is e ErrNotExist then Inr [] else Inl e
      | Inr d \<Rightarrow>
          (case Option.bind (json_unmarshal d) json_string_lists of
             None \<Rightarrow> Inl json_error
           | Some None \<Rightarrow> Inr []
           | Some (Some m) \<Rightarrow> Inr m))"

text \<open>The fates of \<open>MkdirAll\<close>, \<open>WriteFile\<close> and \<open>Rename\<close>.\<close>

record snapshot_io =
  mkdir_fate :: "go_error option"
  write_fate :: write_fate
  rename_fate :: "go_error option"

text \<open>A list without elements is a nil slice in every snapshot of the store, which prints as \<open>null\<close>.\<close>

definition snapshot_json :: "excludes \<Rightarrow> json" where
  "snapshot_json m =
     JObj (map (\<lambda>k. (k, let vs = lookup_or [] (map_of m) k in if vs = [] then JNull else JArr (map JStr vs)))
       (sort_Strings (map fst m)))"

definition writeDynamicExcludesSnapshot :: "snapshot_io \<Rightarrow> string \<Rightarrow> excludes \<Rightarrow> files \<Rightarrow> unit result \<times> files" where
  "writeDynamicExcludesSnapshot io path m fs =
     (let path = filepath_Clean path
      in if filepath_Dir path \<noteq> ''.'' \<and> mkdir_fate io \<noteq> None
         then (Inl (case mkdir_fate io of Some e \<Rightarrow> e), fs)
         else (case os_WriteFile (write_fate io) (path @ ''.tmp'') (MarshalIndent (snapshot_json m)) fs of
                 (Inl e, fs') \<Rightarrow> (Inl e, fs')
               | (Inr _, fs') \<Rightarrow> os_Rename (rename_fate io) (path @ ''.tmp'') path fs'))"

definition SnapshotToFile :: "snapshot_io \<Rightarrow> string \<Rightarrow> excludes \<Rightarrow> files \<Rightarrow> unit result \<times> files" where
  "SnapshotToFile io path store fs = writeDynamicExcludesSnapshot io path store fs"

text \<open>
  The loop of the snapshotter: at each tick the store then holds \<open>m\<close>; an error is only logged.
\<close>

fun snapshot_ticks :: "string \<Rightarrow> (excludes \<times> snapshot_io) list \<Rightarrow> files \<Rightarrow> files" where
  "snapshot_ticks path [] fs = fs"
| "snapshot_ticks path ((m, io) # ticks) fs = snapshot_ticks path ticks (snd (SnapshotToFile io path m fs))"

definition startDynamicExcludesSnapshotter ::
  "string \<Rightarrow> duration \<Rightarrow> (excludes \<times> snapshot_io) list \<Rightarrow> files \<Rightarrow> files" where
  "startDynamicExcludesSnapshotter path interval ticks fs =
     (if path = '''' \<or> interval \<le> 0 then fs else snapshot_ticks path ticks fs)"

section \<open>The refresher\<close>

text \<open>
  One tick of the refresher with what the source answered: the store and the counters after it. The
  metrics may be absent.
\<close>

definition refresh_tick :: "excludes result \<Rightarrow> excludes \<times> telemetry option \<Rightarrow> excludes \<times> telemetry option" where
  "refresh_tick answer s =
     (case answer of
        Inl e \<Rightarrow> (fst s, map_option (\<lambda>m. m\<lparr>keyDBFailures := keyDBFailures m + 1\<rparr>) (snd s))
      | Inr m \<Rightarrow> (m, snd s))"

text \<open>
  The loop: \<open>get q now\<close> is one request of the source with its circumstances \<open>q\<close> at millisecond
  \<open>now\<close>, and before each tick other clients change the source's state by \<open>f\<close>.
\<close>

fun refresher_ticks ::
  "('q \<Rightarrow> int \<Rightarrow> 'r \<Rightarrow> excludes result \<times> 'r) \<Rightarrow> (('r \<Rightarrow> 'r) \<times> 'q \<times> int) list
     \<Rightarrow> 'r \<times> excludes \<times> telemetry option \<Rightarrow> 'r \<times> excludes \<times> telemetry option" where
  "refresher_ticks get [] s = s"
| "refresher_ticks get ((f, q, now) # ticks) (st, s) =
     (let (answer, st') = get q now (f st) in refresher_ticks get ticks (st', refresh_tick answer s))"

definition startDynamicExcludesRefresher ::
  "('q \<Rightarrow> int \<Rightarrow> 'r \<Rightarrow> excludes result \<times> 'r) \<Rightarrow> duration \<Rightarrow> (('r \<Rightarrow> 'r) \<times> 'q \<times> int) list
     \<Rightarrow> 'r \<times> excludes \<times> telemetry option \<Rightarrow> 'r \<times> excludes \<times> telemetry option" where
  "startDynamicExcludesRefresher get interval ticks s = (if interval \<le> 0 then s else refresher_ticks get ticks s)"

section \<open>The snapshot file: properties\<close>

lemma members_map_fields:
  assumes "distinct ks" and "set ks \<inter> set (map fst m) = {}"
    and "\<forall>k \<in> set ks. valid_utf8 k \<and> json_strings (jnorm (g k)) = Some (f k)"
  shows "members_map m (map (\<lambda>k. (to_valid k, jnorm (g k))) ks) = Some (m @ map (\<lambda>k. (k, f k)) ks)"
  using assms
proof (induction ks arbitrary: m)
  case (Cons k ks)
  have "members_map (m @ [(k, f k)]) (map (\<lambda>k. (to_valid k, jnorm (g k))) ks)
      = Some ((m @ [(k, f k)]) @ map (\<lambda>k. (k, f k)) ks)"
    by (rule Cons.IH) (use Cons.prems in auto)
  with Cons.prems show ?case by (simp add: update_fresh to_valid_id)
qed simp

lemma snapshot_json_roundtrip:
  assumes wf: "wf_map m" and valid: "valid_map m"
  shows "Option.bind (json_unmarshal (MarshalIndent (snapshot_json m))) json_string_lists = Some (Some (canon_map m))"
proof -
  let ?ks = "sort_Strings (map fst m)" and ?f = "lookup_or [] (map_of m)"
  let ?g = "\<lambda>k. if ?f k = [] then JNull else JArr (map JStr (?f k))"
  have "no_num (snapshot_json m)"
    by (auto simp: snapshot_json_def list_all_iff Let_def)
  then have "json_unmarshal (MarshalIndent (snapshot_json m)) = Some (jnorm (snapshot_json m))"
    unfolding MarshalIndent_def by (rule json_unmarshal_print)
  moreover have "jnorm (snapshot_json m) = JObj (map (\<lambda>k. (to_valid k, jnorm (?g k))) ?ks)"
    by (simp add: snapshot_json_def Let_def comp_def)
  moreover have "json_strings (jnorm (?g k)) = Some (?f k)" if "k \<in> set ?ks" for k
  proof -
    have "\<forall>v \<in> set (?f k). valid_utf8 v"
      using valid wf that by (fastforce simp: valid_map_def lookup_or_def wf_map_def)
    then have "map to_valid (?f k) = ?f k" by (simp add: to_valid_id map_idI)
    then show ?thesis using json_strings_jnorm [of "?f k"] by (simp del: jnorm.simps(2))
  qed
  moreover have "\<forall>k \<in> set ?ks. valid_utf8 k" using valid by (auto simp: valid_map_def)
  moreover have "distinct ?ks" using wf by (simp add: wf_map_def)
  ultimately show ?thesis
    using members_map_fields [of ?ks "[]" ?g ?f] by (simp add: json_string_lists_def canon_map_def)
qed

text \<open>
  The snapshot file is replaced as a whole: whatever fails, and wherever a crash interrupts the
  write, the file under its name is the old one or the complete new one, the new one exactly when the
  call reports success, and no file other than it and its temporary changes.
\<close>

theorem snapshot_all_or_nothing:
  "\<exists>r fs'. SnapshotToFile io path m fs = (r, fs')
     \<and> fs' (filepath_Clean path)
         = (if r = Inr () then Some (MarshalIndent (snapshot_json m)) else fs (filepath_Clean path))
     \<and> (r = Inr () \<longleftrightarrow> (filepath_Dir (filepath_Clean path) = ''.'' \<or> mkdir_fate io = None)
          \<and> write_fate io = Written \<and> rename_fate io = None)
     \<and> {p. fs' p \<noteq> fs p} \<subseteq> {filepath_Clean path, filepath_Clean path @ ''.tmp''}"
  by (cases "write_fate io"; cases "rename_fate io"; cases "mkdir_fate io")
    (auto simp: SnapshotToFile_def writeDynamicExcludesSnapshot_def os_WriteFile_def os_Rename_def Let_def)

definition tick_ok :: "string \<Rightarrow> snapshot_io \<Rightarrow> bool" where
  "tick_ok path io \<longleftrightarrow> (filepath_Dir (filepath_Clean path) = ''.'' \<or> mkdir_fate io = None)
     \<and> write_fate io = Written \<and> rename_fate io = None"

fun last_saved :: "string \<Rightarrow> excludes \<Rightarrow> (excludes \<times> snapshot_io) list \<Rightarrow> excludes" where
  "last_saved path m [] = m"
| "last_saved path m ((m', io) # ticks) = last_saved path (if tick_ok path io then m' else m) ticks"

lemma SnapshotToFile_file:
  "snd (SnapshotToFile io path m fs) (filepath_Clean path)
   = (if tick_ok path io then Some (MarshalIndent (snapshot_json m)) else fs (filepath_Clean path))"
  by (cases "write_fate io"; cases "rename_fate io"; cases "mkdir_fate io")
    (auto simp: SnapshotToFile_def writeDynamicExcludesSnapshot_def os_WriteFile_def os_Rename_def Let_def tick_ok_def)

lemma SnapshotToFile_saved:
  assumes "fst (SnapshotToFile io path m fs) = Inr ()"
  shows "snd (SnapshotToFile io path m fs) (filepath_Clean path) = Some (MarshalIndent (snapshot_json m))"
  using assms by (cases "write_fate io"; cases "rename_fate io"; cases "mkdir_fate io")
    (auto simp: SnapshotToFile_def writeDynamicExcludesSnapshot_def os_WriteFile_def os_Rename_def Let_def split: if_splits)

lemma snapshot_ticks_file:
  assumes "fs (filepath_Clean path) = Some (MarshalIndent (snapshot_json m))"
  shows "snapshot_ticks path ticks fs (filepath_Clean path)
    = Some (MarshalIndent (snapshot_json (last_saved path m ticks)))"
  using assms
proof (induction ticks arbitrary: fs m)
  case (Cons t ticks)
  obtain m' io where "t = (m', io)" by (cases t)
  with Cons show ?case by (simp add: SnapshotToFile_file)
qed simp

lemma last_saved_ok:
  "P m \<Longrightarrow> list_all (\<lambda>(m, io). P m) ticks \<Longrightarrow> P (last_saved path m ticks)"
  by (induction path m ticks rule: last_saved.induct) auto

lemma readDynamicExcludesSnapshot_file:
  assumes "fs (filepath_Clean path) = Some (MarshalIndent (snapshot_json m))" and "wf_map m" and "valid_map m"
  shows "readDynamicExcludesSnapshot None path fs = Inr (canon_map m)"
  using assms snapshot_json_roundtrip [of m]
  by (simp add: readDynamicExcludesSnapshot_def os_ReadFile_def)

text \<open>
  What the snapshotter saved is what a restart reads: after any number of ticks that began with
  a good file, the file reads as the excludes of the last tick whose write succeeded, up to the order
  of the map, and never as an error.
\<close>

theorem snapshot_restart:
  assumes "fst (SnapshotToFile io path m fs) = Inr ()"
    and "wf_map m" and "valid_map m" and "list_all (\<lambda>(m, io). wf_map m \<and> valid_map m) ticks"
  shows "\<exists>m'. readDynamicExcludesSnapshot None path
      (snapshot_ticks path ticks (snd (SnapshotToFile io path m fs))) = Inr m'
    \<and> same_map m' (last_saved path m ticks)"
proof -
  from SnapshotToFile_saved [OF assms(1)] have "snapshot_ticks path ticks (snd (SnapshotToFile io path m fs)) (filepath_Clean path)
      = Some (MarshalIndent (snapshot_json (last_saved path m ticks)))"
    by (rule snapshot_ticks_file)
  moreover have "wf_map (last_saved path m ticks) \<and> valid_map (last_saved path m ticks)"
    using assms by (intro last_saved_ok [where P = "\<lambda>m. wf_map m \<and> valid_map m"]) auto
  ultimately show ?thesis
    using readDynamicExcludesSnapshot_file same_canon_map by blast
qed

theorem snapshot_restart_witness:
  "\<exists>m'. readDynamicExcludesSnapshot None ''/s/x.json''
      (snapshot_ticks ''/s/x.json'' [([(''pid'', [''7''])], \<lparr>mkdir_fate = None, write_fate = Cut_off 3 ErrNotExist, rename_fate = None\<rparr>)]
        (snd (SnapshotToFile \<lparr>mkdir_fate = None, write_fate = Written, rename_fate = None\<rparr> ''/s/x.json'' [(''host'', [''a''])] Map.empty)))
      = Inr m' \<and> same_map m' [(''host'', [''a''])]"
proof -
  let ?io = "\<lparr>mkdir_fate = None, write_fate = Written, rename_fate = None\<rparr>"
  let ?ticks = "[([(''pid'', [''7''])], \<lparr>mkdir_fate = None, write_fate = Cut_off 3 ErrNotExist, rename_fate = None\<rparr>)]"
  have 1: "fst (SnapshotToFile ?io ''/s/x.json'' [(''host'', [''a''])] Map.empty) = Inr ()"
    by (simp add: SnapshotToFile_def writeDynamicExcludesSnapshot_def os_WriteFile_def os_Rename_def Let_def)
  have 2: "valid_map [(''host'', [''a''])]" "valid_map [(''pid'', [''7''])]"
    by (rule valid_ascii_map; simp add: ascii_def byte_def)+
  have 3: "last_saved ''/s/x.json'' [(''host'', [''a''])] ?ticks = [(''host'', [''a''])]"
    by (simp add: tick_ok_def)
  from snapshot_restart [OF 1 _ 2(1), of ?ticks] 2 3 show ?thesis by (simp add: wf_map_def)
qed

section \<open>The sources of the excludes\<close>

text \<open>
  The interface \<open>dynamicExcludesSource\<close>: a successful \<open>get\<close> returns what is stored (\<open>current\<close>, None
  when the stored value is not a map of lists) and leaves it there. The interface of the web handlers
  (\<open>dynamicExcludesRepository\<close>) adds \<open>update\<close>: a successful call returns an update of a stored map,
  which is what is stored afterwards.
\<close>

locale excludes_source =
  fixes get :: "'q \<Rightarrow> int \<Rightarrow> 'r \<Rightarrow> excludes result \<times> 'r" and current :: "int \<Rightarrow> 'r \<Rightarrow> excludes option"
  assumes get_reads: "get q now st = (Inr m, st') \<Longrightarrow> current now st = Some m"
    and get_keeps: "current now (snd (get q now st)) = current now st"
    and current_wf: "current now st = Some m \<Longrightarrow> wf_map m"

locale excludes_repository = excludes_source +
  fixes update :: "'u \<Rightarrow> int \<Rightarrow> string \<Rightarrow> string \<Rightarrow> bool \<Rightarrow> 'r \<Rightarrow> (excludes \<times> bool) result \<times> 'r"
  assumes update_result: "update u now t v add st = (Inr (m, b), st') \<Longrightarrow>
      \<exists>m0. wf_map m0 \<and> update_excludes t v add (Some m0) = Inr (Some m, b)"
    and update_stores: "update u now t v add st = (Inr (m, b), st') \<Longrightarrow> valid_map m \<Longrightarrow>
      \<exists>m'. current now st' = Some m' \<and> same_map m' m"

text \<open>The answers the refresher gets, one per tick.\<close>

fun tick_answers ::
  "('q \<Rightarrow> int \<Rightarrow> 'r \<Rightarrow> excludes result \<times> 'r) \<Rightarrow> (('r \<Rightarrow> 'r) \<times> 'q \<times> int) list \<Rightarrow> 'r \<Rightarrow> excludes result list" where
  "tick_answers get [] st = []"
| "tick_answers get ((f, q, now) # ticks) st = (let (a, st') = get q now (f st) in a # tick_answers get ticks st')"

lemma refresher_counts:
  assumes "refresher_ticks get ticks (st, m, metrics) = (st', m', metrics')"
  shows "metrics' = map_option (\<lambda>t. t\<lparr>keyDBFailures := keyDBFailures t
    + of_nat (length (filter isl (tick_answers get ticks st)))\<rparr>) metrics"
  using assms
proof (induction ticks arbitrary: st m metrics)
  case Nil
  then show ?case by (cases metrics) auto
next
  case (Cons t ticks)
  obtain f q now where t: "t = (f, q, now)" by (cases t)
  obtain a st1 where g: "get q now (f st) = (a, st1)" by fastforce
  obtain m1 metrics1 where s: "refresh_tick a (m, metrics) = (m1, metrics1)" by fastforce
  then have "metrics1 = map_option (\<lambda>t. t\<lparr>keyDBFailures := keyDBFailures t + (if isl a then 1 else 0)\<rparr>) metrics"
    by (cases metrics; cases a) (auto simp: refresh_tick_def)
  moreover have run: "refresher_ticks get ticks (st1, m1, metrics1) = (st', m', metrics')"
    using Cons.prems by (simp add: t g s)
  note Cons.IH [OF run]
  ultimately show ?case by (cases metrics) (auto simp: t g add_ac)
qed

context excludes_source
begin

lemma refresher_last_tick:
  assumes "refresher_ticks get (ticks @ [(f, q, now)]) (st, m, metrics) = (st', m', metrics')"
    and "isl (last (tick_answers get (ticks @ [(f, q, now)]) st)) = False"
  shows "current now st' = Some m'"
  using assms
proof (induction ticks arbitrary: st m metrics)
  case Nil
  obtain x st1 where g: "get q now (f st) = (Inr x, st1)"
    using Nil(2) by (cases "get q now (f st)"; cases "fst (get q now (f st))") auto
  then show ?case
    using Nil(1) get_reads [OF g] get_keeps [of now q "f st"] by (simp add: refresh_tick_def)
next
  case (Cons t ticks)
  obtain f1 q1 now1 where t: "t = (f1, q1, now1)" by (cases t)
  obtain a st1 where g: "get q1 now1 (f1 st) = (a, st1)" by fastforce
  obtain m1 metrics1 where s: "refresh_tick a (m, metrics) = (m1, metrics1)" by fastforce
  have "tick_answers get (ticks @ [(f, q, now)]) st1 \<noteq> []"
    by (cases ticks) (auto simp: split: prod.splits)
  then show ?case using Cons.prems Cons.IH [of st1 m1 metrics1] by (simp add: t g s)
qed

end

text \<open>The KeyDB client is such a source and such a repository.\<close>

definition current_excludes :: "keyspace \<Rightarrow> excludes option" where
  "current_excludes d = (case stored_at d of Inl e \<Rightarrow> None | Inr m \<Rightarrow> Some (map_of_nil m))"

lemma stored_excludes_wf: "stored_excludes val = Inr (Some m) \<Longrightarrow> wf_map m"
  by (auto simp: stored_excludes_def bind_eq_Some_conv split: option.splits if_splits dest: json_string_lists_wf)

lemma stored_at_wf: "stored_at d = Inr m \<Longrightarrow> wf_map (map_of_nil m)"
  by (cases m) (auto simp: stored_at_def map_of_nil_def split: sum.splits dest: stored_excludes_wf)

lemma current_excludes_wf: "current_excludes d = Some m \<Longrightarrow> wf_map m"
  by (auto simp: current_excludes_def split: sum.splits dest: stored_at_wf)

lemma GetDynExcludes_answer:
  "(case Option.bind (json_unmarshal (if val = '''' then ''{}'' else val)) json_string_lists of
       None \<Rightarrow> Inl json_error | Some None \<Rightarrow> Inr [] | Some (Some m) \<Rightarrow> Inr m)
   = (case stored_excludes (Some val) of Inl e \<Rightarrow> Inl e | Inr m \<Rightarrow> Inr (map_of_nil m))"
proof -
  have "json_unmarshal ''{}'' = Some (JObj [])"
    using json_unmarshal_print [of "JObj []" False 0] by simp
  then show ?thesis
    by (auto simp: stored_excludes_def map_of_nil_def json_string_lists_def split: option.splits)
qed

context redis
begin

lemma GetDynExcludes_reads:
  assumes "GetDynExcludes env net now st = (r, st')"
  shows "r = Inr m \<Longrightarrow> current_excludes (ks now st) = Some m" "ks now st' = ks now st"
proof -
  obtain a st1 where c: "client env net now (GET excludes_key) reply_string st = (a, st1)" by fastforce
  note g = client_GET [OF c]
  have st: "st' = st1" using assms c by (auto simp: GetDynExcludes_def split: sum.splits)
  then show "ks now st' = ks now st" using g(1) by simp
  assume r: "r = Inr m"
  show "current_excludes (ks now st) = Some m"
  proof (cases a)
    case (Inl e)
    then have "e = ErrRedisNil" "m = []" using assms c r by (auto simp: GetDynExcludes_def split: if_splits)
    then show ?thesis using g(4) Inl
      by (simp add: current_excludes_def stored_at_def stored_excludes_def map_of_nil_def)
  next
    case (Inr val)
    have "Inr m = (case stored_excludes (Some val) of Inl e \<Rightarrow> Inl e | Inr m \<Rightarrow> Inr (map_of_nil m))"
      using assms c r Inr GetDynExcludes_answer [of val] by (simp add: GetDynExcludes_def)
    then show ?thesis using g(3) [OF Inr]
      by (auto simp: current_excludes_def stored_at_def split: sum.splits)
  qed
qed

end

lemma update_nil:
  "update_excludes t v add None = Inr (upd, b) \<Longrightarrow> upd = None \<and> \<not> b \<and> update_excludes t v add (Some []) = Inr (Some [], b)"
  by (auto simp: update_excludes_def Let_def split: if_splits bool.splits)

lemma mute_unmute_wf: "wf_map m0 \<Longrightarrow> update_excludes t v add (Some m0) = Inr (Some m, b) \<Longrightarrow> wf_map m"
  by (auto simp: update_excludes_def Let_def split: if_splits bool.splits option.splits intro: wf_intros)

lemma UpdateDynExclude_law:
  assumes "redis env db" and u: "UpdateDynExclude env now as t v add st = (Inr (m, b), st')"
  shows "\<exists>m0. wf_map m0 \<and> update_excludes t v add (Some m0) = Inr (Some m, b)"
    and "valid_map m \<Longrightarrow> \<exists>m'. current_excludes (sees now (db st')) = Some m' \<and> same_map m' m"
proof -
  obtain cs cur upd where at: "stored_at (fold (cmd_effect now) cs (sees now (db st))) = Inr cur"
    and up: "update_excludes t v add cur = Inr (upd, b)" "m = map_of_nil upd"
    and db: "sees now (db st') = (if b then put_excludes m (fold (cmd_effect now) cs (sees now (db st)))
                          else fold (cmd_effect now) cs (sees now (db st)))"
    using UpdateDynExclude_linear [OF assms] by blast
  have wf0: "wf_map (map_of_nil cur)" using stored_at_wf [OF at] .
  have law: "update_excludes t v add (Some (map_of_nil cur)) = Inr (Some m, b)"
  proof (cases cur)
    case None
    then show ?thesis using update_nil [of t v add upd b] up by (simp add: map_of_nil_def)
  next
    case (Some m0)
    then have "\<exists>x. upd = Some x"
      using up by (auto simp: update_excludes_def Let_def split: if_splits bool.splits option.splits)
    then show ?thesis using up Some by (auto simp: map_of_nil_def)
  qed
  with wf0 show "\<exists>m0. wf_map m0 \<and> update_excludes t v add (Some m0) = Inr (Some m, b)" by blast
  have wf: "wf_map m"
    using law wf0 mute_unmute_wf by blast
  assume valid: "valid_map m"
  show "\<exists>m'. current_excludes (sees now (db st')) = Some m' \<and> same_map m' m"
  proof (cases b)
    case True
    have "stored_at (sees now (db st')) = Inr (Some (canon_map m))"
      using db True stored_excludes_Marshal [OF wf valid] by (simp add: stored_at_def put_excludes_def str_at_def)
    then show ?thesis using same_canon_map by (auto simp: current_excludes_def map_of_nil_def)
  next
    case False
    have "m = map_of_nil cur"
      using law False by (auto simp: update_excludes_def Let_def split: if_splits bool.splits option.splits)
    then show ?thesis using db False at by (auto simp: current_excludes_def same_map_def)
  qed
qed

sublocale redis \<subseteq> keydb_repository: excludes_repository
  "\<lambda>net now. GetDynExcludes env net now" "\<lambda>now st. current_excludes (sees now (db st))"
  "\<lambda>as now. UpdateDynExclude env now as"
proof
  show "current_excludes (ks now st) = Some m" if "GetDynExcludes env q now st = (Inr m, st')" for q now st m st'
    using GetDynExcludes_reads [OF that] by simp
  show "current_excludes (ks now (snd (GetDynExcludes env q now st))) = current_excludes (ks now st)" for now q st
    using GetDynExcludes_reads(2) [of q now st] by (metis prod.collapse)
  show "wf_map m" if "current_excludes (ks now st) = Some m" for now st m
    using that by (rule current_excludes_wf)
  show "\<exists>m0. wf_map m0 \<and> update_excludes t v add (Some m0) = Inr (Some m, b)"
    if "UpdateDynExclude env now u t v add st = (Inr (m, b), st')" for u now t v add st m b st'
    using UpdateDynExclude_law(1) [OF redis_axioms that] .
  show "\<exists>m'. current_excludes (ks now st') = Some m' \<and> same_map m' m"
    if "UpdateDynExclude env now u t v add st = (Inr (m, b), st')" "valid_map m" for u now t v add st m b st'
    using UpdateDynExclude_law(2) [OF redis_axioms that] .
qed

context redis
begin

lemma refresher_follows:
  assumes "refresher_ticks (GetDynExcludes env) (ticks @ [(f, net, now)]) (st, m, metrics) = (st', m', metrics')"
    and "\<not> isl (last (tick_answers (GetDynExcludes env) (ticks @ [(f, net, now)]) st))"
  shows "current_excludes (ks now st') = Some m'"
  using keydb_repository.refresher_last_tick [of ticks f net now st m metrics st' m' metrics'] assms by simp

end

text \<open>
  The refresher makes the store follow KeyDB: after any ticks, with other clients changing the
  server in between, a tick that gets an answer leaves in the store the excludes that the server holds
  then, and the failure counter grew by the number of ticks without an answer (modulo 2^64).
\<close>

theorem refresher_follows_server:
  assumes "redis env db" and "0 < interval"
    and run: "startDynamicExcludesRefresher (GetDynExcludes env) interval (ticks @ [(f, net, now)]) (st, m, metrics)
      = (st', m', metrics')"
    and answered: "\<not> isl (last (tick_answers (GetDynExcludes env) (ticks @ [(f, net, now)]) st))"
  shows "current_excludes (sees now (db st')) = Some m'
    \<and> metrics' = map_option (\<lambda>t. t\<lparr>keyDBFailures := keyDBFailures t
        + of_nat (length (filter isl (tick_answers (GetDynExcludes env) (ticks @ [(f, net, now)]) st)))\<rparr>) metrics"
proof -
  have run': "refresher_ticks (GetDynExcludes env) (ticks @ [(f, net, now)]) (st, m, metrics) = (st', m', metrics')"
    using run assms(2) by (simp add: startDynamicExcludesRefresher_def)
  then show ?thesis
    using redis.refresher_follows [OF assms(1) run' answered] refresher_counts [OF run'] by simp
qed

text \<open>Two ticks: the first request is lost, then another client stores \<open>{}\<close> and the second is answered.\<close>

lemma two_ticks:
  "refresher_ticks (GetDynExcludes mem_env) [(id, Net 0 True, 0), (\<lambda>st. snd (mem_exec 1 (SET excludes_key [] None) st), delivered, 2)]
      (mem_empty, [(''host'', [''a''])], Some (newTelemetry 0))
    = (snd (mem_exec 2 (GET excludes_key) (snd (mem_exec 1 (SET excludes_key [] None) mem_empty))), [],
       Some ((newTelemetry 0)\<lparr>keyDBFailures := 1\<rparr>))"
  "tick_answers (GetDynExcludes mem_env) [(id, Net 0 True, 0), (\<lambda>st. snd (mem_exec 1 (SET excludes_key [] None) st), delivered, 2)] mem_empty
    = [Inl net_error, Inr []]"
proof -
  have j: "json_unmarshal ''{}'' = Some (JObj [])"
    using json_unmarshal_print [of "JObj []" False 0] by simp
  show "refresher_ticks (GetDynExcludes mem_env) [(id, Net 0 True, 0), (\<lambda>st. snd (mem_exec 1 (SET excludes_key [] None) st), delivered, 2)]
      (mem_empty, [(''host'', [''a''])], Some (newTelemetry 0))
    = (snd (mem_exec 2 (GET excludes_key) (snd (mem_exec 1 (SET excludes_key [] None) mem_empty))), [],
       Some ((newTelemetry 0)\<lparr>keyDBFailures := 1\<rparr>))"
    by (simp add: GetDynExcludes_def mem_eval j json_string_lists_def refresh_tick_def newTelemetry_def net_error_def)
  show "tick_answers (GetDynExcludes mem_env) [(id, Net 0 True, 0), (\<lambda>st. snd (mem_exec 1 (SET excludes_key [] None) st), delivered, 2)] mem_empty
    = [Inl net_error, Inr []]"
    by (simp add: GetDynExcludes_def mem_eval j json_string_lists_def net_error_def)
qed

theorem refresher_follows_server_witness:
  "\<exists>st'. startDynamicExcludesRefresher (GetDynExcludes mem_env) (5 * Second)
      ([(id, Net 0 True, 0)] @ [(\<lambda>st. snd (mem_exec 1 (SET excludes_key [] None) st), delivered, 2)])
      (mem_empty, [(''host'', [''a''])], Some (newTelemetry 0)) = (st', [], Some ((newTelemetry 0)\<lparr>keyDBFailures := 1\<rparr>))
    \<and> current_excludes (sees 2 (mem_view st')) = Some []"
proof -
  let ?t = "[(id, Net 0 True, 0)] @ [(\<lambda>st. snd (mem_exec 1 (SET excludes_key [] None) st), delivered, 2)]"
  let ?s = "(mem_empty, [(''host'', [''a''])], Some (newTelemetry 0))"
  obtain st' where run: "startDynamicExcludesRefresher (GetDynExcludes mem_env) (5 * Second) ?t ?s
      = (st', [], Some ((newTelemetry 0)\<lparr>keyDBFailures := 1\<rparr>))"
    using two_ticks(1) by (simp add: startDynamicExcludesRefresher_def Second_def)
  have pos: "0 < 5 * Second" by (simp add: Second_def)
  have "tick_answers (GetDynExcludes mem_env) ?t mem_empty = [Inl net_error, Inr []]"
    using two_ticks(2) by (simp only: append_Cons append_Nil)
  then have "\<not> isl (last (tick_answers (GetDynExcludes mem_env) ?t mem_empty))" by (simp only:) simp
  from refresher_follows_server [OF mem.redis_axioms pos run this] run show ?thesis by (metis (no_types))
qed

end
