(* ===== verification/Sha256.thy ===== *)
theory Sha256
  imports Go_Strings
begin

unbundle bit_operations_syntax

text \<open>
  Package \<open>crypto/sha256\<close> (FIPS 180-4) on 32-bit words: \<open>Sum256\<close> and its hexadecimal form, which
  the alert fingerprints use. The words wrap around as the standard asks.
\<close>

definition initial_hash :: "32 word list" where
  "initial_hash = [0x6a09e667, 0xbb67ae85, 0x3c6ef372, 0xa54ff53a, 0x510e527f, 0x9b05688c, 0x1f83d9ab, 0x5be0cd19]"

definition round_constants :: "32 word list" where
  "round_constants = concat
    [[0x428a2f98, 0x71374491, 0xb5c0fbcf, 0xe9b5dba5], [0x3956c25b, 0x59f111f1, 0x923f82a4, 0xab1c5ed5],
     [0xd807aa98, 0x12835b01, 0x243185be, 0x550c7dc3], [0x72be5d74, 0x80deb1fe, 0x9bdc06a7, 0xc19bf174],
     [0xe49b69c1, 0xefbe4786, 0x0fc19dc6, 0x240ca1cc], [0x2de92c6f, 0x4a7484aa, 0x5cb0a9dc, 0x76f988da],
     [0x983e5152, 0xa831c66d, 0xb00327c8, 0xbf597fc7], [0xc6e00bf3, 0xd5a79147, 0x06ca6351, 0x14292967],
     [0x27b70a85, 0x2e1b2138, 0x4d2c6dfc, 0x53380d13], [0x650a7354, 0x766a0abb, 0x81c2c92e, 0x92722c85],
     [0xa2bfe8a1, 0xa81a664b, 0xc24b8b70, 0xc76c51a3], [0xd192e819, 0xd6990624, 0xf40e3585, 0x106aa070],
     [0x19a4c116, 0x1e376c08, 0x2748774c, 0x34b0bcb5], [0x391c0cb3, 0x4ed8aa4a, 0x5b9cca4f, 0x682e6ff3],
     [0x748f82ee, 0x78a5636f, 0x84c87814, 0x8cc70208], [0x90befffa, 0xa4506ceb, 0xbef9a3f7, 0xc67178f2]]"

definition rotr :: "nat \<Rightarrow> 32 word \<Rightarrow> 32 word" where
  "rotr n x = drop_bit n x OR push_bit (32 - n) x"

definition big_sigma0 :: "32 word \<Rightarrow> 32 word" where
  "big_sigma0 x = rotr 2 x XOR rotr 13 x XOR rotr 22 x"

definition big_sigma1 :: "32 word \<Rightarrow> 32 word" where
  "big_sigma1 x = rotr 6 x XOR rotr 11 x XOR rotr 25 x"

definition small_sigma0 :: "32 word \<Rightarrow> 32 word" where
  "small_sigma0 x = rotr 7 x XOR rotr 18 x XOR drop_bit 3 x"

definition small_sigma1 :: "32 word \<Rightarrow> 32 word" where
  "small_sigma1 x = rotr 17 x XOR rotr 19 x XOR drop_bit 10 x"

text \<open>The message schedule, the latest word first.\<close>

fun schedule :: "nat \<Rightarrow> 32 word list \<Rightarrow> 32 word list" where
  "schedule 0 ws = ws"
| "schedule (Suc n) ws =
     schedule n ((small_sigma1 (ws ! 1) + ws ! 6 + small_sigma0 (ws ! 14) + ws ! 15) # ws)"

fun sha_round :: "32 word \<times> 32 word \<Rightarrow> 32 word list \<Rightarrow> 32 word list" where
  "sha_round (k, w) [a, b, c, d, e, f, g, h] =
     (let t1 = h + big_sigma1 e + ((e AND f) XOR (NOT e AND g)) + k + w;
          t2 = big_sigma0 a + ((a AND b) XOR (a AND c) XOR (b AND c))
      in [t1 + t2, a, b, c, d + t1, e, f, g])"
| "sha_round _ hs = hs"

definition compress :: "32 word list \<Rightarrow> 32 word list \<Rightarrow> 32 word list" where
  "compress block hs =
     map2 (+) hs (fold sha_round (zip round_constants (rev (schedule 48 (rev block)))) hs)"

text \<open>Big-endian words, and the padding of a message.\<close>

fun be_words :: "nat list \<Rightarrow> 32 word list" where
  "be_words (a # b # c # d # bs) = of_nat (a * 16777216 + b * 65536 + c * 256 + d) # be_words bs"
| "be_words _ = []"

definition be_bytes :: "nat \<Rightarrow> nat \<Rightarrow> nat list" where
  "be_bytes k n = map (\<lambda>i. n div 256 ^ (k - Suc i) mod 256) [0..<k]"

definition sha_pad :: "nat list \<Rightarrow> nat list" where
  "sha_pad bs =
     bs @ [128] @ replicate ((119 - length bs mod 64) mod 64) 0 @ be_bytes 8 (8 * length bs mod 2 ^ 64)"

fun blocks :: "nat \<Rightarrow> 'a list \<Rightarrow> 'a list list" where
  "blocks 0 xs = []"
| "blocks (Suc n) xs = take 16 xs # blocks n (drop 16 xs)"

definition Sum256 :: "string \<Rightarrow> 32 word list" where
  "Sum256 s =
     (let ws = be_words (sha_pad (map byte s))
      in fold compress (blocks (length ws div 16) ws) initial_hash)"

text \<open>\<open>fmt.Sprintf("\%x", sum)\<close>\<close>

definition hex_char :: "nat \<Rightarrow> char" where
  "hex_char d = byte_char (if d < 10 then 48 + d else 87 + d)"

definition hex_byte :: "nat \<Rightarrow> string" where
  "hex_byte b = [hex_char (b div 16), hex_char (b mod 16)]"

definition hex_sum :: "32 word list \<Rightarrow> string" where
  "hex_sum hs = concat (map hex_byte (concat (map (\<lambda>h. be_bytes 4 (unat h)) hs)))"

section \<open>The length of a digest\<close>

lemma length_sha_round: "length (sha_round kw hs) = length hs"
  by (induction kw hs rule: sha_round.induct) (simp_all add: Let_def)

lemma length_rounds: "length (fold sha_round kws hs) = length hs"
  by (induction kws arbitrary: hs) (simp_all add: length_sha_round)

lemma length_compress: "length (compress b hs) = length hs"
  by (simp add: compress_def length_rounds)

lemma length_Sum256: "length (Sum256 s) = 8"
proof -
  have "length (fold compress bs hs) = length hs" for bs hs
    by (induction bs arbitrary: hs) (simp_all add: length_compress)
  then show ?thesis by (simp add: Sum256_def Let_def initial_hash_def)
qed

lemma length_hex_sum: "length (hex_sum hs) = 8 * length hs"
proof -
  have "length (concat (map hex_byte bs)) = 2 * length bs" for bs
    by (induction bs) (simp_all add: hex_byte_def)
  moreover have "length (concat (map (\<lambda>h. be_bytes 4 (unat h)) hs)) = 4 * length hs"
    by (induction hs) (simp_all add: be_bytes_def)
  ultimately show ?thesis by (simp add: hex_sum_def)
qed

lemma hex_sum_digits: "set (hex_sum hs) \<subseteq> hex_char ` {0..<16}"
proof -
  have "b div 16 < 16" if "b \<in> set (be_bytes 4 n)" for b n
    using that by (auto simp: be_bytes_def intro!: div_less_mono [THEN less_le_trans] less_mult_imp_div_less)
  then show ?thesis by (fastforce simp: hex_sum_def hex_byte_def)
qed

end
