(* ===== verification/Alert_Dedup.thy ===== *)
theory Alert_Dedup
  imports Regexp Keydb Sha256
begin

text \<open>
  alert\_dedup.go: the normalization of alert texts, the fingerprints, and the deduper that asks
  KeyDB for a reservation and falls back to its own map of expiries when KeyDB does not answer. The
  store is an interface (the locale \<open>dedup_store\<close>), which the KeyDB client implements.
\<close>

section \<open>Normalization\<close>

definition hex_class :: regex where
  "hex_class = RSet [(48, 57), (65, 70), (97, 102)]"

definition uuidPattern :: regex where
  "uuidPattern = RSeqs
     [RWordB, RExactly 8 hex_class, RChar (CHR ''-''), RExactly 4 hex_class, RChar (CHR ''-''),
      RSet [(49, 53)], RExactly 3 hex_class, RChar (CHR ''-''),
      RSet [(56, 57), (65, 66), (97, 98)], RExactly 3 hex_class, RChar (CHR ''-''), RExactly 12 hex_class, RWordB]"

definition ipv4Pattern :: regex where
  "ipv4Pattern = RSeqs
     [RWordB, RExactly 3 (RSeq (RBetween 1 3 RDigit) (RChar (CHR ''.''))), RBetween 1 3 RDigit, RWordB]"

definition bracketedIPv6Pattern :: regex where
  "bracketedIPv6Pattern = RSeqs
     [RChar (CHR ''[''), RPlus (RSet [(48, 58), (65, 70), (97, 102)]), RChar (CHR '']'')]"

definition hexPattern :: regex where
  "hexPattern = RSeqs [RWordB, RChar (CHR ''0''), RSet [(88, 88), (120, 120)], RPlus hex_class, RWordB]"

definition numberPattern :: regex where
  "numberPattern = RSeqs [RWordB, RAtLeast 4 RDigit, RWordB]"

definition spacePattern :: regex where
  "spacePattern = RPlus RSpace"

definition logTimestampPattern :: regex where
  "logTimestampPattern = RSeqs
     [RGroup ''1'' (RSeqs
        [RChar (byte_char 34), RAlt (RLit ''time'') (RAlt (RLit ''timestamp'') (RLit ''ts'')), RChar (byte_char 34),
         RStar RSpace, RChar (CHR '':''), RStar RSpace, RChar (byte_char 34)]),
      RExactly 4 RDigit, RChar (CHR ''-''), RExactly 2 RDigit, RChar (CHR ''-''), RExactly 2 RDigit, RChar (CHR ''t''),
      RExactly 2 RDigit, RChar (CHR '':''), RExactly 2 RDigit, RChar (CHR '':''), RExactly 2 RDigit,
      ROpt (RSeq (RChar (CHR ''.'')) (RPlus RDigit)),
      RAlt (RChar (CHR ''z''))
        (RSeqs [RSet (cc_chars ''+-''), RExactly 2 RDigit, RChar (CHR '':''), RExactly 2 RDigit]),
      RGroup ''2'' (RChar (byte_char 34))]"

definition normalizeAlertText :: "(nat \<Rightarrow> nat) \<Rightarrow> string \<Rightarrow> string" where
  "normalizeAlertText ulower s0 =
     (let s1 = ToLower ulower s0;
          s2 = ReplaceAllString logTimestampPattern s1 [TGroup ''1'', TText ''<timestamp>'', TGroup ''2''];
          s3 = ReplaceAllString uuidPattern s2 [TText ''<uuid>''];
          s4 = ReplaceAllString bracketedIPv6Pattern s3 [TText ''<ip6>''];
          s5 = ReplaceAllString ipv4Pattern s4 [TText ''<ip>''];
          s6 = ReplaceAllString hexPattern s5 [TText ''<hex>''];
          s7 = ReplaceAllString numberPattern s6 [TText ''<n>'']
      in TrimSpace (ReplaceAllString spacePattern s7 [TText '' '']))"

text \<open>The fields of the parsed line, None when the line was not parsed; a missing key is empty.\<close>

type_synonym parsed_line = "(string, string) gomap option"

definition parsed_get :: "parsed_line \<Rightarrow> string \<Rightarrow> string" where
  "parsed_get parsed k = (case parsed of None \<Rightarrow> [] | Some m \<Rightarrow> lookup_or [] (map_of m) k)"

definition alertFingerprint :: "(nat \<Rightarrow> nat) \<Rightarrow> string \<Rightarrow> parsed_line \<Rightarrow> string" where
  "alertFingerprint ulower rawLine parsed =
     (let (host, process, t) =
        (case parsed of
           None \<Rightarrow> (''<unknown>'', ''<unknown>'', rawLine)
         | Some m \<Rightarrow>
             (if parsed_get parsed ''host'' \<noteq> '''' then parsed_get parsed ''host'' else ''<unknown>'',
              if parsed_get parsed ''process'' \<noteq> '''' then parsed_get parsed ''process'' else ''<unknown>'',
              if parsed_get parsed ''text'' \<noteq> '''' then parsed_get parsed ''text'' else rawLine))
      in hex_sum (Sum256 (host @ [byte_char 0] @ process @ [byte_char 0] @ normalizeAlertText ulower t)))"

section \<open>The deduper\<close>

record alert_dedup_config =
  dedup_enabled :: bool
  defaultTTLSeconds :: int

definition defaultAlertDedupTTL :: duration where
  "defaultAlertDedupTTL = 15 * Minute"

record deduper =
  expires :: "(string, instant) gomap"
  defaultTTL :: duration

definition newAlertDeduper :: "alert_dedup_config \<Rightarrow> deduper" where
  "newAlertDeduper cfg =
     (let ttl = dur_mul (defaultTTLSeconds cfg) Second
      in \<lparr>expires = [], defaultTTL = (if ttl \<le> 0 then defaultAlertDedupTTL else ttl)\<rparr>)"

definition decision_ttl :: "deduper \<Rightarrow> int \<Rightarrow> duration" where
  "decision_ttl d decisionTTLSeconds =
     (let ttl = dur_mul decisionTTLSeconds Second in if ttl \<le> 0 then defaultTTL d else ttl)"

text \<open>The part of \<open>Allow\<close> under the lock: the process's own map.\<close>

definition Allow_local :: "instant \<Rightarrow> string \<Rightarrow> duration \<Rightarrow> deduper \<Rightarrow> bool \<times> deduper" where
  "Allow_local now fingerprint ttl d =
     (if (case map_of (expires d) fingerprint of None \<Rightarrow> False | Some expiry \<Rightarrow> time_Before now expiry)
      then (False, d)
      else (let es = AList.update fingerprint (time_Add now ttl) (expires d)
            in (True, d\<lparr>expires := filter (\<lambda>(key, expiry). time_Before now expiry) es\<rparr>)))"

text \<open>
  The operations of the store: a request has circumstances \<open>q\<close> (its fate) and runs at millisecond \<open>ms\<close>
  of the store's clock. A process without a store has None.
\<close>

record ('q, 'r) dedup_store_ops =
  reserve :: "'q \<Rightarrow> int \<Rightarrow> string \<Rightarrow> duration \<Rightarrow> 'r \<Rightarrow> bool result \<times> 'r"
  forget :: "'q \<Rightarrow> int \<Rightarrow> string \<Rightarrow> 'r \<Rightarrow> unit result \<times> 'r"

definition Allow ::
  "('q, 'r) dedup_store_ops option \<Rightarrow> 'q \<Rightarrow> int \<Rightarrow> instant \<Rightarrow> string \<Rightarrow> int \<Rightarrow> deduper \<times> 'r \<Rightarrow> bool \<times> deduper \<times> 'r" where
  "Allow store q ms now fingerprint decisionTTLSeconds s =
     (let (d, st) = s; ttl = decision_ttl d decisionTTLSeconds
      in case store of
           None \<Rightarrow> (let (b, d') = Allow_local now fingerprint ttl d in (b, d', st))
         | Some ops \<Rightarrow>
             (case reserve ops q ms fingerprint ttl st of
                (Inr reserved, st') \<Rightarrow> (reserved, d, st')
              | (Inl e, st') \<Rightarrow> (let (b, d') = Allow_local now fingerprint ttl d in (b, d', st'))))"

definition Forget :: "('q, 'r) dedup_store_ops option \<Rightarrow> 'q \<Rightarrow> int \<Rightarrow> string \<Rightarrow> deduper \<times> 'r \<Rightarrow> deduper \<times> 'r" where
  "Forget store q ms fingerprint s =
     (let (d, st) = s; st' = (case store of None \<Rightarrow> st | Some ops \<Rightarrow> snd (forget ops q ms fingerprint st))
      in (d\<lparr>expires := AList.delete fingerprint (expires d)\<rparr>, st'))"

section \<open>The interface of the store\<close>

text \<open>
  \<open>held t st fp\<close>: at millisecond \<open>t\<close> the store would still hold the reservation of \<open>fp\<close>. A request
  with good circumstances is executed once and answered.
\<close>

locale dedup_store =
  fixes ops :: "('q, 'r) dedup_store_ops" and held :: "int \<Rightarrow> 'r \<Rightarrow> string \<Rightarrow> bool" and good :: "'q \<Rightarrow> bool"
  assumes held_earlier: "held t st fp \<Longrightarrow> t' \<le> t \<Longrightarrow> held t' st fp"
    and reserve_grants: "reserve ops q ms fp ttl st = (Inr True, st') \<Longrightarrow> 0 < ttl \<Longrightarrow> t < ms + ttl_ms ttl \<Longrightarrow> held t st' fp"
    and reserve_refuses: "held ms st fp \<Longrightarrow> fst (reserve ops q ms fp ttl st) \<noteq> Inr True"
    and reserve_keeps: "held t st fp \<Longrightarrow> ms \<le> t \<Longrightarrow> held t (snd (reserve ops q ms fp' ttl st)) fp"
    and forget_keeps: "held t st fp \<Longrightarrow> ms \<le> t \<Longrightarrow> fp' \<noteq> fp \<Longrightarrow> held t (snd (forget ops q ms fp' st)) fp"
    and forget_frees: "good q \<Longrightarrow> ms \<le> t \<Longrightarrow> \<not> held t (snd (forget ops q ms fp st)) fp"
    and reserve_free: "good q \<Longrightarrow> 0 < ttl \<Longrightarrow> \<not> held ms st fp \<Longrightarrow> fst (reserve ops q ms fp ttl st) = Inr True"

text \<open>
  Several processes, each with its own deduper, share the store. The trace of a history says of each
  call of \<open>Allow\<close> which fingerprint it was for, what it answered and whether the store had answered.
\<close>

datatype 'q dedup_event =
    Ev_Allow nat 'q int instant string int
  | Ev_Forget nat 'q int string

fun event_ms :: "'q dedup_event \<Rightarrow> int" where
  "event_ms (Ev_Allow i q ms now fp secs) = ms"
| "event_ms (Ev_Forget i q ms fp) = ms"

fun dedup_trace ::
  "('q, 'r) dedup_store_ops \<Rightarrow> 'q dedup_event list \<Rightarrow> (nat \<Rightarrow> deduper) \<times> 'r \<Rightarrow> (string \<times> bool \<times> bool) list" where
  "dedup_trace ops [] s = []"
| "dedup_trace ops (Ev_Allow i q ms now fp secs # es) (ds, st) =
     (let answered = \<not> isl (fst (reserve ops q ms fp (decision_ttl (ds i) secs) st));
          (b, d', st') = Allow (Some ops) q ms now fp secs (ds i, st)
      in (fp, b, answered) # dedup_trace ops es (ds(i := d'), st'))"
| "dedup_trace ops (Ev_Forget i q ms fp # es) (ds, st) =
     (let (d', st') = Forget (Some ops) q ms fp (ds i, st) in dedup_trace ops es (ds(i := d'), st'))"

context dedup_store
begin

lemma Allow_refused:
  assumes "held ms st fp" and "Allow (Some ops) q ms now fp secs (d, st) = (True, d', st')"
  shows "isl (fst (reserve ops q ms fp (decision_ttl d secs) st))"
  using assms reserve_refuses [of ms st fp q "decision_ttl d secs"]
  by (auto simp: Allow_def Let_def split: prod.splits sum.splits)

lemma Allow_keeps:
  "held t st fp \<Longrightarrow> ms \<le> t \<Longrightarrow> held t (snd (snd (Allow (Some ops) q ms now fp' secs (d, st)))) fp"
  using reserve_keeps [of t st fp ms q fp' "decision_ttl d secs"]
  by (auto simp: Allow_def Let_def split: prod.splits sum.splits)

text \<open>While the store holds a fingerprint, only a request without an answer lets another alert through.\<close>

lemma trace_held:
  assumes "held t st fp" and "\<forall>e \<in> set es. event_ms e \<le> t" and "\<forall>i q ms. Ev_Forget i q ms fp \<notin> set es"
  shows "\<forall>(fp', granted, answered) \<in> set (dedup_trace ops es (ds, st)). fp' = fp \<longrightarrow> granted \<longrightarrow> \<not> answered"
  using assms
proof (induction es arbitrary: ds st)
  case (Cons e es)
  show ?case
  proof (cases e)
    case (Ev_Allow i q ms now fp' secs)
    obtain b d' st' where a: "Allow (Some ops) q ms now fp' secs (ds i, st) = (b, d', st')"
      by (metis prod.exhaust)
    have ms: "ms \<le> t" using Cons.prems(2) Ev_Allow by simp
    have "held t st' fp" using Allow_keeps [OF Cons.prems(1) ms, of q now fp' secs "ds i"] a by simp
    moreover have "isl (fst (reserve ops q ms fp (decision_ttl (ds i) secs) st))" if "b" "fp' = fp"
      using Allow_refused [OF held_earlier [OF Cons.prems(1) ms]] a that by metis
    ultimately show ?thesis
      using Cons.IH [of st' "ds(i := d')"] Cons.prems Ev_Allow a by (auto simp del: fun_upd_apply)
  next
    case (Ev_Forget i q ms fp')
    have ms: "ms \<le> t" and ne: "fp' \<noteq> fp" using Cons.prems(2,3) Ev_Forget by auto
    let ?st = "snd (forget ops q ms fp' st)"
    have "held t ?st fp" using forget_keeps [OF Cons.prems(1) ms ne] .
    then show ?thesis
      using Cons.IH [of ?st "ds(i := fst (Forget (Some ops) q ms fp' (ds i, st)))"] Cons.prems Ev_Forget
      by (auto simp: Forget_def simp del: fun_upd_apply)
  qed
qed simp

lemma Allow_grants_held:
  assumes "Allow (Some ops) q ms now fp secs (d, st) = (True, d', st')" and "0 < decision_ttl d secs"
    and "\<not> isl (fst (reserve ops q ms fp (decision_ttl d secs) st))" and "t < ms + ttl_ms (decision_ttl d secs)"
  shows "held t st' fp"
proof -
  obtain r st1 where r: "reserve ops q ms fp (decision_ttl d secs) st = (r, st1)" by fastforce
  then have "r = Inr True" "st1 = st'" using assms(1,3) by (auto simp: Allow_def Let_def split: sum.splits)
  with r reserve_grants [OF _ assms(2,4)] show ?thesis by blast
qed

text \<open>After a forgotten fingerprint the next alert goes through.\<close>

lemma Forget_then_Allow:
  assumes "good q" and "good q'" and "ms \<le> ms'" and "0 < decision_ttl d secs"
    and "Forget (Some ops) q ms fp (d, st) = (d', st')"
  shows "fst (Allow (Some ops) q' ms' now fp secs (d', st'))"
proof -
  have "st' = snd (forget ops q ms fp st)" and d': "decision_ttl d' secs = decision_ttl d secs"
    using assms(5) by (auto simp: Forget_def decision_ttl_def Let_def)
  then have "\<not> held ms' st' fp" using forget_frees [OF assms(1,3)] by simp
  from reserve_free [OF assms(2,4) this] d' show ?thesis
    by (auto simp: Allow_def Let_def split: prod.splits sum.splits)
qed

end

section \<open>KeyDB as the store\<close>

definition keydb_dedup :: "'r redis_env \<Rightarrow> (net, 'r) dedup_store_ops" where
  "keydb_dedup env = \<lparr>reserve = ReserveDedup env, forget = ForgetDedup env\<rparr>"

definition keydb_held :: "('r \<Rightarrow> keyspace) \<Rightarrow> int \<Rightarrow> 'r \<Rightarrow> string \<Rightarrow> bool" where
  "keydb_held db t st fp \<longleftrightarrow> reserved_at (sees t (db st)) fp"

context redis
begin

lemma ReserveDedup_once:
  assumes "0 < ttl" and "ReserveDedup env net now fp ttl st = (Inr True, st')"
  shows "ks now st' (dedup_key fp) = Some (RStr ''1'', Some (now + ttl_ms ttl))"
proof -
  let ?m = "client_once env now (SETNX (dedup_key fp) ''1'' (setnx_ttl ttl)) reply_bool"
  obtain n where n: "fst (?m (executions n ?m st)) = Inr True" "st' = snd (?m (executions n ?m st))"
    using send_answer [of net ?m st True] assms(2) by (auto simp: ReserveDedup_def client_def)
  have none: "ks now (executions n ?m st) (dedup_key fp) = None"
    using SETNX_once(1) [of now "executions n ?m st" fp _ ttl] n(1)
    by (cases "ks now (executions n ?m st) (dedup_key fp)") auto
  then show ?thesis using SETNX_once(5) [OF assms(1) none] n(2) by simp
qed

lemma redis_call_state: "snd (redis_call env now c st) = snd (rexec env now c st)"
  by (auto simp: redis_call_def split: prod.splits reply.splits)

lemma client_later:
  assumes "\<And>st. sees t (db st) k = Some x \<Longrightarrow> sees t (db (snd (rexec env now c st))) k = Some x"
    and "sees t (db st) k = Some x"
  shows "sees t (db (snd (client env net now c conv st))) k = Some x"
  unfolding client_def
  by (rule send_invariant [where P = "\<lambda>s. sees t (db s) k = Some x"])
    (use assms in \<open>simp_all add: redis_call_state\<close>)

lemma exec_keeps:
  assumes "now \<le> t" and "ks t st k = Some x" and "leaves_alone k c \<or> (\<exists>v d. c = SETNX k v d)"
  shows "ks t (snd (rexec env now c st)) k = Some x"
proof -
  have now: "ks now st k = Some x" using sees_earlier [OF assms(2,1)] .
  then have "cmd_effect now c (ks now st) k = Some x"
    using assms(3) effect_leaves_alone [of k c now "ks now st"] by auto
  then show ?thesis
    using step_later [OF assms(1), of c st k] assms(2) now by (auto simp: sees_def split: option.splits if_splits)
qed

end

sublocale redis \<subseteq> keydb_dedup_store: dedup_store "keydb_dedup env" "keydb_held db" "\<lambda>net. net = delivered"
proof
  show "keydb_held db t' st fp" if "keydb_held db t st fp" "t' \<le> t" for t st fp t'
    using that sees_earlier unfolding keydb_held_def reserved_at_def by (metis not_None_eq)
  show "keydb_held db t st' fp"
    if "reserve (keydb_dedup env) q ms fp ttl st = (Inr True, st')" "0 < ttl" "t < ms + ttl_ms ttl" for q ms fp ttl st st' t
  proof -
    have now: "ks ms st' (dedup_key fp) = Some (RStr ''1'', Some (ms + ttl_ms ttl))"
      using ReserveDedup_once that by (simp add: keydb_dedup_def)
    then have "ks t st' (dedup_key fp) = Some (RStr ''1'', Some (ms + ttl_ms ttl))"
      using that(3) by (auto simp: sees_def split: option.splits if_splits)
    then show ?thesis by (simp add: keydb_held_def reserved_at_def)
  qed
  show "fst (reserve (keydb_dedup env) q ms fp ttl st) \<noteq> Inr True" if "keydb_held db ms st fp" for ms st fp q ttl
    using that ReserveDedup_reserved by (auto simp: keydb_dedup_def keydb_held_def reserved_at_def)
  show "keydb_held db t (snd (reserve (keydb_dedup env) q ms fp' ttl st)) fp"
    if h: "keydb_held db t st fp" and le: "ms \<le> t" for t st fp ms q fp' ttl
  proof -
    obtain x where x: "ks t st (dedup_key fp) = Some x"
      using h by (cases "ks t st (dedup_key fp)") (auto simp: keydb_held_def reserved_at_def)
    have "leaves_alone (dedup_key fp) (SETNX (dedup_key fp') v d)
        \<or> (\<exists>v' d'. SETNX (dedup_key fp') v d = SETNX (dedup_key fp) v' d')" for v d
      by (cases "fp' = fp") (auto simp: leaves_alone_def dedup_key_def)
    then have "ks t (snd (client env q ms (SETNX (dedup_key fp') ''1'' (setnx_ttl ttl)) reply_bool st)) (dedup_key fp) = Some x"
      by (intro client_later exec_keeps le x)
    then show ?thesis by (simp add: keydb_dedup_def ReserveDedup_def keydb_held_def reserved_at_def)
  qed
  show "keydb_held db t (snd (forget (keydb_dedup env) q ms fp' st)) fp"
    if h: "keydb_held db t st fp" and le: "ms \<le> t" and ne: "fp' \<noteq> fp" for t st fp ms fp' q
  proof -
    obtain x where x: "ks t st (dedup_key fp) = Some x"
      using h by (cases "ks t st (dedup_key fp)") (auto simp: keydb_held_def reserved_at_def)
    have "leaves_alone (dedup_key fp) (DEL (dedup_key fp'))"
      using ne by (simp add: leaves_alone_def dedup_key_def)
    then have "ks t (snd (client env q ms (DEL (dedup_key fp')) reply_done st)) (dedup_key fp) = Some x"
      by (intro client_later exec_keeps le x disjI1)
    then show ?thesis by (simp add: keydb_dedup_def ForgetDedup_def keydb_held_def reserved_at_def)
  qed
  show "\<not> keydb_held db t (snd (forget (keydb_dedup env) q ms fp st)) fp"
    if "q = delivered" "ms \<le> t" for q ms t fp st
  proof -
    have "ks ms (snd (forget (keydb_dedup env) q ms fp st)) (dedup_key fp) = None"
      using that(1) by (simp add: keydb_dedup_def ForgetDedup_def client_def call_state)
    from sees_gone_later [OF this that(2)] show ?thesis by (simp add: keydb_held_def reserved_at_def)
  qed
  show "fst (reserve (keydb_dedup env) q ms fp ttl st) = Inr True"
    if "q = delivered" "0 < ttl" "\<not> keydb_held db ms st fp" for q ttl ms st fp
  proof -
    have "ks ms st (dedup_key fp) = None"
      using that(3) unfolding keydb_held_def reserved_at_def by blast
    then show ?thesis
      using SETNX_once(4) [OF that(2), of ms st fp] that(1) by (simp add: keydb_dedup_def ReserveDedup_def client_def)
  qed
qed

context redis
begin

lemma dedup_trace_exclusive:
  assumes "Allow (Some (keydb_dedup env)) q ms now fp secs (d, st) = (True, d', st')"
    and "\<not> isl (fst (ReserveDedup env q ms fp (decision_ttl d secs) st))" and "0 < decision_ttl d secs"
    and "\<forall>e \<in> set es. event_ms e \<le> t" and "\<forall>i q ms. Ev_Forget i q ms fp \<notin> set es"
    and "t < ms + ttl_ms (decision_ttl d secs)"
  shows "\<forall>(fp', granted, answered) \<in> set (dedup_trace (keydb_dedup env) es (ds, st')). fp' = fp \<longrightarrow> granted \<longrightarrow> \<not> answered"
proof -
  have "keydb_held db t st' fp"
    using keydb_dedup_store.Allow_grants_held [OF assms(1,3)] assms(2,6) by (simp add: keydb_dedup_def)
  then show ?thesis by (rule keydb_dedup_store.trace_held) (use assms in auto)
qed

lemma dedup_retry:
  assumes "ms \<le> ms'" and "0 < decision_ttl d secs"
    and "Forget (Some (keydb_dedup env)) delivered ms fp (d, st) = (d', st')"
  shows "fst (Allow (Some (keydb_dedup env)) delivered ms' now fp secs (d', st'))"
  using keydb_dedup_store.Forget_then_Allow [OF refl refl assms] .

end

section \<open>Properties\<close>

text \<open>The time to live that a call uses is positive.\<close>

lemma newAlertDeduper_ttl: "0 < defaultTTL (newAlertDeduper cfg)"
  by (simp add: newAlertDeduper_def Let_def defaultAlertDedupTTL_def Minute_def)

lemma decision_ttl_pos: "0 < defaultTTL d \<Longrightarrow> 0 < decision_ttl d secs"
  by (auto simp: decision_ttl_def Let_def)

text \<open>
  C8. Across processes that share KeyDB an alert goes out once: after one process was granted a
  fingerprint by the store, then, whatever calls for whatever fingerprints any number of processes
  make until the time to live has passed, a further grant of this fingerprint happens only in a call
  whose request to KeyDB got no answer (as long as nobody forgets it).
\<close>

theorem Allow_once_across_processes:
  assumes "redis env db"
    and "Allow (Some (keydb_dedup env)) q ms now fp secs (d, st) = (True, d', st')"
    and "\<not> isl (fst (ReserveDedup env q ms fp (decision_ttl d secs) st))" and "0 < defaultTTL d"
    and "\<forall>e \<in> set es. event_ms e \<le> t" and "\<forall>i q ms. Ev_Forget i q ms fp \<notin> set es"
    and "t < ms + ttl_ms (decision_ttl d secs)"
  shows "\<forall>(fp', granted, answered) \<in> set (dedup_trace (keydb_dedup env) es (ds, st')).
    fp' = fp \<longrightarrow> granted \<longrightarrow> \<not> answered"
  by (rule redis.dedup_trace_exclusive [OF assms(1-3) decision_ttl_pos [OF assms(4)] assms(5-7)])

lemma first_allow:
  "Allow (Some (keydb_dedup mem_env)) delivered 0 0 ''f'' 60 (\<lparr>expires = [], defaultTTL = 900\<rparr>, mem_empty)
   = (True, \<lparr>expires = [], defaultTTL = 900\<rparr>,
      snd (mem_exec 0 (SETNX (dedup_key ''f'') ''1'' (Some 60000)) mem_empty))"
  "fst (ReserveDedup mem_env delivered 0 ''f'' (decision_ttl \<lparr>expires = [], defaultTTL = 900\<rparr> 60) mem_empty) = Inr True"
  by (simp_all add: Allow_def keydb_dedup_def ReserveDedup_def decision_ttl_def dur_mul_def Second_def wrap64_small
      setnx_ttl_def ttl_ms_def Millisecond_def quot64_def mem_eval)

theorem Allow_once_across_processes_witness:
  "\<exists>st'. Allow (Some (keydb_dedup mem_env)) delivered 0 0 ''f'' 60 (\<lparr>expires = [], defaultTTL = 900\<rparr>, mem_empty)
      = (True, \<lparr>expires = [], defaultTTL = 900\<rparr>, st')
    \<and> (\<forall>(fp', granted, answered) \<in> set (dedup_trace (keydb_dedup mem_env)
        [Ev_Allow 1 delivered 59999 7 ''f'' 60, Ev_Allow 1 (Net 0 True) 59999 7 ''f'' 60]
        (\<lambda>_. \<lparr>expires = [], defaultTTL = 900\<rparr>, st')). fp' = ''f'' \<longrightarrow> granted \<longrightarrow> \<not> answered)"
proof -
  let ?d = "\<lparr>expires = [], defaultTTL = 900\<rparr>"
  let ?st = "snd (mem_exec 0 (SETNX (dedup_key ''f'') ''1'' (Some 60000)) mem_empty)"
  let ?es = "[Ev_Allow 1 delivered 59999 7 ''f'' 60, Ev_Allow 1 (Net 0 True) 59999 7 ''f'' 60]"
  have 1: "\<not> isl (fst (ReserveDedup mem_env delivered 0 ''f'' (decision_ttl ?d 60) mem_empty))"
    using first_allow(2) by simp
  have 2: "59999 < 0 + ttl_ms (decision_ttl ?d 60)"
    by (simp add: decision_ttl_def dur_mul_def Second_def wrap64_small ttl_ms_def Millisecond_def quot64_def)
  have 3: "\<forall>e \<in> set ?es. event_ms e \<le> 59999" "\<forall>i q ms. Ev_Forget i q ms ''f'' \<notin> set ?es" by auto
  have 4: "0 < defaultTTL ?d" by simp
  show ?thesis
    using Allow_once_across_processes [OF mem.redis_axioms first_allow(1) 1 4 3 2] first_allow(1)
    by (intro exI [of _ ?st] conjI)
qed

text \<open>A sequence of calls that are decided without the store.\<close>

fun local_run :: "(instant \<times> string \<times> duration) list \<Rightarrow> deduper \<Rightarrow> (string \<times> bool) list" where
  "local_run [] d = []"
| "local_run ((now, fp, ttl) # cs) d = (let (b, d') = Allow_local now fp ttl d in (fp, b) # local_run cs d')"

lemma map_of_filter_key:
  "map_of (filter (\<lambda>(k, v). P v) m) k = Some v \<Longrightarrow> wf_map m \<Longrightarrow> map_of m k = Some v \<and> P v"
  using map_of_SomeD [of "filter (\<lambda>(k, v). P v) m" k v] by (auto simp: wf_map_mem_iff)

lemma map_of_filter_keep:
  assumes "map_of m k = Some v" and "wf_map m" and "P v"
  shows "map_of (filter (\<lambda>(k, v). P v) m) k = Some v"
proof -
  have "(k, v) \<in> set (filter (\<lambda>(k, v). P v) m)" using map_of_SomeD [OF assms(1)] assms(3) by simp
  moreover have "distinct (map fst (filter (\<lambda>(k, v). P v) m))"
    using assms(2) distinct_map_filter unfolding wf_map_def by blast
  ultimately show ?thesis by (rule map_of_is_SomeI [rotated])
qed

lemma wf_map_filter: "wf_map m \<Longrightarrow> wf_map (filter P m)"
  unfolding wf_map_def by (rule distinct_map_filter)

lemma Allow_local_held:
  assumes "map_of (expires d) fp = Some e" and "wf_map (expires d)" and "now < e"
    and "Allow_local now fp' ttl d = (b, d')"
  shows "map_of (expires d') fp = Some e \<and> wf_map (expires d') \<and> (fp' = fp \<longrightarrow> \<not> b)"
proof -
  let ?m = "AList.update fp' (time_Add now ttl) (expires d)"
  have wf: "wf_map ?m" "wf_map (filter (\<lambda>(key, expiry). time_Before now expiry) ?m)"
    using assms(2) by (auto intro: wf_intros wf_map_filter)
  have "map_of (filter (\<lambda>(key, expiry). time_Before now expiry) ?m) fp = Some e" if "fp' \<noteq> fp"
    by (rule map_of_filter_keep) (use assms that wf in \<open>auto simp: time_Before_def\<close>)
  then show ?thesis
    using assms wf by (cases "fp' = fp") (auto simp: Allow_local_def time_Before_def split: if_splits)
qed

lemma local_run_held:
  "map_of (expires d) fp = Some e \<Longrightarrow> wf_map (expires d) \<Longrightarrow> \<forall>(now, fp', ttl) \<in> set cs. now < e \<Longrightarrow>
   (fp, True) \<notin> set (local_run cs d)"
proof (induction cs arbitrary: d)
  case (Cons c cs)
  obtain now fp' ttl where c: "c = (now, fp', ttl)" by (cases c)
  obtain b d' where a: "Allow_local now fp' ttl d = (b, d')" by fastforce
  have now: "now < e" using Cons.prems(3) c by simp
  note h = Allow_local_held [OF Cons.prems(1,2) now a]
  then show ?case using Cons.IH [of d'] Cons.prems(3) c a by auto
qed simp

text \<open>
  The fallback without KeyDB: after the process allowed a fingerprint by itself, every call for it
  before the expiry is refused, whatever other fingerprints are allowed and purged in between.
\<close>

theorem Allow_local_exclusive:
  assumes "Allow_local now fp ttl d = (True, d')" and "0 < ttl" and "wf_map (expires d)"
    and "\<forall>(now', fp', ttl') \<in> set cs. now' < now + ttl"
  shows "(fp, True) \<notin> set (local_run cs d')"
proof -
  let ?m = "AList.update fp (time_Add now ttl) (expires d)"
  have d': "d' = d\<lparr>expires := filter (\<lambda>(key, expiry). time_Before now expiry) ?m\<rparr>"
    using assms(1) by (auto simp: Allow_local_def Let_def split: if_splits)
  have wf: "wf_map ?m" using assms(3) by (rule wf_intros)
  have "map_of (filter (\<lambda>(key, expiry). time_Before now expiry) ?m) fp = Some (now + ttl)"
    by (rule map_of_filter_keep [OF _ wf]) (use assms(2) in \<open>auto simp: time_Before_def time_Add_def\<close>)
  then show ?thesis
    using local_run_held [of d' fp "now + ttl" cs] wf_map_filter [OF wf] assms(4) d' by auto
qed

theorem Allow_local_exclusive_witness:
  "(''f'', True) \<notin> set (local_run [(105, ''g'', 5), (109, ''f'', 10)] \<lparr>expires = [(''f'', 110)], defaultTTL = 900\<rparr>)"
proof -
  have "Allow_local 100 ''f'' 10 \<lparr>expires = [], defaultTTL = 900\<rparr> = (True, \<lparr>expires = [(''f'', 110)], defaultTTL = 900\<rparr>)"
    by (simp add: Allow_local_def time_Add_def time_Before_def)
  from Allow_local_exclusive [OF this, of "[(105, ''g'', 5), (109, ''f'', 10)]"] show ?thesis by simp
qed

text \<open>
  A failed notification does not silence the alert: after \<open>Forget\<close> reached KeyDB, the next call
  for the fingerprint is granted.
\<close>

theorem Forget_reopens:
  assumes "redis env db" and "ms \<le> ms'" and "0 < defaultTTL d"
    and "Forget (Some (keydb_dedup env)) delivered ms fp (d, st) = (d', st')"
  shows "fst (Allow (Some (keydb_dedup env)) delivered ms' now fp secs (d', st'))"
  by (rule redis.dedup_retry [OF assms(1,2) decision_ttl_pos [OF assms(3)] assms(4)])

theorem Forget_reopens_witness:
  "fst (Allow (Some (keydb_dedup mem_env)) delivered 6 0 ''f'' 60
     (Forget (Some (keydb_dedup mem_env)) delivered 5 ''f'' (\<lparr>expires = [], defaultTTL = 900\<rparr>, mem_empty)))"
proof -
  obtain d' st' where f: "Forget (Some (keydb_dedup mem_env)) delivered 5 ''f'' (\<lparr>expires = [], defaultTTL = 900\<rparr>, mem_empty)
      = (d', st')" by fastforce
  have "(5 :: int) \<le> 6" and "0 < defaultTTL \<lparr>expires = [], defaultTTL = 900\<rparr>" by simp_all
  from Forget_reopens [OF mem.redis_axioms this f] show ?thesis by (simp only: f)
qed

lemma eight_times_eight: "8 * 8 = (64 :: nat)"
  by simp

lemma fingerprint_sum: "\<exists>t. alertFingerprint ulower line parsed = hex_sum (Sum256 t)"
  unfolding alertFingerprint_def Let_def case_prod_beta by blast

text \<open>
  C38. The time to live of a reservation is positive, and it is the decision's number of seconds when
  that lies between 1 and 9223372036; beyond, the product with a second wraps around. A fingerprint is
  always 64 hexadecimal digits, so taking its first twelve never panics.
\<close>

theorem decision_ttl_bounds:
  "0 < decision_ttl (newAlertDeduper cfg) secs
   \<and> (1 \<le> secs \<and> secs \<le> 9223372036 \<longrightarrow> decision_ttl (newAlertDeduper cfg) secs = secs * Second)
   \<and> decision_ttl (newAlertDeduper cfg) 9223372037 = defaultTTL (newAlertDeduper cfg)
   \<and> length (alertFingerprint ulower line parsed) = 64
   \<and> set (alertFingerprint ulower line parsed) \<subseteq> hex_char ` {0..<16}"
proof -
  have "length (alertFingerprint ulower line parsed) = 64"
    "set (alertFingerprint ulower line parsed) \<subseteq> hex_char ` {0..<16}"
    using fingerprint_sum [of ulower line parsed] hex_sum_digits by (metis length_hex_sum length_Sum256 eight_times_eight, metis)
  moreover have "decision_ttl (newAlertDeduper cfg) 9223372037 = defaultTTL (newAlertDeduper cfg)"
    by (simp add: decision_ttl_def dur_mul_def Second_def wrap64_def)
  ultimately show ?thesis
    using decision_ttl_pos [OF newAlertDeduper_ttl]
    by (auto simp: decision_ttl_def dur_mul_Second_exact) (simp add: Second_def)
qed

theorem decision_ttl_bounds_witness:
  "decision_ttl (newAlertDeduper \<lparr>dedup_enabled = True, defaultTTLSeconds = 0\<rparr>) 60 = 60 * Second"
  using decision_ttl_bounds [of "\<lparr>dedup_enabled = True, defaultTTLSeconds = 0\<rparr>" 60] by simp

end
