(* ===== verification/Config.thy ===== *)
theory Config
  imports Alert_Dedup Excludes_Snapshot "HOL-Library.Monad_Syntax"
begin

text \<open>
  The configuration (main.go, with the configuration types of the other files): its records, what
  \<open>json.Unmarshal\<close> fills into them, the defaults, the secrets file that overlays it, the compilation
  of the monitors and the start-up load of the dynamic excludes. Parameters: \<open>regexp.Compile\<close>
  (\<open>compile\<close>), \<open>strconv.ParseFloat\<close> (\<open>parse_float\<close>) and the quoting of \<open>%q\<close> (\<open>quote\<close>).
\<close>

section \<open>Records\<close>

record PipelineConfig =
  pl_Workers :: int
  pl_QueueSize :: int

record MonitorConfig =
  mc_Search :: string
  mc_Excludes :: "string list"

record ProcessConfig =
  pc_Excludes :: "string list"

record KeyDBConfig =
  kc_Host :: string
  kc_Password :: string

record NotificationConfig =
  nc_PrimaryURL :: string
  nc_SecondaryURL :: string
  nc_IconURL :: string
  nc_Channel :: string

record WebConfig =
  wc_ListenAddress :: string
  wc_Tokens :: "string list"
  wc_APITokens :: "string list"

record StaleAlertConfig =
  sa_VIP :: string
  sa_ThresholdMinutes :: int

record DecisionServiceConfig =
  ds_Enabled :: bool
  ds_URL :: string
  ds_Source :: string
  ds_Token :: string
  ds_TimeoutSeconds :: int
  ds_FailOpen :: "bool option"
  ds_MinConfidence :: rat
  ds_FeedbackActionTarget :: string

record JSONExcludeConfig =
  je_Process :: string
  je_BooleanFields :: "(string, bool) gomap"
  je_EmptyArrayFields :: "string list"

record IncidentRule =
  ir_Name :: string
  ir_Title :: string
  ir_Patterns :: "string list"

record IncidentAggregationConfig =
  ia_Enabled :: bool
  ia_QuietSeconds :: int
  ia_ReminderEvery :: int
  ia_SweepSeconds :: int
  ia_RecoveryOutboxMax :: int
  ia_Rules :: "IncidentRule list"

record Config =
  cf_MonFiles :: "string list"
  cf_Monitors :: "(string, MonitorConfig) gomap"
  cf_KeyDB :: KeyDBConfig
  cf_Notifications :: NotificationConfig
  cf_Web :: WebConfig
  cf_StaleAlert :: StaleAlertConfig
  cf_DecisionService :: DecisionServiceConfig
  cf_Processes :: ProcessConfig
  cf_JSONExcludes :: "JSONExcludeConfig list"
  cf_AlertDedup :: alert_dedup_config
  cf_Pipeline :: PipelineConfig
  cf_IncidentAggregation :: IncidentAggregationConfig

definition pipeline_values :: "PipelineConfig \<Rightarrow> int \<times> int" where
  "pipeline_values c =
     (if pl_Workers c \<le> 0 then 4 else pl_Workers c, if pl_QueueSize c \<le> 0 then 1000 else pl_QueueSize c)"

section \<open>Zero values\<close>

definition zero_MonitorConfig :: MonitorConfig where
  "zero_MonitorConfig = \<lparr>mc_Search = [], mc_Excludes = []\<rparr>"

definition zero_JSONExcludeConfig :: JSONExcludeConfig where
  "zero_JSONExcludeConfig = \<lparr>je_Process = [], je_BooleanFields = [], je_EmptyArrayFields = []\<rparr>"

definition zero_IncidentRule :: IncidentRule where
  "zero_IncidentRule = \<lparr>ir_Name = [], ir_Title = [], ir_Patterns = []\<rparr>"

definition zero_Config :: Config where
  "zero_Config = \<lparr>cf_MonFiles = [], cf_Monitors = [], cf_KeyDB = \<lparr>kc_Host = [], kc_Password = []\<rparr>,
     cf_Notifications = \<lparr>nc_PrimaryURL = [], nc_SecondaryURL = [], nc_IconURL = [], nc_Channel = []\<rparr>,
     cf_Web = \<lparr>wc_ListenAddress = [], wc_Tokens = [], wc_APITokens = []\<rparr>,
     cf_StaleAlert = \<lparr>sa_VIP = [], sa_ThresholdMinutes = 0\<rparr>,
     cf_DecisionService = \<lparr>ds_Enabled = False, ds_URL = [], ds_Source = [], ds_Token = [], ds_TimeoutSeconds = 0,
       ds_FailOpen = None, ds_MinConfidence = 0, ds_FeedbackActionTarget = []\<rparr>,
     cf_Processes = \<lparr>pc_Excludes = []\<rparr>, cf_JSONExcludes = [],
     cf_AlertDedup = \<lparr>dedup_enabled = False, defaultTTLSeconds = 0\<rparr>,
     cf_Pipeline = \<lparr>pl_Workers = 0, pl_QueueSize = 0\<rparr>,
     cf_IncidentAggregation = \<lparr>ia_Enabled = False, ia_QuietSeconds = 0, ia_ReminderEvery = 0, ia_SweepSeconds = 0,
       ia_RecoveryOutboxMax = 0, ia_Rules = []\<rparr>\<rparr>"

section \<open>Decoding\<close>

abbreviation int_field :: "string \<Rightarrow> int \<Rightarrow> (string \<times> json) list \<Rightarrow> int option" where
  "int_field \<equiv> json_field dec_int"

abbreviation bool_field :: "string \<Rightarrow> bool \<Rightarrow> (string \<times> json) list \<Rightarrow> bool option" where
  "bool_field \<equiv> json_field dec_bool"

definition dec_float :: "(string \<Rightarrow> rat option) \<Rightarrow> rat \<Rightarrow> json \<Rightarrow> rat option" where
  "dec_float parse_float cur j = (case j of JNum n \<Rightarrow> parse_float n | JNull \<Rightarrow> Some cur | _ \<Rightarrow> None)"

definition dec_MonitorConfig :: "MonitorConfig \<Rightarrow> (string \<times> json) list \<Rightarrow> MonitorConfig option" where
  "dec_MonitorConfig c ms = do {
     search \<leftarrow> str_field ''search'' (mc_Search c) ms;
     excludes \<leftarrow> strs_field ''excludes'' (mc_Excludes c) ms;
     Some \<lparr>mc_Search = search, mc_Excludes = excludes\<rparr> }"

definition dec_KeyDBConfig :: "KeyDBConfig \<Rightarrow> (string \<times> json) list \<Rightarrow> KeyDBConfig option" where
  "dec_KeyDBConfig c ms = do {
     host \<leftarrow> str_field ''host'' (kc_Host c) ms;
     password \<leftarrow> str_field ''password'' (kc_Password c) ms;
     Some \<lparr>kc_Host = host, kc_Password = password\<rparr> }"

definition dec_NotificationConfig :: "NotificationConfig \<Rightarrow> (string \<times> json) list \<Rightarrow> NotificationConfig option" where
  "dec_NotificationConfig c ms = do {
     primary \<leftarrow> str_field ''primary_url'' (nc_PrimaryURL c) ms;
     secondary \<leftarrow> str_field ''secondary_url'' (nc_SecondaryURL c) ms;
     icon \<leftarrow> str_field ''icon_url'' (nc_IconURL c) ms;
     channel \<leftarrow> str_field ''channel'' (nc_Channel c) ms;
     Some \<lparr>nc_PrimaryURL = primary, nc_SecondaryURL = secondary, nc_IconURL = icon, nc_Channel = channel\<rparr> }"

definition dec_WebConfig :: "WebConfig \<Rightarrow> (string \<times> json) list \<Rightarrow> WebConfig option" where
  "dec_WebConfig c ms = do {
     address \<leftarrow> str_field ''listen_address'' (wc_ListenAddress c) ms;
     tokens \<leftarrow> strs_field ''tokens'' (wc_Tokens c) ms;
     apiTokens \<leftarrow> strs_field ''api_tokens'' (wc_APITokens c) ms;
     Some \<lparr>wc_ListenAddress = address, wc_Tokens = tokens, wc_APITokens = apiTokens\<rparr> }"

definition dec_StaleAlertConfig :: "StaleAlertConfig \<Rightarrow> (string \<times> json) list \<Rightarrow> StaleAlertConfig option" where
  "dec_StaleAlertConfig c ms = do {
     vip \<leftarrow> str_field ''vip'' (sa_VIP c) ms;
     threshold \<leftarrow> int_field ''threshold_minutes'' (sa_ThresholdMinutes c) ms;
     Some \<lparr>sa_VIP = vip, sa_ThresholdMinutes = threshold\<rparr> }"

definition dec_DecisionServiceConfig ::
  "(string \<Rightarrow> rat option) \<Rightarrow> DecisionServiceConfig \<Rightarrow> (string \<times> json) list \<Rightarrow> DecisionServiceConfig option" where
  "dec_DecisionServiceConfig parse_float c ms = do {
     enabled \<leftarrow> bool_field ''enabled'' (ds_Enabled c) ms;
     url \<leftarrow> str_field ''url'' (ds_URL c) ms;
     source \<leftarrow> str_field ''source'' (ds_Source c) ms;
     token \<leftarrow> str_field ''token'' (ds_Token c) ms;
     timeout \<leftarrow> int_field ''timeout_seconds'' (ds_TimeoutSeconds c) ms;
     failOpen \<leftarrow> json_field (dec_pointer dec_bool False) ''fail_open'' (ds_FailOpen c) ms;
     minConfidence \<leftarrow> json_field (dec_float parse_float) ''min_confidence'' (ds_MinConfidence c) ms;
     feedback \<leftarrow> str_field ''feedback_action_target'' (ds_FeedbackActionTarget c) ms;
     Some \<lparr>ds_Enabled = enabled, ds_URL = url, ds_Source = source, ds_Token = token, ds_TimeoutSeconds = timeout,
       ds_FailOpen = failOpen, ds_MinConfidence = minConfidence, ds_FeedbackActionTarget = feedback\<rparr> }"

definition dec_ProcessConfig :: "ProcessConfig \<Rightarrow> (string \<times> json) list \<Rightarrow> ProcessConfig option" where
  "dec_ProcessConfig c ms = do {
     excludes \<leftarrow> strs_field ''excludes'' (pc_Excludes c) ms;
     Some \<lparr>pc_Excludes = excludes\<rparr> }"

definition dec_JSONExcludeConfig :: "JSONExcludeConfig \<Rightarrow> (string \<times> json) list \<Rightarrow> JSONExcludeConfig option" where
  "dec_JSONExcludeConfig c ms = do {
     process \<leftarrow> str_field ''process'' (je_Process c) ms;
     booleans \<leftarrow> json_field (dec_map dec_bool False) ''boolean_fields'' (je_BooleanFields c) ms;
     arrays \<leftarrow> strs_field ''empty_array_fields'' (je_EmptyArrayFields c) ms;
     Some \<lparr>je_Process = process, je_BooleanFields = booleans, je_EmptyArrayFields = arrays\<rparr> }"

definition dec_AlertDedupConfig :: "alert_dedup_config \<Rightarrow> (string \<times> json) list \<Rightarrow> alert_dedup_config option" where
  "dec_AlertDedupConfig c ms = do {
     enabled \<leftarrow> bool_field ''enabled'' (dedup_enabled c) ms;
     ttl \<leftarrow> int_field ''default_ttl_seconds'' (defaultTTLSeconds c) ms;
     Some \<lparr>dedup_enabled = enabled, defaultTTLSeconds = ttl\<rparr> }"

definition dec_PipelineConfig :: "PipelineConfig \<Rightarrow> (string \<times> json) list \<Rightarrow> PipelineConfig option" where
  "dec_PipelineConfig c ms = do {
     workers \<leftarrow> int_field ''workers'' (pl_Workers c) ms;
     queueSize \<leftarrow> int_field ''queue_size'' (pl_QueueSize c) ms;
     Some \<lparr>pl_Workers = workers, pl_QueueSize = queueSize\<rparr> }"

definition dec_IncidentRule :: "IncidentRule \<Rightarrow> (string \<times> json) list \<Rightarrow> IncidentRule option" where
  "dec_IncidentRule c ms = do {
     name \<leftarrow> str_field ''name'' (ir_Name c) ms;
     title \<leftarrow> str_field ''title'' (ir_Title c) ms;
     patterns \<leftarrow> strs_field ''patterns'' (ir_Patterns c) ms;
     Some \<lparr>ir_Name = name, ir_Title = title, ir_Patterns = patterns\<rparr> }"

definition dec_IncidentAggregationConfig ::
  "IncidentAggregationConfig \<Rightarrow> (string \<times> json) list \<Rightarrow> IncidentAggregationConfig option" where
  "dec_IncidentAggregationConfig c ms = do {
     enabled \<leftarrow> bool_field ''enabled'' (ia_Enabled c) ms;
     quiet \<leftarrow> int_field ''quiet_seconds'' (ia_QuietSeconds c) ms;
     reminder \<leftarrow> int_field ''reminder_every'' (ia_ReminderEvery c) ms;
     sweep \<leftarrow> int_field ''sweep_seconds'' (ia_SweepSeconds c) ms;
     outbox \<leftarrow> int_field ''recovery_outbox_max'' (ia_RecoveryOutboxMax c) ms;
     rules \<leftarrow> json_field (dec_slice (dec_struct dec_IncidentRule) zero_IncidentRule) ''rules'' (ia_Rules c) ms;
     Some \<lparr>ia_Enabled = enabled, ia_QuietSeconds = quiet, ia_ReminderEvery = reminder, ia_SweepSeconds = sweep,
       ia_RecoveryOutboxMax = outbox, ia_Rules = rules\<rparr> }"

definition dec_Config :: "(string \<Rightarrow> rat option) \<Rightarrow> Config \<Rightarrow> (string \<times> json) list \<Rightarrow> Config option" where
  "dec_Config parse_float c ms = do {
     files \<leftarrow> strs_field ''mon_files'' (cf_MonFiles c) ms;
     monitors \<leftarrow> json_field (dec_map (dec_struct dec_MonitorConfig) zero_MonitorConfig) ''monitors'' (cf_Monitors c) ms;
     kdb \<leftarrow> json_field (dec_struct dec_KeyDBConfig) ''keydb'' (cf_KeyDB c) ms;
     notifications \<leftarrow> json_field (dec_struct dec_NotificationConfig) ''notifications'' (cf_Notifications c) ms;
     web \<leftarrow> json_field (dec_struct dec_WebConfig) ''web'' (cf_Web c) ms;
     stale \<leftarrow> json_field (dec_struct dec_StaleAlertConfig) ''stale_alert'' (cf_StaleAlert c) ms;
     decision \<leftarrow> json_field (dec_struct (dec_DecisionServiceConfig parse_float)) ''decision_service'' (cf_DecisionService c) ms;
     processes \<leftarrow> json_field (dec_struct dec_ProcessConfig) ''processes'' (cf_Processes c) ms;
     jsonExcludes \<leftarrow> json_field (dec_slice (dec_struct dec_JSONExcludeConfig) zero_JSONExcludeConfig) ''json_excludes''
       (cf_JSONExcludes c) ms;
     dedup \<leftarrow> json_field (dec_struct dec_AlertDedupConfig) ''alert_dedup'' (cf_AlertDedup c) ms;
     pipeline \<leftarrow> json_field (dec_struct dec_PipelineConfig) ''pipeline'' (cf_Pipeline c) ms;
     incidents \<leftarrow> json_field (dec_struct dec_IncidentAggregationConfig) ''incident_aggregation'' (cf_IncidentAggregation c) ms;
     Some \<lparr>cf_MonFiles = files, cf_Monitors = monitors, cf_KeyDB = kdb, cf_Notifications = notifications, cf_Web = web,
       cf_StaleAlert = stale, cf_DecisionService = decision, cf_Processes = processes, cf_JSONExcludes = jsonExcludes,
       cf_AlertDedup = dedup, cf_Pipeline = pipeline, cf_IncidentAggregation = incidents\<rparr> }"

section \<open>The secrets file\<close>

record secretConfig =
  sc_KeyDBPassword :: string
  sc_DecisionToken :: string
  sc_PrimaryURL :: string
  sc_SecondaryURL :: string
  sc_WebTokens :: "string list"
  sc_WebAPITokens :: "string list"

definition zero_secretConfig :: secretConfig where
  "zero_secretConfig = \<lparr>sc_KeyDBPassword = [], sc_DecisionToken = [], sc_PrimaryURL = [], sc_SecondaryURL = [],
     sc_WebTokens = [], sc_WebAPITokens = []\<rparr>"

text \<open>The four nested objects of the file, each decoded into its part of the record.\<close>

definition dec_secretConfig :: "secretConfig \<Rightarrow> (string \<times> json) list \<Rightarrow> secretConfig option" where
  "dec_secretConfig c ms = do {
     password \<leftarrow> json_field (dec_struct (str_field ''password'')) ''keydb'' (sc_KeyDBPassword c) ms;
     token \<leftarrow> json_field (dec_struct (str_field ''token'')) ''decision_service'' (sc_DecisionToken c) ms;
     urls \<leftarrow> json_field (dec_struct (\<lambda>(p, s) ms. do {
         p' \<leftarrow> str_field ''primary_url'' p ms; s' \<leftarrow> str_field ''secondary_url'' s ms; Some (p', s') }))
       ''notifications'' (sc_PrimaryURL c, sc_SecondaryURL c) ms;
     tokens \<leftarrow> json_field (dec_struct (\<lambda>(t, a) ms. do {
         t' \<leftarrow> strs_field ''tokens'' t ms; a' \<leftarrow> strs_field ''api_tokens'' a ms; Some (t', a') }))
       ''web'' (sc_WebTokens c, sc_WebAPITokens c) ms;
     Some \<lparr>sc_KeyDBPassword = password, sc_DecisionToken = token, sc_PrimaryURL = fst urls, sc_SecondaryURL = snd urls,
       sc_WebTokens = fst tokens, sc_WebAPITokens = snd tokens\<rparr> }"

text \<open>\<open>json.Unmarshal\<close> into a struct: \<open>null\<close> leaves it as it is.\<close>

definition unmarshal_struct :: "('a \<Rightarrow> (string \<times> json) list \<Rightarrow> 'a option) \<Rightarrow> 'a \<Rightarrow> string \<Rightarrow> 'a option" where
  "unmarshal_struct dec zero d = Option.bind (json_unmarshal d) (dec_struct dec zero)"

definition overlay_secrets :: "secretConfig \<Rightarrow> Config \<Rightarrow> Config" where
  "overlay_secrets s cfg =
     (let kdb = cf_KeyDB cfg; ds = cf_DecisionService cfg; nc = cf_Notifications cfg; wc = cf_Web cfg;
          kdb' = (if sc_KeyDBPassword s \<noteq> '''' then kdb\<lparr>kc_Password := sc_KeyDBPassword s\<rparr> else kdb);
          ds' = (if sc_DecisionToken s \<noteq> '''' then ds\<lparr>ds_Token := sc_DecisionToken s\<rparr> else ds);
          nc1 = (if sc_PrimaryURL s \<noteq> '''' then nc\<lparr>nc_PrimaryURL := sc_PrimaryURL s\<rparr> else nc);
          nc2 = (if sc_SecondaryURL s \<noteq> '''' then nc1\<lparr>nc_SecondaryURL := sc_SecondaryURL s\<rparr> else nc1);
          wc1 = (if 0 < length (sc_WebTokens s) then wc\<lparr>wc_Tokens := sc_WebTokens s\<rparr> else wc);
          wc2 = (if 0 < length (sc_WebAPITokens s) then wc1\<lparr>wc_APITokens := sc_WebAPITokens s\<rparr> else wc1)
      in cfg\<lparr>cf_KeyDB := kdb', cf_DecisionService := ds', cf_Notifications := nc2, cf_Web := wc2\<rparr>)"

definition applySecretsFile :: "go_error option \<Rightarrow> files \<Rightarrow> string \<Rightarrow> Config \<Rightarrow> Config result" where
  "applySecretsFile fate fs path cfg =
     (case os_ReadFile fate path fs of
        Inl e \<Rightarrow> Inl (ErrWrap (''read secrets file '' @ path) e)
      | Inr d \<Rightarrow>
          (case unmarshal_struct dec_secretConfig zero_secretConfig d of
             None \<Rightarrow> Inl (ErrWrap (''decode secrets file '' @ path) json_error)
           | Some s \<Rightarrow> Inr (overlay_secrets s cfg)))"

definition defaultSecretsPath :: string where
  "defaultSecretsPath = ''/etc/clattermark/secrets.json''"

text \<open>
  \<open>readConfig\<close>: \<open>env\<close> is the environment variable \<open>CLATTERMARK_SECRETS_FILE\<close>, the fates are those of
  the two reads.
\<close>

definition readConfig ::
  "(string \<Rightarrow> rat option) \<Rightarrow> string option \<Rightarrow> go_error option \<Rightarrow> go_error option \<Rightarrow> files \<Rightarrow> string \<Rightarrow> Config result" where
  "readConfig parse_float env fate1 fate2 fs path =
     (case os_ReadFile fate1 path fs of
        Inl e \<Rightarrow> Inl e
      | Inr d \<Rightarrow>
          (case unmarshal_struct (dec_Config parse_float) zero_Config d of
             None \<Rightarrow> Inl json_error
           | Some cfg \<Rightarrow>
               let secretsPath = (case env of Some p \<Rightarrow> p | None \<Rightarrow> defaultSecretsPath)
               in (case applySecretsFile fate2 fs secretsPath cfg of
                     Inr cfg' \<Rightarrow> Inr cfg'
                   | Inl e \<Rightarrow> if errors_Is e ErrNotExist then Inr cfg else Inl e)))"

section \<open>Compilation\<close>

record monitor =
  m_name :: string
  m_search :: regex
  m_excludes :: "string list"

fun compile_monitors ::
  "(string \<Rightarrow> regex result) \<Rightarrow> (string \<Rightarrow> string) \<Rightarrow> (string, MonitorConfig) gomap \<Rightarrow> string list \<Rightarrow> monitor list result" where
  "compile_monitors compile quote configs [] = Inr []"
| "compile_monitors compile quote configs (name # names) =
     (let cfg = lookup_or zero_MonitorConfig (map_of configs) name
      in if TrimSpace (mc_Search cfg) = ''''
         then Inl (ErrText (''monitor '' @ quote name @ '': search is required''))
         else (case compile (mc_Search cfg) of
                 Inl e \<Rightarrow> Inl (ErrWrap (''monitor '' @ quote name @ '': invalid search regex'') e)
               | Inr search \<Rightarrow>
                   (case compile_monitors compile quote configs names of
                      Inl e \<Rightarrow> Inl e
                    | Inr ms \<Rightarrow> Inr (\<lparr>m_name = name, m_search = search, m_excludes = mc_Excludes cfg\<rparr> # ms))))"

definition compileMonitors ::
  "(string \<Rightarrow> regex result) \<Rightarrow> (string \<Rightarrow> string) \<Rightarrow> (string, MonitorConfig) gomap \<Rightarrow> monitor list result" where
  "compileMonitors compile quote configs = compile_monitors compile quote configs (sort_Strings (map fst configs))"

text \<open>An invalid process exclude is logged and skipped.\<close>

fun compileProcessExcludes :: "(string \<Rightarrow> regex result) \<Rightarrow> string list \<Rightarrow> regex list" where
  "compileProcessExcludes compile [] = []"
| "compileProcessExcludes compile (p # ps) =
     (case compile p of Inl e \<Rightarrow> compileProcessExcludes compile ps | Inr re \<Rightarrow> re # compileProcessExcludes compile ps)"

section \<open>The start-up load of the dynamic excludes\<close>

text \<open>\<open>1 << n\<close> on an \<open>int\<close>.\<close>

definition shl1 :: "nat \<Rightarrow> int" where
  "shl1 n = wrap64 (2 ^ n)"

text \<open>
  The loop over the attempts: \<open>n\<close> attempts are left, \<open>sched\<close> gives what other clients do before each
  attempt and the circumstances of its request. The result comes with the delays slept, in order.
\<close>

fun load_attempts ::
  "('q \<Rightarrow> int \<Rightarrow> 'r \<Rightarrow> excludes result \<times> 'r) \<Rightarrow> duration \<Rightarrow> (nat \<Rightarrow> ('r \<Rightarrow> 'r) \<times> 'q \<times> int) \<Rightarrow> nat \<Rightarrow> nat
     \<Rightarrow> go_error option \<Rightarrow> 'r \<Rightarrow> (excludes, go_error option) sum \<times> duration list \<times> 'r" where
  "load_attempts get initialDelay sched attempt 0 err st = (Inr err, [], st)"
| "load_attempts get initialDelay sched attempt (Suc n) err st =
     (let (f, q, now) = sched attempt; (a, st') = get q now (f st)
      in case a of
           Inr m \<Rightarrow> (Inl m, [], st')
         | Inl e \<Rightarrow>
             (let delay = wrap64 (initialDelay * shl1 (attempt - 1));
                  (r, delays, st'') = load_attempts get initialDelay sched (Suc attempt) n (Some e) st'
              in (r, if 0 < n then delay # delays else delays, st'')))"

definition loadDynamicExcludes ::
  "('q \<Rightarrow> int \<Rightarrow> 'r \<Rightarrow> excludes result \<times> 'r) \<Rightarrow> int \<Rightarrow> duration \<Rightarrow> (nat \<Rightarrow> ('r \<Rightarrow> 'r) \<times> 'q \<times> int)
     \<Rightarrow> 'r \<Rightarrow> excludes result \<times> duration list \<times> 'r" where
  "loadDynamicExcludes get attempts initialDelay sched st =
     (case load_attempts get initialDelay sched 1 (nat attempts) None st of
        (Inl m, delays, st') \<Rightarrow> (Inr m, delays, st')
      | (Inr err, delays, st') \<Rightarrow>
          (Inl (let msg = ''keydb unavailable after '' @ Itoa attempts @ '' attempts''
                in case err of None \<Rightarrow> ErrText msg | Some e \<Rightarrow> ErrWrap msg e), delays, st'))"

section \<open>Properties\<close>

text \<open>The answers that the attempts would get, were there no success before.\<close>

fun attempt_answers ::
  "('q \<Rightarrow> int \<Rightarrow> 'r \<Rightarrow> excludes result \<times> 'r) \<Rightarrow> (nat \<Rightarrow> ('r \<Rightarrow> 'r) \<times> 'q \<times> int) \<Rightarrow> nat \<Rightarrow> nat \<Rightarrow> 'r \<Rightarrow> excludes result list" where
  "attempt_answers get sched attempt 0 st = []"
| "attempt_answers get sched attempt (Suc n) st =
     (let (f, q, now) = sched attempt; (a, st') = get q now (f st) in a # attempt_answers get sched (Suc attempt) n st')"

lemma compile_monitors_ok:
  "compile_monitors compile quote configs names = Inr ms \<longleftrightarrow>
     map m_name ms = names \<and>
     (\<forall>m \<in> set ms. let cfg = lookup_or zero_MonitorConfig (map_of configs) (m_name m)
        in TrimSpace (mc_Search cfg) \<noteq> '''' \<and> compile (mc_Search cfg) = Inr (m_search m) \<and> m_excludes m = mc_Excludes cfg)"
proof (induction names arbitrary: ms)
  case (Cons name names)
  show ?case
  proof (cases ms)
    case Nil
    then show ?thesis by (auto simp: Let_def split: sum.splits)
  next
    case (Cons m ms')
    have "m = \<lparr>m_name = name, m_search = s, m_excludes = e\<rparr> \<longleftrightarrow> m_name m = name \<and> m_search m = s \<and> m_excludes m = e" for s e
      by (cases m) auto
    with Cons Cons.IH [of ms'] show ?thesis
      by (auto simp: Let_def split: sum.splits)
  qed
qed auto

lemma compile_monitors_error:
  "compile_monitors compile quote configs names = Inl e \<Longrightarrow>
   \<exists>name \<in> set names. let cfg = lookup_or zero_MonitorConfig (map_of configs) name
     in TrimSpace (mc_Search cfg) = '''' \<or> isl (compile (mc_Search cfg))"
  by (induction names arbitrary: e) (auto simp: Let_def split: if_splits sum.splits)

text \<open>
  The configured monitors are compiled all or not at all. On success there is one monitor per
  configured name, in increasing order of the names, with its compiled search and its excludes; the
  only failures are a blank search and a search that does not compile.
\<close>

theorem compileMonitors_spec:
  assumes "wf_map configs"
  shows "case compileMonitors compile quote configs of
      Inr ms \<Rightarrow> sorted (map m_name ms) \<and> distinct (map m_name ms) \<and> set (map m_name ms) = fst ` set configs
        \<and> (\<forall>m \<in> set ms. \<exists>cfg. (m_name m, cfg) \<in> set configs \<and> TrimSpace (mc_Search cfg) \<noteq> ''''
             \<and> compile (mc_Search cfg) = Inr (m_search m) \<and> m_excludes m = mc_Excludes cfg)
    | Inl e \<Rightarrow> \<exists>(name, cfg) \<in> set configs. TrimSpace (mc_Search cfg) = '''' \<or> isl (compile (mc_Search cfg))"
proof -
  have mem: "(name, lookup_or zero_MonitorConfig (map_of configs) name) \<in> set configs" if "name \<in> fst ` set configs" for name
    using assms that by (auto simp: lookup_or_def wf_map_mem_iff split: option.splits)
  show ?thesis
  proof (cases "compileMonitors compile quote configs")
    case (Inl e)
    then have "\<exists>name \<in> fst ` set configs. let cfg = lookup_or zero_MonitorConfig (map_of configs) name
        in TrimSpace (mc_Search cfg) = '''' \<or> isl (compile (mc_Search cfg))"
      using compile_monitors_error unfolding compileMonitors_def by fastforce
    with mem Inl show ?thesis by (fastforce simp: Let_def)
  next
    case (Inr ms)
    then have names: "map m_name ms = sort_Strings (map fst configs)"
      and each: "\<forall>m \<in> set ms. let cfg = lookup_or zero_MonitorConfig (map_of configs) (m_name m)
        in TrimSpace (mc_Search cfg) \<noteq> '''' \<and> compile (mc_Search cfg) = Inr (m_search m) \<and> m_excludes m = mc_Excludes cfg"
      by (simp_all add: compileMonitors_def compile_monitors_ok)
    have "set (map m_name ms) = fst ` set configs" "distinct (map m_name ms)" "sorted (map m_name ms)"
      using names assms by (simp_all add: wf_map_def)
    moreover have "\<exists>cfg. (m_name m, cfg) \<in> set configs \<and> TrimSpace (mc_Search cfg) \<noteq> ''''
        \<and> compile (mc_Search cfg) = Inr (m_search m) \<and> m_excludes m = mc_Excludes cfg" if "m \<in> set ms" for m
    proof (intro exI conjI)
      show "(m_name m, lookup_or zero_MonitorConfig (map_of configs) (m_name m)) \<in> set configs"
        using calculation(1) that by (intro mem) (metis image_eqI set_map)
    qed (use each that in \<open>auto simp: Let_def\<close>)
    ultimately show ?thesis using Inr by simp
  qed
qed

lemma TrimSpace_word: "ascii s \<Longrightarrow> s \<noteq> [] \<Longrightarrow> \<not> is_space (byte (hd s)) \<Longrightarrow> TrimSpace s \<noteq> []"
proof -
  assume s: "ascii s" "s \<noteq> []" "\<not> is_space (byte (hd s))"
  then obtain c cs where c: "s = c # cs" by (cases s) auto
  have last: "\<not> P y \<Longrightarrow> y \<in> set (dropWhile P (xs @ [y]))" for P y and xs :: "rune list"
    by (induction xs) auto
  have "(byte c, [c]) \<in> set (trim_space_runes (decode_runes s))"
    using s last [of "\<lambda>(r, _). is_space r" "(byte c, [c])"]
    by (simp add: c trim_space_runes_def decode_runes_ascii)
  then show "TrimSpace s \<noteq> []" by (force simp: TrimSpace_def runes_string_def)
qed

theorem compileMonitors_spec_witness:
  "compileMonitors (\<lambda>_. Inr REmpty) id [(''b'', \<lparr>mc_Search = ''x'', mc_Excludes = []\<rparr>), (''a'', \<lparr>mc_Search = ''y'', mc_Excludes = []\<rparr>)]
   = Inr [\<lparr>m_name = ''a'', m_search = REmpty, m_excludes = []\<rparr>, \<lparr>m_name = ''b'', m_search = REmpty, m_excludes = []\<rparr>]
   \<and> sorted [''a'', ''b'']"
proof -
  let ?c = "[(''b'', \<lparr>mc_Search = ''x'', mc_Excludes = []\<rparr>), (''a'', \<lparr>mc_Search = ''y'', mc_Excludes = []\<rparr>)]"
  have trim: "TrimSpace ''x'' \<noteq> []" "TrimSpace ''y'' \<noteq> []"
    by (rule TrimSpace_word; simp add: ascii_def byte_def is_space_def)+
  have "sort_Strings [''b'', ''a''] = [''a'', ''b'']" by (simp add: sort_Strings_def less_eq_list_code)
  then have eq: "compileMonitors (\<lambda>_. Inr REmpty) id ?c
      = Inr [\<lparr>m_name = ''a'', m_search = REmpty, m_excludes = []\<rparr>, \<lparr>m_name = ''b'', m_search = REmpty, m_excludes = []\<rparr>]"
    using trim by (simp add: compileMonitors_def lookup_or_def)
  have "wf_map ?c" by (simp add: wf_map_def)
  from compileMonitors_spec [OF this, of "\<lambda>_. Inr REmpty" id] eq show ?thesis by (simp only: eq sum.case) simp
qed

text \<open>
  The secrets overlay exactly what they set: when the configuration file is readable and decodes,
  \<open>readConfig\<close> fails only for a secrets file that exists but cannot be read or decoded; without one it
  returns the configuration as it is, and with one every secret that is set replaces the configured
  value and every other value is the configured one.
\<close>

theorem readConfig_secrets:
  assumes "os_ReadFile fate1 path fs = Inr d" and "unmarshal_struct (dec_Config pf) zero_Config d = Some cfg"
    and "sp = (case env of Some p \<Rightarrow> p | None \<Rightarrow> defaultSecretsPath)"
  shows "readConfig pf env fate1 fate2 fs path =
    (case os_ReadFile fate2 sp fs of
       Inl e \<Rightarrow> if errors_Is e ErrNotExist then Inr cfg else Inl (ErrWrap (''read secrets file '' @ sp) e)
     | Inr raw \<Rightarrow>
         (case unmarshal_struct dec_secretConfig zero_secretConfig raw of
            None \<Rightarrow> Inl (ErrWrap (''decode secrets file '' @ sp) json_error)
          | Some s \<Rightarrow> Inr (overlay_secrets s cfg)))
    \<and> (\<forall>s. kc_Password (cf_KeyDB (overlay_secrets s cfg))
          = (if sc_KeyDBPassword s = '''' then kc_Password (cf_KeyDB cfg) else sc_KeyDBPassword s)
      \<and> ds_Token (cf_DecisionService (overlay_secrets s cfg))
          = (if sc_DecisionToken s = '''' then ds_Token (cf_DecisionService cfg) else sc_DecisionToken s)
      \<and> wc_Tokens (cf_Web (overlay_secrets s cfg)) = (if sc_WebTokens s = [] then wc_Tokens (cf_Web cfg) else sc_WebTokens s)
      \<and> wc_APITokens (cf_Web (overlay_secrets s cfg)) = (if sc_WebAPITokens s = [] then wc_APITokens (cf_Web cfg) else sc_WebAPITokens s)
      \<and> nc_PrimaryURL (cf_Notifications (overlay_secrets s cfg))
          = (if sc_PrimaryURL s = '''' then nc_PrimaryURL (cf_Notifications cfg) else sc_PrimaryURL s)
      \<and> nc_SecondaryURL (cf_Notifications (overlay_secrets s cfg))
          = (if sc_SecondaryURL s = '''' then nc_SecondaryURL (cf_Notifications cfg) else sc_SecondaryURL s)
      \<and> cf_Monitors (overlay_secrets s cfg) = cf_Monitors cfg \<and> kc_Host (cf_KeyDB (overlay_secrets s cfg)) = kc_Host (cf_KeyDB cfg))"
proof -
  have wrap: "errors_Is (ErrWrap m e) ErrNotExist \<longleftrightarrow> errors_Is e ErrNotExist" for m e by simp
  have "\<not> errors_Is (ErrWrap m json_error) ErrNotExist" for m by (simp add: json_error_def)
  then show ?thesis
    using assms
    by (auto simp: readConfig_def applySecretsFile_def overlay_secrets_def Let_def wrap simp del: errors_Is.simps
        split: sum.splits option.splits)
qed

theorem readConfig_secrets_witness:
  "readConfig (\<lambda>_. None) (Some ''/s'') None None [''/c'' \<mapsto> ''null''] ''/c'' = Inr zero_Config"
proof -
  have "json_unmarshal ''null'' = Some JNull"
    using json_unmarshal_print [of JNull False 0] by simp
  then have "unmarshal_struct (dec_Config (\<lambda>_. None)) zero_Config ''null'' = Some zero_Config"
    by (simp add: unmarshal_struct_def dec_struct_def)
  from readConfig_secrets [OF _ this refl, of None "''/c''" "[''/c'' \<mapsto> ''null'']" "Some ''/s''" None]
  show ?thesis by (simp add: os_ReadFile_def)
qed

lemma shl1_small: "n < 63 \<Longrightarrow> shl1 n = 2 ^ n"
proof -
  assume n: "n < 63"
  have "(2 :: int) ^ n \<le> 2 ^ 62" using n by (intro power_increasing) auto
  then have "(2 :: int) ^ n \<le> 4611686018427387904" by simp
  moreover have "0 \<le> (2 :: int) ^ n" by simp
  ultimately show ?thesis unfolding shl1_def by (intro wrap64_small) linarith+
qed

lemma load_attempts_spec:
  assumes "load_attempts get d sched a n err st = (r, delays, st')"
    and "\<forall>k < a + n. 0 < k \<longrightarrow> in_int64 (d * 2 ^ (k - 1))" and "0 < a" and "a + n \<le> 63"
  shows "(case r of Inl m \<Rightarrow> \<exists>k < n. attempt_answers get sched a n st ! k = Inr m
            \<and> (\<forall>i < k. isl (attempt_answers get sched a n st ! i)) \<and> delays = map (\<lambda>i. d * 2 ^ (a + i - 1)) [0..<k]
       | Inr e \<Rightarrow> (\<forall>i < n. isl (attempt_answers get sched a n st ! i))
            \<and> delays = map (\<lambda>i. d * 2 ^ (a + i - 1)) [0..<n - 1]
            \<and> e = (if n = 0 then err else Some (projl (attempt_answers get sched a n st ! (n - 1)))))"
  using assms
proof (induction get d sched a n err st arbitrary: r delays st' rule: load_attempts.induct)
  case (2 get d sched a n err st)
  obtain f q now where s: "sched a = (f, q, now)" by (metis prod.exhaust)
  obtain x st1 where g: "get q now (f st) = (x, st1)" by fastforce
  show ?case
  proof (cases x)
    case (Inr m)
    with 2 s g show ?thesis by (auto intro!: exI [of _ 0])
  next
    case (Inl e)
    obtain r1 ds1 st2 where l: "load_attempts get d sched (Suc a) n (Some e) st1 = (r1, ds1, st2)" by (metis prod.exhaust)
    have delay: "wrap64 (d * shl1 (a - 1)) = d * 2 ^ (a - 1)"
      using 2(3,4,5) by (simp add: shl1_small)
    have r: "r = r1" "delays = (if 0 < n then d * 2 ^ (a - 1) # ds1 else ds1)"
      using 2(2) s g Inl l by (auto simp: Let_def delay [simplified])
    have IH: "case r1 of Inl m \<Rightarrow> \<exists>k < n. attempt_answers get sched (Suc a) n st1 ! k = Inr m
            \<and> (\<forall>i < k. isl (attempt_answers get sched (Suc a) n st1 ! i)) \<and> ds1 = map (\<lambda>i. d * 2 ^ (Suc a + i - 1)) [0..<k]
       | Inr e' \<Rightarrow> (\<forall>i < n. isl (attempt_answers get sched (Suc a) n st1 ! i))
            \<and> ds1 = map (\<lambda>i. d * 2 ^ (Suc a + i - 1)) [0..<n - 1]
            \<and> e' = (if n = 0 then Some e else Some (projl (attempt_answers get sched (Suc a) n st1 ! (n - 1))))"
      using 2(1) [OF refl s [symmetric] refl refl g [symmetric] Inl refl l] 2(3,5) by auto
    have shift: "map (\<lambda>i. d * 2 ^ (a + i - 1)) [0..<Suc k] = d * 2 ^ (a - 1) # map (\<lambda>i. d * 2 ^ (Suc a + i - 1)) [0..<k]" for k
      by (simp add: upt_conv_Cons map_Suc_upt [symmetric] comp_def del: upt_Suc)
    have ans: "attempt_answers get sched a (Suc n) st = Inl e # attempt_answers get sched (Suc a) n st1"
      using s g Inl by simp
    show ?thesis
    proof (cases r1)
      case (Inl m)
      with IH obtain k where k: "k < n" "attempt_answers get sched (Suc a) n st1 ! k = Inr m"
        "\<forall>i < k. isl (attempt_answers get sched (Suc a) n st1 ! i)" "ds1 = map (\<lambda>i. d * 2 ^ (Suc a + i - 1)) [0..<k]" by auto
      have "\<forall>i < Suc k. isl (attempt_answers get sched a (Suc n) st ! i)"
        using k(3) ans by (auto simp: less_Suc_eq_0_disj)
      moreover have "attempt_answers get sched a (Suc n) st ! Suc k = Inr m" "Suc k < Suc n"
        using k(1,2) ans by simp_all
      moreover have "delays = map (\<lambda>i. d * 2 ^ (a + i - 1)) [0..<Suc k]"
        using r(2) k(1,4) shift [of k] by (simp del: upt_Suc)
      ultimately show ?thesis unfolding r(1) Inl sum.case by blast
    next
      case (Inr e')
      have "\<forall>i < Suc n. isl (attempt_answers get sched a (Suc n) st ! i)"
        using IH Inr ans by (auto simp: less_Suc_eq_0_disj)
      moreover have "delays = map (\<lambda>i. d * 2 ^ (a + i - 1)) [0..<Suc n - 1]"
        using IH Inr r shift [of "n - 1"] by (cases n) simp_all
      ultimately show ?thesis using IH Inr r ans by (cases n) auto
    qed
  qed
qed simp

text \<open>
  C36. The start-up load is bounded: of its at most \<open>attempts\<close> requests it returns the first answer, it
  fails only when every request failed, and between two requests it sleeps \<open>d\<close>, \<open>2 d\<close>, \<open>4 d\<close>, ...
  The program makes 5 attempts with \<open>d\<close> one second.
\<close>

theorem loadDynamicExcludes_bounded:
  assumes "loadDynamicExcludes get attempts d sched st = (r, delays, st')"
    and "0 \<le> attempts" and "attempts \<le> 62" and "\<forall>k < nat attempts. in_int64 (d * 2 ^ k)"
  shows "\<exists>n \<le> nat attempts. delays = map (\<lambda>i. d * 2 ^ i) [0..<n]
    \<and> (case r of
         Inr m \<Rightarrow> n < nat attempts \<and> attempt_answers get sched 1 (nat attempts) st ! n = Inr m
           \<and> (\<forall>i < n. isl (attempt_answers get sched 1 (nat attempts) st ! i))
       | Inl e \<Rightarrow> n = nat attempts - 1 \<and> (\<forall>i < nat attempts. isl (attempt_answers get sched 1 (nat attempts) st ! i)))"
proof -
  obtain r1 ds st1 where l: "load_attempts get d sched 1 (nat attempts) None st = (r1, ds, st1)" by (metis prod.exhaust)
  have dl: "delays = ds" using assms(1) l by (auto simp: loadDynamicExcludes_def split: sum.splits)
  have pre: "\<forall>k < 1 + nat attempts. 0 < k \<longrightarrow> in_int64 (d * 2 ^ (k - 1))" "1 + nat attempts \<le> 63"
    using assms(3,4) by auto
  note spec = load_attempts_spec [OF l pre(1) _ pre(2)]
  show ?thesis
  proof (cases r1)
    case (Inl m)
    then have r: "r = Inr m" using assms(1) l by (simp add: loadDynamicExcludes_def)
    from spec Inl dl obtain k where "k < nat attempts" "delays = map (\<lambda>i. d * 2 ^ i) [0..<k]"
      "attempt_answers get sched 1 (nat attempts) st ! k = Inr m"
      "\<forall>i < k. isl (attempt_answers get sched 1 (nat attempts) st ! i)" by auto
    then show ?thesis unfolding r by (intro exI [of _ k]) simp
  next
    case (Inr e)
    then obtain e' where "r = Inl e'" using assms(1) l by (auto simp: loadDynamicExcludes_def)
    with spec Inr dl show ?thesis by (intro exI [of _ "nat attempts - 1"]) auto
  qed
qed

theorem loadDynamicExcludes_bounded_witness:
  "loadDynamicExcludes (\<lambda>q now st. (if st < (2 :: nat) then Inl net_error else Inr [], Suc st)) 5 Second (\<lambda>_. (id, (), 0)) 0
     = (Inr [], [Second, 2 * Second], 3)
   \<and> (\<exists>n \<le> 5. [Second, 2 * Second] = map (\<lambda>i. Second * 2 ^ i) [0..<n])"
proof -
  let ?get = "\<lambda>q now st. (if st < (2 :: nat) then Inl net_error else Inr [], Suc st)"
  have l: "loadDynamicExcludes ?get 5 Second (\<lambda>_. (id, (), 0)) 0 = (Inr [], [Second, 2 * Second], 3)"
    by (simp add: loadDynamicExcludes_def numeral_eq_Suc [of "num.Bit1 (num.Bit0 num.One)"] shl1_def Second_def wrap64_small
        numeral_eq_Suc)
  have "in_int64 (Second * 2 ^ k)" if "k < 5" for k :: nat
  proof -
    have "(2 :: int) ^ k \<le> 2 ^ 5" using that by (intro power_increasing) auto
    then have "(2 :: int) ^ k \<le> 32" by simp
    moreover have "0 \<le> (2 :: int) ^ k" by simp
    ultimately have "- 9223372036854775808 \<le> Second * 2 ^ k \<and> Second * 2 ^ k \<le> 9223372036854775807"
      unfolding Second_def by linarith
    then show ?thesis by (simp add: int64_defs)
  qed
  then show ?thesis using loadDynamicExcludes_bounded [OF l] l by auto
qed

end
