(* ===== verification/Http_Client.thy ===== *)
theory Http_Client
  imports Go_Http
begin

text \<open>
  The HTTP client and \<open>net/url\<close> as the program uses them. The network is a parameter: \<open>http_Do\<close> sends
  one request in a state of the world and returns the reply or an error; parsing a URL and printing it
  are the functions \<open>url_Parse\<close> and \<open>url_String\<close>. \<open>recording\<close> keeps the requests of any network in a log.
\<close>

record go_url =
  u_Scheme :: string
  u_Host :: string
  u_Path :: string
  u_RawPath :: string
  u_RawQuery :: string
  u_Fragment :: string
  u_Userinfo :: string

record http_request =
  rq_method :: string
  rq_url :: string
  rq_headers :: "(string \<times> string) list"
  rq_body :: string
  rq_timeout :: duration

text \<open>
  A reply whose body delivers \<open>rp_body\<close> and then, when the connection breaks, the error \<open>rp_read_error\<close>.
  \<open>rp_status_text\<close> is \<open>resp.Status\<close>.
\<close>

record http_reply =
  rp_status :: int
  rp_status_text :: string
  rp_body :: string
  rp_read_error :: "go_error option"

record 'w http_env =
  url_Parse :: "string \<Rightarrow> go_url option"
  url_String :: "go_url \<Rightarrow> string"
  http_Do :: "http_request \<Rightarrow> 'w \<Rightarrow> http_reply result \<times> 'w"

definition recording :: "'w http_env \<Rightarrow> (http_request list \<times> 'w) http_env" where
  "recording env =
     \<lparr>url_Parse = url_Parse env, url_String = url_String env,
      http_Do = (\<lambda>req (sent, w). let (r, w') = http_Do env req w in (r, sent @ [req], w'))\<rparr>"

definition status_ok :: "int \<Rightarrow> bool" where
  "status_ok code \<longleftrightarrow> 200 \<le> code \<and> code < 300"

text \<open>\<open>json.NewDecoder(body).Decode\<close> into a struct: the first value of the body.\<close>

definition decode_body ::
  "('a \<Rightarrow> (string \<times> json) list \<Rightarrow> 'a option) \<Rightarrow> 'a \<Rightarrow> string \<Rightarrow> go_error option \<Rightarrow> 'a result" where
  "decode_body dec zero body read_error =
     (case json_decode body of
        None \<Rightarrow> Inl (case read_error of Some e \<Rightarrow> e | None \<Rightarrow> ErrText ''json: invalid value'')
      | Some j \<Rightarrow> (case dec_struct dec zero j of None \<Rightarrow> Inl (ErrText ''json: cannot unmarshal'') | Some a \<Rightarrow> Inr a))"

text \<open>The text of an error.\<close>

fun error_text :: "go_error \<Rightarrow> string" where
  "error_text (ErrText s) = s"
| "error_text (ErrWrap m e) = m @ '': '' @ error_text e"
| "error_text ErrRedisNil = ''redis: nil''"
| "error_text ErrTxFailed = ''redis: transaction failed''"
| "error_text ErrWrongType = ''WRONGTYPE Operation against a key holding the wrong kind of value''"
| "error_text ErrNotInteger = ''ERR value is not an integer or out of range''"
| "error_text ErrNotExist = ''file does not exist''"
| "error_text ErrDeadlineExceeded = ''context deadline exceeded''"
| "error_text (ErrDecisionHTTP s) = ''decision service returned '' @ Itoa s"
| "error_text (GoPanic s) = s"

text \<open>Optional members of a JSON object (\<open>omitempty\<close>).\<close>

definition opt_member :: "bool \<Rightarrow> string \<Rightarrow> json \<Rightarrow> (string \<times> json) list" where
  "opt_member present k j = (if present then [(k, j)] else [])"

text \<open>A \<open>map[string]string\<close>: the keys in increasing order.\<close>

definition str_map_json :: "(string, string) gomap \<Rightarrow> json" where
  "str_map_json m = JObj (map (\<lambda>k. (k, JStr (lookup_or [] (map_of m) k))) (sort_Strings (map fst m)))"

lemma no_num_str_map: "no_num (str_map_json m)"
  by (auto simp: str_map_json_def list_all_iff)

end
