(* ===== verification/Decision.thy ===== *)
theory Decision
  imports Config Http_Client
begin

text \<open>
  decision.go: the request to the decision service, how its answer or its failure becomes the decision
  to send an alert, and the cache that lets concurrent identical alerts share one request. The
  network is the environment of \<open>Http_Client\<close>; the shared flights are a step relation over threads.
\<close>

section \<open>The defaults\<close>

definition decisionFailOpen :: "DecisionServiceConfig \<Rightarrow> bool" where
  "decisionFailOpen cfg = (case ds_FailOpen cfg of None \<Rightarrow> True | Some b \<Rightarrow> b)"

definition decisionTimeout :: "DecisionServiceConfig \<Rightarrow> duration" where
  "decisionTimeout cfg =
     (if ds_TimeoutSeconds cfg \<le> 0 then 3 * Second else dur_mul (ds_TimeoutSeconds cfg) Second)"

definition decisionMinConfidence :: "DecisionServiceConfig \<Rightarrow> rat" where
  "decisionMinConfidence cfg = (if ds_MinConfidence cfg \<le> 0 then 3 / 4 else ds_MinConfidence cfg)"

definition decisionSource :: "DecisionServiceConfig \<Rightarrow> string" where
  "decisionSource cfg =
     (let source = TrimSpace (ds_Source cfg) in if source \<noteq> '''' then source else ''clattermark'')"

definition decisionLogHost :: "parsed_line \<Rightarrow> string" where
  "decisionLogHost parsed =
     (if parsed = None \<or> parsed_get parsed ''host'' = '''' then ''<unknown>'' else parsed_get parsed ''host'')"

section \<open>The request\<close>

record decisionRequest =
  dr_Kind :: string
  dr_Source :: string
  dr_Raw :: string
  dr_Formatted :: string
  dr_Parsed :: "(string, string) gomap"
  dr_Action :: string
  dr_Metadata :: "(string, string) gomap"
  dr_Timestamp :: string

text \<open>\<open>json.Marshal\<close> of the request; its timestamp is given as it prints.\<close>

definition decisionRequest_json :: "decisionRequest \<Rightarrow> json" where
  "decisionRequest_json r = JObj
     ([(''kind'', JStr (dr_Kind r)), (''source'', JStr (dr_Source r)),
       (''content'', JObj ([(''raw'', JStr (dr_Raw r)), (''formatted'', JStr (dr_Formatted r))]
          @ opt_member (dr_Parsed r \<noteq> []) ''parsed'' (str_map_json (dr_Parsed r)))),
       (''policy'', JObj [(''action'', JStr (dr_Action r))])]
      @ opt_member (dr_Metadata r \<noteq> []) ''metadata'' (str_map_json (dr_Metadata r))
      @ [(''timestamp'', JStr (dr_Timestamp r))])"

record decisionResponse =
  rs_Decision :: string
  rs_Confidence :: rat
  rs_Reason :: string
  rs_Summary :: string
  rs_TTLSeconds :: int
  rs_Fingerprint :: string

definition zero_decisionResponse :: decisionResponse where
  "zero_decisionResponse = \<lparr>rs_Decision = [], rs_Confidence = 0, rs_Reason = [], rs_Summary = [], rs_TTLSeconds = 0,
     rs_Fingerprint = []\<rparr>"

definition dec_decisionResponse ::
  "(string \<Rightarrow> rat option) \<Rightarrow> decisionResponse \<Rightarrow> (string \<times> json) list \<Rightarrow> decisionResponse option" where
  "dec_decisionResponse parse_float c ms = do {
     decision \<leftarrow> str_field ''decision'' (rs_Decision c) ms;
     confidence \<leftarrow> json_field (dec_float parse_float) ''confidence'' (rs_Confidence c) ms;
     reason \<leftarrow> str_field ''reason'' (rs_Reason c) ms;
     summary \<leftarrow> str_field ''summary'' (rs_Summary c) ms;
     ttl \<leftarrow> int_field ''ttl_seconds'' (rs_TTLSeconds c) ms;
     fingerprint \<leftarrow> str_field ''fingerprint'' (rs_Fingerprint c) ms;
     Some \<lparr>rs_Decision = decision, rs_Confidence = confidence, rs_Reason = reason, rs_Summary = summary,
       rs_TTLSeconds = ttl, rs_Fingerprint = fingerprint\<rparr> }"

definition requestDecision ::
  "(string \<Rightarrow> rat option) \<Rightarrow> 'w http_env \<Rightarrow> DecisionServiceConfig \<Rightarrow> decisionRequest \<Rightarrow> 'w
     \<Rightarrow> decisionResponse result \<times> 'w" where
  "requestDecision parse_float env cfg reqBody w =
     (if url_Parse env (ds_URL cfg) = None
      then (Inl (ErrWrap ''create decision request'' (ErrText ''invalid URL'')), w)
      else
        (case http_Do env
            \<lparr>rq_method = ''POST'', rq_url = ds_URL cfg,
             rq_headers = (''Content-Type'', ''application/json'')
               # (if ds_Token cfg \<noteq> '''' then [(''Authorization'', ''Bearer '' @ ds_Token cfg)] else []),
             rq_body = Marshal (decisionRequest_json reqBody), rq_timeout = decisionTimeout cfg\<rparr> w of
           (Inl e, w') \<Rightarrow> (Inl (ErrWrap ''send decision request'' e), w')
         | (Inr resp, w') \<Rightarrow>
             (if rp_status resp < 200 \<or> 300 \<le> rp_status resp then Inl (ErrDecisionHTTP (rp_status resp))
              else (case decode_body (dec_decisionResponse parse_float) zero_decisionResponse
                         (rp_body resp) (rp_read_error resp) of
                      Inl e \<Rightarrow> Inl (ErrWrap ''decode decision response'' e)
                    | Inr d \<Rightarrow>
                        if rs_Decision d \<noteq> ''allow'' \<and> rs_Decision d \<noteq> ''deny''
                        then Inl (ErrText ''invalid decision'') else Inr d), w')))"

section \<open>The decision\<close>

record alertDecision =
  ad_Send :: bool
  ad_TTLSeconds :: int
  ad_ServiceFailed :: bool
  ad_Outcome :: string
  ad_Fingerprint :: string

text \<open>The fields that a composite literal leaves out are zero.\<close>

definition mk_decision :: "bool \<Rightarrow> bool \<Rightarrow> string \<Rightarrow> alertDecision" where
  "mk_decision sends failed outcome =
     \<lparr>ad_Send = sends, ad_TTLSeconds = 0, ad_ServiceFailed = failed, ad_Outcome = outcome, ad_Fingerprint = []\<rparr>"

definition error_outcome :: "go_error \<Rightarrow> string" where
  "error_outcome err =
     (if errors_Is err ErrDeadlineExceeded then ''timeout''
      else case errors_As_decisionHTTP err of
             Some status \<Rightarrow> if status = 429 then ''rate_limited'' else ''http_error''
           | None \<Rightarrow> ''request_error'')"

definition shouldSendByDecisionService ::
  "(string \<Rightarrow> rat option) \<Rightarrow> 'w http_env \<Rightarrow> string \<Rightarrow> DecisionServiceConfig \<Rightarrow> string \<Rightarrow> parsed_line \<Rightarrow> string \<Rightarrow> 'w
     \<Rightarrow> alertDecision \<times> 'w" where
  "shouldSendByDecisionService parse_float env timestamp cfg rawLine parsedLine formattedMessage w =
     (if \<not> ds_Enabled cfg then (mk_decision True False ''disabled'', w)
      else if ds_URL cfg = '''' then (mk_decision (decisionFailOpen cfg) True ''configuration_error'', w)
      else
        (let source = decisionSource cfg;
             reqBody = \<lparr>dr_Kind = ''log_alert'', dr_Source = source, dr_Raw = rawLine, dr_Formatted = formattedMessage,
               dr_Parsed = (case parsedLine of None \<Rightarrow> [] | Some m \<Rightarrow> m), dr_Action = ''send_alert'',
               dr_Metadata = [(''component'', source)], dr_Timestamp = timestamp\<rparr>
         in case requestDecision parse_float env cfg reqBody w of
              (Inl err, w') \<Rightarrow> (mk_decision (decisionFailOpen cfg) True (error_outcome err), w')
            | (Inr d, w') \<Rightarrow>
                (if rs_Decision d \<noteq> ''allow'' then mk_decision False False ''deny''
                 else if rs_Confidence d < decisionMinConfidence cfg then mk_decision False False ''low_confidence''
                 else \<lparr>ad_Send = True, ad_TTLSeconds = rs_TTLSeconds d, ad_ServiceFailed = False, ad_Outcome = ''allow'',
                       ad_Fingerprint = rs_Fingerprint d\<rparr>, w')))"

section \<open>The shared flights\<close>

text \<open>
  \<open>GetOrEvaluate\<close> runs in threads. Between two steps a thread has not started (\<open>Fresh\<close>), waits for the
  flight it joined, evaluates as the leader of its flight, or has returned a decision and whether it
  was cached. Each step is one critical section of the mutex, the evaluation lies between the two
  steps of a leader, and a flight with a decision is one whose channel is closed.
\<close>

datatype thread =
    Fresh string
  | Waiting string nat
  | Evaluating string nat
  | Returned string alertDecision bool

record flights =
  inflight :: "string \<rightharpoonup> nat"
  flight_decision :: "nat \<rightharpoonup> alertDecision"
  next_flight :: nat
  threads :: "thread list"

definition newDecisionCache :: "string list \<Rightarrow> flights" where
  "newDecisionCache keys =
     \<lparr>inflight = Map.empty, flight_decision = Map.empty, next_flight = 0, threads = map Fresh keys\<rparr>"

text \<open>The steps of thread \<open>i\<close>, None when it has to wait or has returned; \<open>d\<close> is what a leader's
  evaluation yields.\<close>

definition GetOrEvaluate_step :: "nat \<Rightarrow> alertDecision \<Rightarrow> flights \<Rightarrow> flights option" where
  "GetOrEvaluate_step i d s =
     (if i < length (threads s) then
        (case threads s ! i of
           Fresh key \<Rightarrow>
             (case inflight s key of
                Some f \<Rightarrow> Some (s\<lparr>threads := (threads s)[i := Waiting key f]\<rparr>)
              | None \<Rightarrow> Some (s\<lparr>inflight := (inflight s)(key \<mapsto> next_flight s), next_flight := Suc (next_flight s),
                               threads := (threads s)[i := Evaluating key (next_flight s)]\<rparr>))
         | Waiting key f \<Rightarrow>
             (case flight_decision s f of
                None \<Rightarrow> None
              | Some d' \<Rightarrow> Some (s\<lparr>threads := (threads s)[i := Returned key d' True]\<rparr>))
         | Evaluating key f \<Rightarrow>
             Some (s\<lparr>flight_decision := (flight_decision s)(f \<mapsto> d), inflight := (inflight s)(key := None),
                    threads := (threads s)[i := Returned key d False]\<rparr>)
         | Returned _ _ _ \<Rightarrow> None)
      else None)"

inductive flight_reach :: "string list \<Rightarrow> (string \<Rightarrow> alertDecision set) \<Rightarrow> flights \<Rightarrow> bool" for keys ev where
  reach_init: "flight_reach keys ev (newDecisionCache keys)"
| reach_step: "flight_reach keys ev s \<Longrightarrow> GetOrEvaluate_step i d s = Some s' \<Longrightarrow>
     (\<forall>key f. i < length (threads s) \<longrightarrow> threads s ! i = Evaluating key f \<longrightarrow> d \<in> ev key) \<Longrightarrow> flight_reach keys ev s'"

section \<open>The shared flights: properties\<close>

definition thread_at :: "flights \<Rightarrow> nat \<Rightarrow> thread \<Rightarrow> bool" where
  "thread_at s i t \<longleftrightarrow> i < length (threads s) \<and> threads s ! i = t"

text \<open>
  The invariant: a flight in the map is new, undecided and led by one thread, every leader's flight is
  in the map, a waiting thread's flight is in the map or decided, and every returned decision comes
  from a leader of the same key.
\<close>

definition inv_map :: "flights \<Rightarrow> bool" where
  "inv_map s \<longleftrightarrow> (\<forall>key f. inflight s key = Some f \<longrightarrow>
     f < next_flight s \<and> flight_decision s f = None \<and> Evaluating key f \<in> set (threads s))"

definition inv_leader :: "flights \<Rightarrow> bool" where
  "inv_leader s \<longleftrightarrow> (\<forall>i key f. thread_at s i (Evaluating key f) \<longrightarrow> inflight s key = Some f
     \<and> (\<forall>j key'. thread_at s j (Evaluating key' f) \<longrightarrow> j = i))"

definition inv_waiting :: "(string \<Rightarrow> alertDecision set) \<Rightarrow> flights \<Rightarrow> bool" where
  "inv_waiting ev s \<longleftrightarrow> (\<forall>key f. Waiting key f \<in> set (threads s) \<longrightarrow> f < next_flight s \<and>
     (inflight s key = Some f \<or>
      (\<exists>d. flight_decision s f = Some d \<and> d \<in> ev key \<and> Returned key d False \<in> set (threads s))))"

definition inv_fresh :: "flights \<Rightarrow> bool" where
  "inv_fresh s \<longleftrightarrow> (\<forall>f \<ge> next_flight s. flight_decision s f = None)"

definition inv_returned :: "(string \<Rightarrow> alertDecision set) \<Rightarrow> flights \<Rightarrow> bool" where
  "inv_returned ev s \<longleftrightarrow> (\<forall>key d c. Returned key d c \<in> set (threads s) \<longrightarrow>
     d \<in> ev key \<and> Returned key d False \<in> set (threads s))"

definition flights_inv :: "(string \<Rightarrow> alertDecision set) \<Rightarrow> flights \<Rightarrow> bool" where
  "flights_inv ev s \<longleftrightarrow> inv_map s \<and> inv_leader s \<and> inv_waiting ev s \<and> inv_fresh s \<and> inv_returned ev s"

lemmas inv_defs = inv_map_def inv_leader_def inv_waiting_def inv_fresh_def inv_returned_def

text \<open>What a step of thread \<open>i\<close> does to the threads.\<close>

lemma thread_moves:
  assumes "thread_at s i old" and "threads s' = (threads s)[i := new]"
  shows "thread_at s' j u \<longleftrightarrow> (if j = i then u = new else thread_at s j u)"
    and "new \<in> set (threads s')" and "old \<in> set (threads s)"
    and "u \<in> set (threads s) \<Longrightarrow> u \<noteq> old \<Longrightarrow> u \<in> set (threads s')"
    and "u \<in> set (threads s') \<Longrightarrow> u = new \<or> u \<in> set (threads s)"
proof -
  show "thread_at s' j u \<longleftrightarrow> (if j = i then u = new else thread_at s j u)"
    using assms by (auto simp: thread_at_def nth_list_update)
  show "new \<in> set (threads s')" "old \<in> set (threads s)"
    using assms by (auto simp: thread_at_def set_update_memI)
  show "u \<in> set (threads s) \<Longrightarrow> u \<noteq> old \<Longrightarrow> u \<in> set (threads s')"
    using assms by (auto simp: thread_at_def in_set_conv_nth nth_list_update)
  show "u \<in> set (threads s') \<Longrightarrow> u = new \<or> u \<in> set (threads s)"
    using set_update_subset_insert [of "threads s" i new] assms(2) by auto
qed

lemma thread_at_mem: "u \<in> set (threads s) \<longleftrightarrow> (\<exists>i. thread_at s i u)"
  by (auto simp: thread_at_def in_set_conv_nth)

lemma GetOrEvaluate_step_cases:
  assumes "GetOrEvaluate_step i d s = Some s'"
  obtains (joins) key f where "thread_at s i (Fresh key)" "inflight s key = Some f"
      "s' = s\<lparr>threads := (threads s)[i := Waiting key f]\<rparr>"
    | (leads) key where "thread_at s i (Fresh key)" "inflight s key = None"
      "s' = s\<lparr>inflight := (inflight s)(key \<mapsto> next_flight s), next_flight := Suc (next_flight s),
             threads := (threads s)[i := Evaluating key (next_flight s)]\<rparr>"
    | (wakes) key f d' where "thread_at s i (Waiting key f)" "flight_decision s f = Some d'"
      "s' = s\<lparr>threads := (threads s)[i := Returned key d' True]\<rparr>"
    | (lands) key f where "thread_at s i (Evaluating key f)"
      "s' = s\<lparr>flight_decision := (flight_decision s)(f \<mapsto> d), inflight := (inflight s)(key := None),
             threads := (threads s)[i := Returned key d False]\<rparr>"
  using assms
  by (auto simp: GetOrEvaluate_step_def thread_at_def split: if_splits thread.splits option.splits)

lemma flights_inv_init: "flights_inv ev (newDecisionCache keys)"
  by (auto simp: flights_inv_def inv_defs newDecisionCache_def thread_at_def)

lemma flights_inv_joins:
  assumes inv: "flights_inv ev s" and at: "thread_at s i (Fresh key)" and f: "inflight s key = Some f"
    and s': "s' = s\<lparr>threads := (threads s)[i := Waiting key f]\<rparr>"
  shows "flights_inv ev s'"
proof -
  have "threads s' = (threads s)[i := Waiting key f]" by (simp add: s')
  note mv = thread_moves [OF at this]
  have same: "inflight s' = inflight s" "flight_decision s' = flight_decision s" "next_flight s' = next_flight s"
    by (simp_all add: s')
  note i = inv [unfolded flights_inv_def]
  have "inv_map s'" using i mv(4) unfolding inv_map_def same by blast
  moreover have "inv_leader s'" using i unfolding inv_leader_def same mv(1) by (auto split: if_splits)
  moreover have "inv_waiting ev s'"
    using i f mv(4,5) unfolding inv_waiting_def inv_map_def same by (metis thread.distinct(5) thread.inject(2))
  moreover have "inv_fresh s'" using i unfolding inv_fresh_def same by blast
  moreover have "inv_returned ev s'"
    using i mv(4,5) unfolding inv_returned_def by (metis thread.distinct(5,9))
  ultimately show ?thesis by (simp add: flights_inv_def)
qed

lemma flights_inv_leads:
  assumes inv: "flights_inv ev s" and at: "thread_at s i (Fresh key)" and f: "inflight s key = None"
    and s': "s' = s\<lparr>inflight := (inflight s)(key \<mapsto> next_flight s), next_flight := Suc (next_flight s),
             threads := (threads s)[i := Evaluating key (next_flight s)]\<rparr>"
  shows "flights_inv ev s'"
proof -
  have "threads s' = (threads s)[i := Evaluating key (next_flight s)]" by (simp add: s')
  note mv = thread_moves [OF at this]
  have same: "inflight s' = (inflight s)(key \<mapsto> next_flight s)" "flight_decision s' = flight_decision s"
    "next_flight s' = Suc (next_flight s)"
    by (simp_all add: s')
  note i = inv [unfolded flights_inv_def]
  have new: "thread_at s j (Evaluating key' (next_flight s)) \<Longrightarrow> False" for j key'
    using i unfolding inv_leader_def inv_map_def by (metis less_irrefl)
  have "inv_map s'"
    using i mv(2,4) unfolding inv_map_def inv_fresh_def same by (auto split: if_splits intro: less_SucI)
  moreover have "inv_leader s'"
    using i new f unfolding inv_leader_def same mv(1) by (auto split: if_splits) blast
  moreover have "inv_waiting ev s'"
    unfolding inv_waiting_def same
  proof (intro allI impI)
    fix k g assume "Waiting k g \<in> set (threads s')"
    then have "Waiting k g \<in> set (threads s)" using mv(5) by blast
    then have w: "g < next_flight s" "inflight s k = Some g \<or> (\<exists>d. flight_decision s g = Some d \<and> d \<in> ev k
        \<and> Returned k d False \<in> set (threads s))"
      using i unfolding inv_waiting_def by blast+
    from w(2) show "g < Suc (next_flight s) \<and> (((inflight s)(key \<mapsto> next_flight s)) k = Some g
      \<or> (\<exists>d. flight_decision s g = Some d \<and> d \<in> ev k \<and> Returned k d False \<in> set (threads s')))"
    proof
      assume "inflight s k = Some g"
      with f w(1) show ?thesis by auto
    next
      assume "\<exists>d. flight_decision s g = Some d \<and> d \<in> ev k \<and> Returned k d False \<in> set (threads s)"
      with w(1) mv(4) show ?thesis by auto
    qed
  qed
  moreover have "inv_fresh s'" using i unfolding inv_fresh_def same by simp
  moreover have "inv_returned ev s'" using i mv(4,5) unfolding inv_returned_def by blast
  ultimately show ?thesis by (simp add: flights_inv_def)
qed

lemma flights_inv_wakes:
  assumes inv: "flights_inv ev s" and at: "thread_at s i (Waiting key f)" and f: "flight_decision s f = Some d'"
    and s': "s' = s\<lparr>threads := (threads s)[i := Returned key d' True]\<rparr>"
  shows "flights_inv ev s'"
proof -
  have "threads s' = (threads s)[i := Returned key d' True]" by (simp add: s')
  note mv = thread_moves [OF at this]
  have same: "inflight s' = inflight s" "flight_decision s' = flight_decision s" "next_flight s' = next_flight s"
    by (simp_all add: s')
  note i = inv [unfolded flights_inv_def]
  have d: "d' \<in> ev key \<and> Returned key d' False \<in> set (threads s)"
    using i mv(3) f unfolding inv_waiting_def inv_map_def by (metis option.distinct(1) option.inject)
  have ret: "Returned k e c \<in> set (threads s) \<Longrightarrow> Returned k e c \<in> set (threads s')" for k e c
    using mv(4) by blast
  have "inv_map s'" using i mv(4) unfolding inv_map_def same by blast
  moreover have "inv_leader s'" using i unfolding inv_leader_def same mv(1) by (auto split: if_splits)
  moreover have "inv_waiting ev s'"
    using i mv(5) ret unfolding inv_waiting_def same by (metis thread.distinct(9))
  moreover have "inv_fresh s'" using i unfolding inv_fresh_def same by blast
  moreover have "inv_returned ev s'"
    using i d mv(5) ret unfolding inv_returned_def by (metis thread.inject(4))
  ultimately show ?thesis by (simp add: flights_inv_def)
qed

lemma flights_inv_lands:
  assumes inv: "flights_inv ev s" and at: "thread_at s i (Evaluating key f)" and d: "d \<in> ev key"
    and s': "s' = s\<lparr>flight_decision := (flight_decision s)(f \<mapsto> d), inflight := (inflight s)(key := None),
             threads := (threads s)[i := Returned key d False]\<rparr>"
  shows "flights_inv ev s'"
proof -
  have "threads s' = (threads s)[i := Returned key d False]" by (simp add: s')
  note mv = thread_moves [OF at this]
  have same: "inflight s' = (inflight s)(key := None)" "flight_decision s' = (flight_decision s)(f \<mapsto> d)"
    "next_flight s' = next_flight s"
    by (simp_all add: s')
  note i = inv [unfolded flights_inv_def]
  have lead: "inflight s key = Some f" "f < next_flight s"
    using i at unfolding inv_leader_def inv_map_def by blast+
  have own: "key' = key" if "inflight s key' = Some f" for key'
  proof -
    have "Evaluating key' f \<in> set (threads s)" using i that unfolding inv_map_def by blast
    then obtain j where "thread_at s j (Evaluating key' f)" by (auto simp: thread_at_mem)
    moreover from this have "j = i" using i at unfolding inv_leader_def by blast
    ultimately show ?thesis using at by (simp add: thread_at_def)
  qed
  have ret: "Returned k e c \<in> set (threads s) \<Longrightarrow> Returned k e c \<in> set (threads s')" for k e c
    using mv(4) by blast
  have "inv_map s'"
    unfolding inv_map_def same
  proof (intro allI impI)
    fix k g assume "((inflight s)(key := None)) k = Some g"
    then have k: "k \<noteq> key" "inflight s k = Some g" by (auto split: if_splits)
    then have "g \<noteq> f" using own by blast
    then show "g < next_flight s \<and> ((flight_decision s)(f \<mapsto> d)) g = None \<and> Evaluating k g \<in> set (threads s')"
      using k i mv(4) unfolding inv_map_def by auto
  qed
  moreover have "inv_leader s'"
    using i at unfolding inv_leader_def same mv(1) by (auto split: if_splits) (metis option.inject)
  moreover have "inv_waiting ev s'"
    unfolding inv_waiting_def same
  proof (intro allI impI)
    fix k g assume "Waiting k g \<in> set (threads s')"
    then have w: "Waiting k g \<in> set (threads s)" using mv(5) by blast
    then have n: "g < next_flight s" using i unfolding inv_waiting_def by blast
    show "g < next_flight s \<and> (((inflight s)(key := None)) k = Some g \<or>
      (\<exists>e. ((flight_decision s)(f \<mapsto> d)) g = Some e \<and> e \<in> ev k \<and> Returned k e False \<in> set (threads s')))"
    proof (cases "inflight s k = Some g")
      case True
      show ?thesis
      proof (cases "k = key")
        case True
        then have "g = f" using lead \<open>inflight s k = Some g\<close> by simp
        then show ?thesis using n d mv(2) True by auto
      qed (use n True in simp)
    next
      case False
      then obtain e where e: "flight_decision s g = Some e" "e \<in> ev k" "Returned k e False \<in> set (threads s)"
        using i w unfolding inv_waiting_def by blast
      then have "g \<noteq> f" using i lead(1) unfolding inv_map_def by (metis option.distinct(1))
      with e n ret show ?thesis by auto
    qed
  qed
  moreover have "inv_fresh s'" using i lead(2) unfolding inv_fresh_def same by auto
  moreover have "inv_returned ev s'"
    using i d mv(2,5) ret unfolding inv_returned_def by (metis thread.inject(4))
  ultimately show ?thesis by (simp add: flights_inv_def)
qed

lemma flight_reach_inv: "flight_reach keys ev s \<Longrightarrow> flights_inv ev s"
proof (induction rule: flight_reach.induct)
  case (reach_step s i d s')
  from reach_step.hyps(2) show ?case
  proof (cases rule: GetOrEvaluate_step_cases)
    case (lands key f)
    then have "d \<in> ev key" using reach_step.hyps(3) by (simp add: thread_at_def)
    with lands flights_inv_lands reach_step.IH show ?thesis by blast
  qed (use reach_step.IH flights_inv_joins flights_inv_leads flights_inv_wakes in blast)+
qed (rule flights_inv_init)

text \<open>
  C5. Concurrent identical alerts share one request: at any moment at most one thread evaluates a
  fingerprint, and a thread that returns a cached decision returns the one that an evaluation for its
  own fingerprint yielded in another thread.
\<close>

theorem single_flight:
  assumes "flight_reach keys ev s"
  shows "(\<forall>i j key f g. thread_at s i (Evaluating key f) \<longrightarrow> thread_at s j (Evaluating key g) \<longrightarrow> i = j)
    \<and> (\<forall>i key d c. thread_at s i (Returned key d c) \<longrightarrow> d \<in> ev key \<and> (\<exists>j. thread_at s j (Returned key d False)))"
proof -
  have inv: "flights_inv ev s" using assms by (rule flight_reach_inv)
  have "i = j" if "thread_at s i (Evaluating key f)" "thread_at s j (Evaluating key g)" for i j key f g
  proof -
    have "g = f" using inv that unfolding flights_inv_def inv_leader_def by (metis option.inject)
    then show ?thesis using inv that unfolding flights_inv_def inv_leader_def by metis
  qed
  moreover have "d \<in> ev key \<and> (\<exists>j. thread_at s j (Returned key d False))" if "thread_at s i (Returned key d c)" for i key d c
    using inv that unfolding flights_inv_def inv_returned_def thread_at_mem by blast
  ultimately show ?thesis by blast
qed

definition allow_decision :: alertDecision where
  "allow_decision = mk_decision True False ''allow''"

text \<open>Two threads with one fingerprint: the first leads, the second joins, the first lands.\<close>

lemma two_threads:
  "flight_reach [''k'', ''k''] (\<lambda>_. {allow_decision})
     \<lparr>inflight = Map.empty, flight_decision = [0 \<mapsto> allow_decision], next_flight = 1,
      threads = [Returned ''k'' allow_decision False, Waiting ''k'' 0]\<rparr>"
proof -
  let ?d = allow_decision
  let ?s1 = "\<lparr>inflight = [''k'' \<mapsto> 0], flight_decision = Map.empty, next_flight = 1, threads = [Evaluating ''k'' 0, Fresh ''k'']\<rparr>"
  let ?s2 = "\<lparr>inflight = [''k'' \<mapsto> 0], flight_decision = Map.empty, next_flight = 1, threads = [Evaluating ''k'' 0, Waiting ''k'' 0]\<rparr>"
  have "GetOrEvaluate_step 0 ?d (newDecisionCache [''k'', ''k'']) = Some ?s1"
    by (simp add: GetOrEvaluate_step_def newDecisionCache_def)
  then have 1: "flight_reach [''k'', ''k''] (\<lambda>_. {?d}) ?s1"
    by (rule reach_step [OF reach_init]) simp
  have "GetOrEvaluate_step 1 ?d ?s1 = Some ?s2" by (simp add: GetOrEvaluate_step_def)
  then have 2: "flight_reach [''k'', ''k''] (\<lambda>_. {?d}) ?s2" by (rule reach_step [OF 1]) simp
  show ?thesis by (rule reach_step [OF 2, of 0 ?d]) (auto simp: GetOrEvaluate_step_def fun_upd_def)
qed

theorem single_flight_witness:
  "thread_at \<lparr>inflight = Map.empty, flight_decision = [0 \<mapsto> allow_decision], next_flight = 1,
      threads = [Returned ''k'' allow_decision False, Waiting ''k'' 0]\<rparr> 0 (Returned ''k'' allow_decision False)
   \<and> allow_decision \<in> {allow_decision}"
  using single_flight [OF two_threads] by (simp add: thread_at_def)

text \<open>How many steps a thread has to go.\<close>

fun thread_weight :: "thread \<Rightarrow> nat" where
  "thread_weight (Fresh key) = 2"
| "thread_weight (Waiting key f) = 1"
| "thread_weight (Evaluating key f) = 1"
| "thread_weight (Returned key d c) = 0"

definition flights_weight :: "flights \<Rightarrow> nat" where
  "flights_weight s = sum_list (map thread_weight (threads s))"

lemma weight_step:
  assumes "GetOrEvaluate_step i d s = Some s'"
  shows "Suc (flights_weight s') = flights_weight s"
proof -
  have upd: "Suc (sum_list (map thread_weight ((threads s)[i := new]))) = flights_weight s"
    if "thread_at s i old" "thread_weight old = Suc (thread_weight new)" for old new
  proof -
    have i: "i < length (threads s)" "threads s ! i = old" using that(1) by (auto simp: thread_at_def)
    then have "thread_weight old \<le> sum_list (map thread_weight (threads s))"
      by (intro member_le_sum_list) auto
    then show ?thesis
      using i that(2) sum_list_update [of i "map thread_weight (threads s)" "thread_weight new"]
      by (simp add: flights_weight_def map_update)
  qed
  from assms show ?thesis
    by (cases rule: GetOrEvaluate_step_cases) (use upd in \<open>force simp: flights_weight_def\<close>)+
qed

fun thread_key :: "thread \<Rightarrow> string" where
  "thread_key (Fresh key) = key"
| "thread_key (Waiting key f) = key"
| "thread_key (Evaluating key f) = key"
| "thread_key (Returned key d c) = key"

lemma flight_reach_keys:
  "flight_reach keys ev s \<Longrightarrow> map thread_key (threads s) = keys \<and> flights_weight s \<le> 2 * length keys"
proof (induction rule: flight_reach.induct)
  case reach_init
  have "sum_list (map (thread_weight \<circ> Fresh) keys) = 2 * length keys" by (induction keys) simp_all
  then show ?case by (simp add: newDecisionCache_def comp_def flights_weight_def)
next
  case (reach_step s i d s')
  have same: "map thread_key ((threads s)[i := new]) = map thread_key (threads s)"
    if "thread_at s i old" "thread_key new = thread_key old" for old new
    using that by (auto simp: thread_at_def map_update list_update_same_conv)
  from reach_step.hyps(2) have "map thread_key (threads s') = map thread_key (threads s)"
    by (cases rule: GetOrEvaluate_step_cases) (use same in force)+
  with weight_step [OF reach_step.hyps(2)] reach_step.IH show ?case by simp
qed

text \<open>
  C30. Nobody waits for ever: in every reachable state some thread can take a step unless all of them
  have returned, and every step brings the threads closer to the end, so after at most two steps per
  thread every caller has its decision.
\<close>

theorem flights_finish:
  assumes "flight_reach keys ev s"
  shows "((\<exists>i < length keys. \<forall>d. GetOrEvaluate_step i d s \<noteq> None)
      \<or> (\<forall>i < length keys. \<exists>d c. threads s ! i = Returned (keys ! i) d c))
    \<and> (\<forall>i d s'. GetOrEvaluate_step i d s = Some s' \<longrightarrow> flights_weight s' < flights_weight s)
    \<and> flights_weight s \<le> 2 * length keys"
proof -
  have inv: "flights_inv ev s" using assms by (rule flight_reach_inv)
  have keys: "map thread_key (threads s) = keys" "flights_weight s \<le> 2 * length keys"
    using flight_reach_keys [OF assms] by simp_all
  then have len: "length (threads s) = length keys" by (metis length_map)
  have "\<exists>i < length keys. \<forall>d. GetOrEvaluate_step i d s \<noteq> None"
    if i: "i < length keys" and nr: "\<nexists>d c. threads s ! i = Returned (keys ! i) d c" for i
  proof (cases "threads s ! i")
    case (Fresh key)
    then have "GetOrEvaluate_step i d s \<noteq> None" for d
      using i len by (simp add: GetOrEvaluate_step_def split: option.split)
    with i show ?thesis by blast
  next
    case (Evaluating key f)
    then have "GetOrEvaluate_step i d s \<noteq> None" for d using i len by (simp add: GetOrEvaluate_step_def)
    with i show ?thesis by blast
  next
    case (Returned key d c)
    then have "key = keys ! i" using keys(1) i len by (metis nth_map thread_key.simps(4))
    with nr Returned show ?thesis by blast
  next
    case (Waiting key f)
    show ?thesis
    proof (cases "flight_decision s f")
      case (Some d')
      then have "GetOrEvaluate_step i d s \<noteq> None" for d using Waiting i len by (simp add: GetOrEvaluate_step_def)
      with i show ?thesis by blast
    next
      case None
      have "Waiting key f \<in> set (threads s)" using Waiting i len by (metis nth_mem)
      then have "inflight s key = Some f" using inv None unfolding flights_inv_def inv_waiting_def by force
      then have "Evaluating key f \<in> set (threads s)" using inv unfolding flights_inv_def inv_map_def by blast
      then obtain j where j: "j < length keys" "threads s ! j = Evaluating key f"
        using len by (auto simp: in_set_conv_nth)
      then have "GetOrEvaluate_step j d s \<noteq> None" for d using len by (simp add: GetOrEvaluate_step_def)
      with j show ?thesis by blast
    qed
  qed
  moreover have "flights_weight s' < flights_weight s" if "GetOrEvaluate_step i d s = Some s'" for i d s'
    using weight_step [OF that] by simp
  ultimately show ?thesis using keys(2) by blast
qed

theorem flights_finish_witness:
  "\<exists>i < 2. \<forall>d. GetOrEvaluate_step i d \<lparr>inflight = Map.empty, flight_decision = [0 \<mapsto> allow_decision], next_flight = 1,
      threads = [Returned ''k'' allow_decision False, Waiting ''k'' 0]\<rparr> \<noteq> None"
proof -
  have "\<not> (\<forall>i < 2. \<exists>d c. [Returned ''k'' allow_decision False, Waiting ''k'' 0] ! i = Returned ([''k'', ''k''] ! i) d c)"
    by (metis nth_Cons_0 nth_Cons_Suc One_nat_def one_less_numeral_iff semiring_norm(76) thread.distinct(9))
  moreover have "length [''k'', ''k''] = 2" by simp
  ultimately show ?thesis
    using flights_finish [OF two_threads, THEN conjunct1] by (simp only: flights.select_convs) blast
qed

section \<open>The decision: properties\<close>

lemma mk_decision_sel [simp]:
  "ad_Send (mk_decision b f r) = b" "ad_ServiceFailed (mk_decision b f r) = f" "ad_Outcome (mk_decision b f r) = r"
  "ad_TTLSeconds (mk_decision b f r) = 0" "ad_Fingerprint (mk_decision b f r) = []"
  by (simp_all add: mk_decision_def)

lemma error_outcome_cases:
  "error_outcome e \<in> {''timeout'', ''rate_limited'', ''http_error'', ''request_error''}"
  by (auto simp: error_outcome_def split: option.splits)

text \<open>
  Every decision has a known outcome: the disabled service is never asked and always sends, and
  with the service enabled the outcome is one of those that the metrics export; \<open>ServiceFailed\<close> marks
  exactly the failures, and only an allowed alert carries a time to live and a fingerprint.
\<close>

theorem decision_outcomes:
  "\<exists>d w'. shouldSendByDecisionService pf env ts cfg line parsed msg w = (d, w')
     \<and> (if ds_Enabled cfg then ad_Outcome d \<in> set decisionOutcomes else ad_Outcome d = ''disabled'' \<and> ad_Send d \<and> w' = w)
     \<and> (ad_ServiceFailed d \<longleftrightarrow> ad_Outcome d \<in> {''timeout'', ''rate_limited'', ''http_error'', ''request_error'', ''configuration_error''})
     \<and> (ad_Outcome d = ''allow'' \<or> ad_TTLSeconds d = 0 \<and> ad_Fingerprint d = [])"
proof -
  obtain d w' where s: "shouldSendByDecisionService pf env ts cfg line parsed msg w = (d, w')" by fastforce
  have "d = mk_decision True False ''disabled'' \<and> \<not> ds_Enabled cfg \<and> w' = w
    \<or> ds_Enabled cfg \<and> ((\<exists>b. d = mk_decision b True ''configuration_error'') \<or> (\<exists>b e. d = mk_decision b True (error_outcome e))
      \<or> d = mk_decision False False ''deny'' \<or> d = mk_decision False False ''low_confidence''
      \<or> (ad_Outcome d = ''allow'' \<and> \<not> ad_ServiceFailed d))"
    using s by (auto simp: shouldSendByDecisionService_def Let_def split: if_splits prod.splits sum.splits)
  then have "(if ds_Enabled cfg then ad_Outcome d \<in> set decisionOutcomes else ad_Outcome d = ''disabled'' \<and> ad_Send d \<and> w' = w)
     \<and> (ad_ServiceFailed d \<longleftrightarrow> ad_Outcome d \<in> {''timeout'', ''rate_limited'', ''http_error'', ''request_error'', ''configuration_error''})
     \<and> (ad_Outcome d = ''allow'' \<or> ad_TTLSeconds d = 0 \<and> ad_Fingerprint d = [])"
  proof (elim disjE conjE exE)
    fix b e assume "d = mk_decision b True (error_outcome e)" "ds_Enabled cfg"
    then show ?thesis using error_outcome_cases [of e] by (auto simp: decisionOutcomes_def)
  qed (simp_all add: decisionOutcomes_def)
  with s show ?thesis by blast
qed

lemma requestDecision_recorded:
  assumes "requestDecision pf (recording env) cfg rq ([], w) = (r, sent, w')"
  shows "length sent \<le> 1 \<and> (\<forall>q \<in> set sent. rq_url q = ds_URL cfg \<and> rq_method q = ''POST'')
    \<and> (\<forall>d. r = Inr d \<longrightarrow> (\<exists>q resp. sent = [q] \<and> fst (http_Do env q w) = Inr resp \<and> status_ok (rp_status resp)
        \<and> decode_body (dec_decisionResponse pf) zero_decisionResponse (rp_body resp) (rp_read_error resp) = Inr d))"
proof (cases "url_Parse env (ds_URL cfg) = None")
  case True
  then show ?thesis using assms by (auto simp: requestDecision_def recording_def)
next
  case False
  let ?q = "\<lparr>rq_method = ''POST'', rq_url = ds_URL cfg,
             rq_headers = (''Content-Type'', ''application/json'')
               # (if ds_Token cfg \<noteq> '''' then [(''Authorization'', ''Bearer '' @ ds_Token cfg)] else []),
             rq_body = Marshal (decisionRequest_json rq), rq_timeout = decisionTimeout cfg\<rparr>"
  obtain a w1 where d: "http_Do env ?q w = (a, w1)" by fastforce
  then have rec: "http_Do (recording env) ?q ([], w) = (a, [?q], w1)" by (simp add: recording_def)
  have p: "url_Parse (recording env) (ds_URL cfg) \<noteq> None" using False by (simp add: recording_def)
  have "sent = [?q]" using assms p rec by (auto simp: requestDecision_def split: sum.splits)
  moreover have "\<exists>resp. a = Inr resp \<and> status_ok (rp_status resp)
        \<and> decode_body (dec_decisionResponse pf) zero_decisionResponse (rp_body resp) (rp_read_error resp) = Inr x"
    if "r = Inr x" for x
    using assms p rec that by (auto simp: requestDecision_def status_ok_def split: sum.splits if_splits)
  ultimately show ?thesis using d by auto
qed

text \<open>
  C6. No alert goes out without a reason: with the service enabled at most one request is made, to the
  configured URL; a failure of any kind sends exactly when the configuration says fail-open; and an
  alert sent otherwise was allowed by a reply of status 2xx whose body decodes to the decision
  \<open>allow\<close> with at least the required confidence.
\<close>

theorem decision_justified:
  assumes "shouldSendByDecisionService pf (recording env) ts cfg line parsed msg ([], w) = (d, sent, w')"
    and "ds_Enabled cfg"
  shows "length sent \<le> 1 \<and> (\<forall>q \<in> set sent. rq_url q = ds_URL cfg \<and> rq_method q = ''POST'')
    \<and> (ad_ServiceFailed d \<longrightarrow> ad_Send d = decisionFailOpen cfg)
    \<and> (ad_Send d \<and> \<not> ad_ServiceFailed d \<longrightarrow>
        (\<exists>q resp r. sent = [q] \<and> fst (http_Do env q w) = Inr resp \<and> status_ok (rp_status resp)
          \<and> decode_body (dec_decisionResponse pf) zero_decisionResponse (rp_body resp) (rp_read_error resp) = Inr r
          \<and> rs_Decision r = ''allow'' \<and> decisionMinConfidence cfg \<le> rs_Confidence r
          \<and> ad_TTLSeconds d = rs_TTLSeconds r \<and> ad_Fingerprint d = rs_Fingerprint r))"
proof (cases "ds_URL cfg = []")
  case True
  then show ?thesis using assms by (auto simp: shouldSendByDecisionService_def)
next
  case False
  let ?rq = "\<lparr>dr_Kind = ''log_alert'', dr_Source = decisionSource cfg, dr_Raw = line, dr_Formatted = msg,
      dr_Parsed = (case parsed of None \<Rightarrow> [] | Some m \<Rightarrow> m), dr_Action = ''send_alert'',
      dr_Metadata = [(''component'', decisionSource cfg)], dr_Timestamp = ts\<rparr>"
  obtain r sent1 w1 where rd: "requestDecision pf (recording env) cfg ?rq ([], w) = (r, sent1, w1)" by (metis prod.exhaust)
  have sent: "sent = sent1" using assms False rd
    by (auto simp: shouldSendByDecisionService_def Let_def split: sum.splits)
  note spec = requestDecision_recorded [OF rd]
  show ?thesis
  proof (cases r)
    case (Inl e)
    then have "d = mk_decision (decisionFailOpen cfg) True (error_outcome e)"
      using assms False rd by (simp add: shouldSendByDecisionService_def Let_def)
    then show ?thesis using spec sent by simp
  next
    case (Inr x)
    then have d: "d = (if rs_Decision x \<noteq> ''allow'' then mk_decision False False ''deny''
        else if rs_Confidence x < decisionMinConfidence cfg then mk_decision False False ''low_confidence''
        else \<lparr>ad_Send = True, ad_TTLSeconds = rs_TTLSeconds x, ad_ServiceFailed = False, ad_Outcome = ''allow'',
              ad_Fingerprint = rs_Fingerprint x\<rparr>)"
      using assms False rd by (auto simp: shouldSendByDecisionService_def Let_def)
    show ?thesis
    proof (intro conjI impI)
      show "length sent \<le> 1" "\<forall>q \<in> set sent. rq_url q = ds_URL cfg \<and> rq_method q = ''POST''"
        using spec sent by blast+
      show "ad_Send d = decisionFailOpen cfg" if "ad_ServiceFailed d" using that d by (simp split: if_splits)
      assume "ad_Send d \<and> \<not> ad_ServiceFailed d"
      then have "rs_Decision x = ''allow''" "decisionMinConfidence cfg \<le> rs_Confidence x"
        "ad_TTLSeconds d = rs_TTLSeconds x" "ad_Fingerprint d = rs_Fingerprint x"
        using d by (auto split: if_splits)
      then show "\<exists>q resp r. sent = [q] \<and> fst (http_Do env q w) = Inr resp \<and> status_ok (rp_status resp)
          \<and> decode_body (dec_decisionResponse pf) zero_decisionResponse (rp_body resp) (rp_read_error resp) = Inr r
          \<and> rs_Decision r = ''allow'' \<and> decisionMinConfidence cfg \<le> rs_Confidence r
          \<and> ad_TTLSeconds d = rs_TTLSeconds r \<and> ad_Fingerprint d = rs_Fingerprint r"
        using spec sent Inr by blast
    qed
  qed
qed

text \<open>A network where every request times out, and a fail-closed configuration.\<close>

definition dead_network :: "unit http_env" where
  "dead_network = \<lparr>url_Parse = (\<lambda>u. Some \<lparr>u_Scheme = ''http'', u_Host = ''h'', u_Path = u, u_RawPath = [], u_RawQuery = [],
     u_Fragment = [], u_Userinfo = []\<rparr>), url_String = u_Path, http_Do = (\<lambda>q w. (Inl ErrDeadlineExceeded, w))\<rparr>"

definition fail_closed :: DecisionServiceConfig where
  "fail_closed = \<lparr>ds_Enabled = True, ds_URL = ''u'', ds_Source = ''s'', ds_Token = [], ds_TimeoutSeconds = 3,
     ds_FailOpen = Some False, ds_MinConfidence = 0, ds_FeedbackActionTarget = []\<rparr>"

theorem decision_justified_witness:
  "\<exists>d sent w'. shouldSendByDecisionService (\<lambda>_. None) (recording dead_network) [] fail_closed ''l'' None ''m'' ([], ()) = (d, sent, w')
     \<and> ad_Outcome d = ''timeout'' \<and> \<not> ad_Send d \<and> length sent \<le> 1"
proof -
  obtain d sent w' where s: "shouldSendByDecisionService (\<lambda>_. None) (recording dead_network) [] fail_closed ''l'' None ''m'' ([], ())
      = (d, sent, w')" by (metis prod.exhaust)
  then have d: "d = mk_decision False True ''timeout''"
    by (auto simp: shouldSendByDecisionService_def fail_closed_def requestDecision_def recording_def dead_network_def
        error_outcome_def decisionFailOpen_def Let_def)
  have "ds_Enabled fail_closed" by (simp add: fail_closed_def)
  from decision_justified [OF s this] s d show ?thesis by auto
qed

end
