(* ===== verification/Json_Excludes.thy ===== *)
theory Json_Excludes
  imports Config
begin

text \<open>
  json_excludes.go: the rules that drop structured noise, their compilation and the match of a parsed
  line, whose text must be one JSON object. The object is decoded once, at the first rule whose process
  expression matches; the properties show that this is the rule-by-rule specification.
\<close>

record jsonExclude =
  jx_process :: regex
  jx_booleanFields :: "(string, bool) gomap"
  jx_emptyArrayFields :: "string list"

text \<open>An invalid rule is logged and skipped. \<open>compile\<close> is \<open>regexp.Compile\<close>.\<close>

fun compileJSONExcludes :: "(string \<Rightarrow> regex result) \<Rightarrow> JSONExcludeConfig list \<Rightarrow> jsonExclude list" where
  "compileJSONExcludes compile [] = []"
| "compileJSONExcludes compile (cfg # configs) =
     (if TrimSpace (je_Process cfg) = '''' then compileJSONExcludes compile configs
      else if length (je_BooleanFields cfg) = 0 \<and> length (je_EmptyArrayFields cfg) = 0
      then compileJSONExcludes compile configs
      else (case compile (je_Process cfg) of
              Inl e \<Rightarrow> compileJSONExcludes compile configs
            | Inr process \<Rightarrow>
                \<lparr>jx_process = process, jx_booleanFields = je_BooleanFields cfg,
                 jx_emptyArrayFields = je_EmptyArrayFields cfg\<rparr> # compileJSONExcludes compile configs))"

section \<open>Matching\<close>

text \<open>
  The object: \<open>map[string]json.RawMessage\<close>, the nil map (None) for \<open>null\<close>. A raw message is the value it
  holds, and \<open>null\<close> is one of them.
\<close>

definition decode_object :: "string \<Rightarrow> (string, json) gomap option option" where
  "decode_object t =
     (case json_unmarshal t of
        Some (JObj ms) \<Rightarrow> map_option Some (dec_entries (\<lambda>_ v. Some v) JNull [] ms)
      | Some JNull \<Rightarrow> Some None
      | _ \<Rightarrow> None)"

text \<open>\<open>[]json.RawMessage\<close>: the nil slice (None) for \<open>null\<close>.\<close>

definition decode_raw_slice :: "json \<Rightarrow> json list option option" where
  "decode_raw_slice raw = (case raw of JArr vs \<Rightarrow> Some (Some vs) | JNull \<Rightarrow> Some None | _ \<Rightarrow> None)"

fun match_booleans :: "(string, json) gomap \<Rightarrow> (string, bool) gomap \<Rightarrow> bool" where
  "match_booleans object [] = True"
| "match_booleans object ((name, want) # conditions) =
     (case map_of object name of
        None \<Rightarrow> False
      | Some raw \<Rightarrow>
          (case dec_bool False raw of
             None \<Rightarrow> False
           | Some got \<Rightarrow> if got \<noteq> want then False else match_booleans object conditions))"

fun match_empty_arrays :: "(string, json) gomap \<Rightarrow> string list \<Rightarrow> bool" where
  "match_empty_arrays object [] = True"
| "match_empty_arrays object (name # names) =
     (case map_of object name of
        None \<Rightarrow> False
      | Some raw \<Rightarrow>
          (case decode_raw_slice raw of
             None \<Rightarrow> False
           | Some None \<Rightarrow> False
           | Some (Some values) \<Rightarrow> if length values \<noteq> 0 then False else match_empty_arrays object names))"

definition matchesJSONFields :: "(string, json) gomap \<Rightarrow> jsonExclude \<Rightarrow> bool" where
  "matchesJSONFields object exclude =
     (if match_booleans object (jx_booleanFields exclude)
      then match_empty_arrays object (jx_emptyArrayFields exclude) else False)"

text \<open>The loop over the rules; \<open>object\<close> is the decoded text once \<open>decoded\<close> holds.\<close>

fun match_json_excludes :: "string \<Rightarrow> string \<Rightarrow> (string, json) gomap option \<Rightarrow> jsonExclude list \<Rightarrow> bool" where
  "match_json_excludes process t decoded [] = False"
| "match_json_excludes process t decoded (ex # exs) =
     (if \<not> MatchString (jx_process ex) process then match_json_excludes process t decoded exs
      else (case (case decoded of Some object \<Rightarrow> Some (Some object) | None \<Rightarrow> decode_object t) of
              None \<Rightarrow> False
            | Some None \<Rightarrow> False
            | Some (Some object) \<Rightarrow>
                if matchesJSONFields object ex then True else match_json_excludes process t (Some object) exs))"

definition matchesJSONExclude :: "(string, string) gomap \<Rightarrow> jsonExclude list \<Rightarrow> bool" where
  "matchesJSONExclude parsed exs =
     (let process = lookup_or [] (map_of parsed) ''process''; t = lookup_or [] (map_of parsed) ''text''
      in if length exs = 0 \<or> process = '''' \<or> t = '''' then False
         else match_json_excludes process t None exs)"

section \<open>Specification\<close>

text \<open>
  The value of a member is its last occurrence. A boolean condition holds of that value when it is the
  wanted boolean or, for false, \<open>null\<close>; an array condition when it is the empty array.
\<close>

definition member_value :: "(string \<times> json) list \<Rightarrow> string \<Rightarrow> json option" where
  "member_value ms = map_of (rev ms)"

definition rule_holds :: "(string \<times> json) list \<Rightarrow> jsonExclude \<Rightarrow> bool" where
  "rule_holds ms ex \<longleftrightarrow>
     (\<forall>(name, want) \<in> set (jx_booleanFields ex).
        member_value ms name = Some (JBool want) \<or> (\<not> want \<and> member_value ms name = Some JNull))
     \<and> (\<forall>name \<in> set (jx_emptyArrayFields ex). member_value ms name = Some (JArr []))"

lemma dec_entries_raw:
  "\<exists>m'. dec_entries (\<lambda>_ v. Some v) JNull m ms = Some m' \<and> map_of m' = map_of m ++ map_of (rev ms)"
proof (induction ms arbitrary: m)
  case (Cons p ms)
  obtain k v where p: "p = (k, v)" by (cases p)
  from Cons [of "AList.update k v m"] show ?case by (auto simp: p simp del: fun_upd_apply)
qed simp

lemma decode_object_cases:
  "(\<exists>ms object. json_unmarshal t = Some (JObj ms) \<and> decode_object t = Some (Some object) \<and> map_of object = member_value ms)
   \<or> ((\<forall>ms. json_unmarshal t \<noteq> Some (JObj ms)) \<and> decode_object t \<in> {None, Some None})"
proof (cases "\<exists>ms. json_unmarshal t = Some (JObj ms)")
  case True
  then obtain ms where ms: "json_unmarshal t = Some (JObj ms)" by blast
  obtain object where "dec_entries (\<lambda>_ v. Some v) JNull [] ms = Some object" "map_of object = member_value ms"
    using dec_entries_raw [of "[]" ms] by (auto simp: member_value_def)
  with ms show ?thesis by (simp add: decode_object_def)
next
  case False
  then show ?thesis by (auto simp: decode_object_def split: option.splits json.splits)
qed

lemma match_booleans_iff:
  "match_booleans object conditions \<longleftrightarrow>
     (\<forall>(name, want) \<in> set conditions.
        map_of object name = Some (JBool want) \<or> (\<not> want \<and> map_of object name = Some JNull))"
  by (induction object conditions rule: match_booleans.induct)
    (auto simp: dec_bool_def split: option.splits json.splits)

lemma match_empty_arrays_iff:
  "match_empty_arrays object names \<longleftrightarrow> (\<forall>name \<in> set names. map_of object name = Some (JArr []))"
  by (induction object names rule: match_empty_arrays.induct)
    (auto simp: decode_raw_slice_def split: option.splits json.splits)

lemma matchesJSONFields_iff: "map_of object = member_value ms \<Longrightarrow> matchesJSONFields object ex \<longleftrightarrow> rule_holds ms ex"
  by (auto simp: matchesJSONFields_def rule_holds_def match_booleans_iff match_empty_arrays_iff)

lemma match_json_excludes_object:
  assumes "json_unmarshal t = Some (JObj ms)" and "decode_object t = Some (Some object)" and "map_of object = member_value ms"
    and "decoded = None \<or> decoded = Some object"
  shows "match_json_excludes process t decoded exs
    \<longleftrightarrow> (\<exists>ex \<in> set exs. MatchString (jx_process ex) process \<and> rule_holds ms ex)"
  using assms(4)
proof (induction exs arbitrary: decoded)
  case (Cons ex exs)
  from Cons.prems have "(case decoded of Some object \<Rightarrow> Some (Some object) | None \<Rightarrow> decode_object t) = Some (Some object)"
    using assms(2) by (elim disjE) simp_all
  then show ?case
    using Cons.IH [OF Cons.prems] Cons.IH [of "Some object"] by (simp add: matchesJSONFields_iff [OF assms(3)])
qed simp

lemma match_json_excludes_other:
  assumes "decode_object t \<in> {None, Some None}"
  shows "\<not> match_json_excludes process t None exs"
  using assms by (induction exs) auto

text \<open>
  C32. The structured-noise filter is its rule-by-rule specification, although it decodes the text only
  once: a line is dropped exactly when its process and text are not empty, the text is a JSON object
  and some rule's process expression matches and all its conditions hold of the object's members.
\<close>

theorem matchesJSONExclude_spec:
  "matchesJSONExclude parsed exs \<longleftrightarrow>
     lookup_or [] (map_of parsed) ''process'' \<noteq> [] \<and> lookup_or [] (map_of parsed) ''text'' \<noteq> []
     \<and> (\<exists>ms. json_unmarshal (lookup_or [] (map_of parsed) ''text'') = Some (JObj ms)
          \<and> (\<exists>ex \<in> set exs. MatchString (jx_process ex) (lookup_or [] (map_of parsed) ''process'') \<and> rule_holds ms ex))"
proof -
  let ?t = "lookup_or [] (map_of parsed) ''text''" and ?p = "lookup_or [] (map_of parsed) ''process''"
  consider (obj) ms object where "json_unmarshal ?t = Some (JObj ms)" "decode_object ?t = Some (Some object)"
      "map_of object = member_value ms"
    | (other) "\<forall>ms. json_unmarshal ?t \<noteq> Some (JObj ms)" "decode_object ?t \<in> {None, Some None}"
    using decode_object_cases [of ?t] by blast
  then show ?thesis
  proof cases
    case obj
    then show ?thesis using match_json_excludes_object [OF obj, of None ?p exs]
      by (auto simp: matchesJSONExclude_def Let_def)
  next
    case other
    then show ?thesis using match_json_excludes_other [of ?t ?p exs] by (auto simp: matchesJSONExclude_def Let_def)
  qed
qed

text \<open>A report without failures, and a rule that drops it.\<close>

definition sample_report :: "(string, string) gomap" where
  "sample_report = [(''process'', ''p''), (''text'', Marshal (JObj [(''failed'', JBool False), (''errors'', JArr [])]))]"

definition sample_rule :: jsonExclude where
  "sample_rule = \<lparr>jx_process = RChar (CHR ''p''), jx_booleanFields = [(''failed'', False)], jx_emptyArrayFields = [''errors'']\<rparr>"

theorem matchesJSONExclude_spec_witness: "matchesJSONExclude sample_report [sample_rule]"
proof -
  have j: "json_unmarshal (Marshal (JObj [(''failed'', JBool False), (''errors'', JArr [])]))
      = Some (JObj [(''failed'', JBool False), (''errors'', JArr [])])"
    unfolding Marshal_def
    by (subst json_unmarshal_print) (simp_all add: to_valid_id valid_utf8_ascii ascii_def byte_def)
  have "MatchString (jx_process sample_rule) ''p''"
    by (simp add: sample_rule_def MatchString_def RChar_def decode_runes_ascii ascii_def byte_def)
  moreover have "rule_holds [(''failed'', JBool False), (''errors'', JArr [])] sample_rule"
    by (simp add: rule_holds_def sample_rule_def member_value_def)
  moreover have "Marshal (JObj [(''failed'', JBool False), (''errors'', JArr [])]) \<noteq> []"
    by (rule Marshal_nonempty) simp
  ultimately show ?thesis
    by (subst matchesJSONExclude_spec) (simp add: sample_report_def lookup_or_def j)
qed

end
