(* ===== verification/Notifier.thy ===== *)
theory Notifier
  imports Decision
begin

text \<open>
  notifier.go: the cards and the legacy payload as JSON, the delivery of a notification (the Tintwire
  endpoint derived from the hook URL, then the Mattermost fallback), the cards of log alerts and the
  truncation of their text at a rune boundary. The network is the environment of \<open>Http_Client\<close>.
\<close>

section \<open>Cards\<close>

record tintwireField =
  tf_Label :: string
  tf_Value :: string

text \<open>The context is a raw message, None when it is empty.\<close>

record tintwireAction =
  ta_Label :: string
  ta_Type :: string
  ta_Target :: string
  ta_Context :: "json option"

record tintwireCard =
  tc_Version :: int
  tc_Channel :: string
  tc_Title :: string
  tc_Summary :: string
  tc_Severity :: string
  tc_Source :: string
  tc_Fields :: "tintwireField list"
  tc_Actions :: "tintwireAction list"

definition tintwireField_json :: "tintwireField \<Rightarrow> json" where
  "tintwireField_json f = JObj [(''label'', JStr (tf_Label f)), (''value'', JStr (tf_Value f))]"

definition tintwireAction_json :: "tintwireAction \<Rightarrow> json" where
  "tintwireAction_json a = JObj
     ([(''label'', JStr (ta_Label a)), (''type'', JStr (ta_Type a)), (''target'', JStr (ta_Target a))]
      @ (case ta_Context a of None \<Rightarrow> [] | Some j \<Rightarrow> [(''context'', j)]))"

definition tintwireCard_json :: "tintwireCard \<Rightarrow> json" where
  "tintwireCard_json c = JObj
     ([(''version'', JNum (Itoa (tc_Version c)))]
      @ opt_member (tc_Channel c \<noteq> '''') ''channel'' (JStr (tc_Channel c))
      @ [(''title'', JStr (tc_Title c)), (''summary'', JStr (tc_Summary c)),
         (''severity'', JStr (tc_Severity c)), (''source'', JStr (tc_Source c))]
      @ opt_member (tc_Fields c \<noteq> []) ''fields'' (JArr (map tintwireField_json (tc_Fields c)))
      @ opt_member (tc_Actions c \<noteq> []) ''actions'' (JArr (map tintwireAction_json (tc_Actions c))))"

text \<open>The context of the feedback button, and the button.\<close>

record alertFeedbackContext =
  af_Feedback :: string
  af_Source :: string
  af_Kind :: string
  af_Policy :: string
  af_Fingerprint :: string
  af_Host :: string
  af_Process :: string

definition alertFeedbackContext_json :: "alertFeedbackContext \<Rightarrow> json" where
  "alertFeedbackContext_json c = JObj
     ([(''feedback'', JStr (af_Feedback c)), (''source'', JStr (af_Source c)), (''kind'', JStr (af_Kind c)),
       (''policy'', JStr (af_Policy c)), (''fingerprint'', JStr (af_Fingerprint c))]
      @ opt_member (af_Host c \<noteq> '''') ''host'' (JStr (af_Host c))
      @ opt_member (af_Process c \<noteq> '''') ''process'' (JStr (af_Process c)))"

definition alertFeedbackActions ::
  "DecisionServiceConfig \<Rightarrow> alertDecision \<Rightarrow> parsed_line \<Rightarrow> tintwireAction list" where
  "alertFeedbackActions cfg decision parsed =
     (let target = TrimSpace (ds_FeedbackActionTarget cfg)
      in if target = '''' \<or> ad_Fingerprint decision = '''' \<or> TrimSpace (parsed_get parsed ''host'') = '''' then []
         else [\<lparr>ta_Label = ''Not useful'', ta_Type = ''http'', ta_Target = target,
                ta_Context = Some (alertFeedbackContext_json
                  \<lparr>af_Feedback = ''not_useful'', af_Source = decisionSource cfg, af_Kind = ''log_alert'',
                   af_Policy = ''send_alert'', af_Fingerprint = ad_Fingerprint decision,
                   af_Host = parsed_get parsed ''host'', af_Process = parsed_get parsed ''process''\<rparr>)\<rparr>])"

record mattermostPayload =
  mp_Username :: string
  mp_Channel :: string
  mp_Text :: string
  mp_IconURL :: string

definition mattermostPayload_json :: "mattermostPayload \<Rightarrow> json" where
  "mattermostPayload_json p = JObj
     ([(''username'', JStr (mp_Username p)), (''channel'', JStr (mp_Channel p)), (''text'', JStr (mp_Text p))]
      @ opt_member (mp_IconURL p \<noteq> '''') ''icon_url'' (JStr (mp_IconURL p)))"

section \<open>Delivery\<close>

record notificationClient =
  nt_tintwireURL :: string
  nt_mattermostURL :: string
  nt_defaultChannel :: string
  nt_timeout :: duration

definition newNotificationClient :: "string \<Rightarrow> string \<Rightarrow> notificationClient" where
  "newNotificationClient tintwireURL mattermostURL =
     \<lparr>nt_tintwireURL = tintwireURL, nt_mattermostURL = mattermostURL, nt_defaultChannel = [],
      nt_timeout = 10 * Second\<rparr>"

text \<open>The endpoint and the token of a hook URL.\<close>

definition tintwireEndpoint :: "'w http_env \<Rightarrow> string \<Rightarrow> (string \<times> string) result" where
  "tintwireEndpoint env hookURL =
     (case url_Parse env hookURL of
        None \<Rightarrow> Inl (ErrText ''invalid Tintwire webhook URL'')
      | Some u \<Rightarrow>
          if u_Scheme u = '''' \<or> u_Host u = '''' then Inl (ErrText ''invalid Tintwire webhook URL'')
          else
            let marker = ''/hooks/''
            in (case str_index (u_Path u) marker of
                  None \<Rightarrow> Inl (ErrText ''tintwire URL must contain /hooks/<token>'')
                | Some index \<Rightarrow>
                    let rest = drop (index + length marker) (u_Path u)
                    in if TrimSpace rest = '''' then Inl (ErrText ''tintwire URL must contain /hooks/<token>'')
                       else Inr (url_String env (u\<lparr>u_Path := ''/api/v1/notifications'', u_RawPath := [],
                                   u_RawQuery := [], u_Fragment := []\<rparr>),
                                 trim_char (CHR ''/'') rest)))"

text \<open>The outcome is the error, None for nil.\<close>

definition postJSON ::
  "'w http_env \<Rightarrow> notificationClient \<Rightarrow> string \<Rightarrow> string \<Rightarrow> json \<Rightarrow> 'w \<Rightarrow> go_error option \<times> 'w" where
  "postJSON env c endpoint authorization payload w =
     (if url_Parse env endpoint = None then (Some (ErrText ''invalid URL''), w)
      else
        (case http_Do env
            \<lparr>rq_method = ''POST'', rq_url = endpoint,
             rq_headers = (''Content-Type'', ''application/json'')
               # (if authorization \<noteq> '''' then [(''Authorization'', authorization)] else []),
             rq_body = Marshal payload, rq_timeout = nt_timeout c\<rparr> w of
           (Inl e, w') \<Rightarrow> (Some e, w')
         | (Inr resp, w') \<Rightarrow>
             (if rp_status resp < 200 \<or> 300 \<le> rp_status resp
              then Some (ErrText (''endpoint returned '' @ rp_status_text resp)) else None, w')))"

definition sendTintwire ::
  "'w http_env \<Rightarrow> notificationClient \<Rightarrow> tintwireCard \<Rightarrow> 'w \<Rightarrow> go_error option \<times> 'w" where
  "sendTintwire env c tcard w =
     (case tintwireEndpoint env (nt_tintwireURL c) of
        Inl e \<Rightarrow> (Some e, w)
      | Inr (endpoint, token) \<Rightarrow> postJSON env c endpoint (''Bearer '' @ token) (tintwireCard_json tcard) w)"

definition Send ::
  "'w http_env \<Rightarrow> notificationClient \<Rightarrow> tintwireCard \<Rightarrow> string \<Rightarrow> string \<Rightarrow> string \<Rightarrow> string \<Rightarrow> 'w
     \<Rightarrow> go_error option \<times> 'w" where
  "Send env c tcard username channel mattermostText iconURL w =
     (let channel = (if channel = '''' then nt_defaultChannel c else channel);
          tcard = tcard\<lparr>tc_Channel := channel\<rparr>;
          (primaryErr, w1) = sendTintwire env c tcard w
      in case primaryErr of
           None \<Rightarrow> (None, w1)
         | Some pe \<Rightarrow>
             if nt_mattermostURL c = '''' then (Some pe, w1)
             else
               (case postJSON env c (nt_mattermostURL c) ''''
                       (mattermostPayload_json \<lparr>mp_Username = username, mp_Channel = channel, mp_Text = mattermostText,
                          mp_IconURL = iconURL\<rparr>) w1 of
                  (Some err, w2) \<Rightarrow>
                    (Some (ErrWrap (''tintwire: '' @ error_text pe @ ''; mattermost fallback'') err), w2)
                | (None, w2) \<Rightarrow> (None, w2)))"

section \<open>The cards of log alerts\<close>

text \<open>
  The loop over the starts of the runes of the value: \<open>index\<close> is the start of the next rune and
  \<open>lastBoundary\<close> the start of the one before.
\<close>

fun truncate_loop :: "int \<Rightarrow> nat \<Rightarrow> nat \<Rightarrow> rune list \<Rightarrow> nat" where
  "truncate_loop maxBytes index lastBoundary [] = lastBoundary"
| "truncate_loop maxBytes index lastBoundary (r # rs) =
     (if int index > maxBytes then lastBoundary
      else truncate_loop maxBytes (index + length (snd r)) index rs)"

definition truncateUTF8 :: "string \<Rightarrow> int \<Rightarrow> string" where
  "truncateUTF8 v maxBytes =
     (if int (length v) \<le> maxBytes then v else take (truncate_loop maxBytes 0 0 (decode_runes v)) v)"

definition logAlertCard :: "parsed_line \<Rightarrow> tintwireCard" where
  "logAlertCard parsed =
     (let flds1 = [\<lparr>tf_Label = ''Host'', tf_Value = parsed_get parsed ''host''\<rparr>,
                   \<lparr>tf_Label = ''Process'', tf_Value = parsed_get parsed ''process''\<rparr>];
          flds2 = (if parsed_get parsed ''pid'' \<noteq> ''''
                   then flds1 @ [\<lparr>tf_Label = ''PID'', tf_Value = parsed_get parsed ''pid''\<rparr>] else flds1);
          flds = flds2 @ [\<lparr>tf_Label = ''Timestamp'', tf_Value = parsed_get parsed ''tstmp''\<rparr>];
          title = (if parsed_get parsed ''process'' \<noteq> '''' \<and> parsed_get parsed ''host'' \<noteq> ''''
                   then parsed_get parsed ''process'' @ '' alert on '' @ parsed_get parsed ''host'' else ''Log alert'')
      in \<lparr>tc_Version = 1, tc_Channel = [], tc_Title = title, tc_Summary = truncateUTF8 (parsed_get parsed ''text'') 500,
          tc_Severity = ''warning'', tc_Source = ''clattermark'', tc_Fields = flds, tc_Actions = []\<rparr>)"

definition rawLogAlertCard :: "string \<Rightarrow> tintwireCard" where
  "rawLogAlertCard line =
     \<lparr>tc_Version = 1, tc_Channel = [], tc_Title = ''Unparsed log alert'', tc_Summary = truncateUTF8 line 500,
      tc_Severity = ''warning'', tc_Source = ''clattermark'', tc_Fields = [], tc_Actions = []\<rparr>"

section \<open>Delivery: properties\<close>

text \<open>The network with the replies in its log, and the requests a reply of which delivers.\<close>

definition transcript :: "'w http_env \<Rightarrow> ((http_request \<times> http_reply result) list \<times> 'w) http_env" where
  "transcript env =
     \<lparr>url_Parse = url_Parse env, url_String = url_String env,
      http_Do = (\<lambda>req (done, w). let (r, w') = http_Do env req w in (r, done @ [(req, r)], w'))\<rparr>"

definition accepted :: "http_reply result \<Rightarrow> bool" where
  "accepted a \<longleftrightarrow> (case a of Inl e \<Rightarrow> False | Inr resp \<Rightarrow> status_ok (rp_status resp))"

lemma transcript_sel [simp]:
  "url_Parse (transcript env) = url_Parse env" "url_String (transcript env) = url_String env"
  "http_Do (transcript env) q (sent, w) = (let (r, w') = http_Do env q w in (r, sent @ [(q, r)], w'))"
  by (simp_all add: transcript_def)

lemma tintwireEndpoint_transcript [simp]: "tintwireEndpoint (transcript env) u = tintwireEndpoint env u"
  by (simp add: tintwireEndpoint_def Let_def split: option.split)

lemma postJSON_transcript:
  assumes "postJSON (transcript env) c endpoint authorization payload (sent, w) = (err, sent', w')"
  shows "(sent' = sent \<and> err \<noteq> None) \<or>
     (\<exists>q a. sent' = sent @ [(q, a)] \<and> (err = None \<longleftrightarrow> accepted a) \<and> rq_method q = ''POST'' \<and> rq_url q = endpoint
        \<and> rq_body q = Marshal payload \<and> rq_timeout q = nt_timeout c
        \<and> map_of (rq_headers q) ''Authorization'' = (if authorization = '''' then None else Some authorization))"
proof (cases "url_Parse env endpoint = None")
  case True
  then show ?thesis using assms by (auto simp: postJSON_def)
next
  case False
  let ?q = "\<lparr>rq_method = ''POST'', rq_url = endpoint,
             rq_headers = (''Content-Type'', ''application/json'')
               # (if authorization \<noteq> '''' then [(''Authorization'', authorization)] else []),
             rq_body = Marshal payload, rq_timeout = nt_timeout c\<rparr>"
  obtain a w1 where d: "http_Do env ?q w = (a, w1)" by fastforce
  have "sent' = sent @ [(?q, a)] \<and> (err = None \<longleftrightarrow> accepted a)"
    using assms False d by (cases a) (auto simp: postJSON_def accepted_def status_ok_def split: if_splits)
  then show ?thesis by (intro disjI2 exI [of _ ?q] exI [of _ a]) simp
qed

text \<open>
  C22. What the delivery of a notification does on any network: it succeeds exactly when its last request
  was accepted with a status 2xx, so at most one endpoint accepts it; it makes at most two requests, the
  second one only after the first was not accepted and only to the fallback URL; and the bearer token
  goes to the endpoint of the hook and nowhere else.
\<close>

theorem Send_delivery:
  assumes "Send (transcript env) c tcard username channel mmText iconURL ([], w) = (err, sent, w')"
  shows "length sent \<le> 2
    \<and> (err = None \<longleftrightarrow> sent \<noteq> [] \<and> accepted (snd (last sent)))
    \<and> (\<forall>(q, a) \<in> set (butlast sent). \<not> accepted a)
    \<and> (length sent = 2 \<longrightarrow> rq_url (fst (last sent)) = nt_mattermostURL c \<and> nt_mattermostURL c \<noteq> '''')
    \<and> (\<forall>(q, a) \<in> set sent. \<exists>endpoint token. tintwireEndpoint env (nt_tintwireURL c) = Inr (endpoint, token)
          \<and> rq_url q = endpoint \<and> map_of (rq_headers q) ''Authorization'' = Some (''Bearer '' @ token)
        \<or> rq_url q = nt_mattermostURL c \<and> nt_mattermostURL c \<noteq> '''' \<and> map_of (rq_headers q) ''Authorization'' = None)"
proof -
  let ?ch = "if channel = '''' then nt_defaultChannel c else channel"
  let ?tc = "tcard\<lparr>tc_Channel := ?ch\<rparr>"
  let ?pl = "mattermostPayload_json \<lparr>mp_Username = username, mp_Channel = ?ch, mp_Text = mmText, mp_IconURL = iconURL\<rparr>"
  let ?primary = "\<lambda>q. \<exists>endpoint token. tintwireEndpoint env (nt_tintwireURL c) = Inr (endpoint, token)
          \<and> rq_url q = endpoint \<and> map_of (rq_headers q) ''Authorization'' = Some (''Bearer '' @ token)"
  let ?fallback = "\<lambda>q. rq_url q = nt_mattermostURL c \<and> nt_mattermostURL c \<noteq> '''' \<and> map_of (rq_headers q) ''Authorization'' = None"
  obtain pe sent1 w1 where p: "sendTintwire (transcript env) c ?tc ([], w) = (pe, sent1, w1)" by (metis prod.exhaust)
  have first: "(sent1 = [] \<and> pe \<noteq> None) \<or> (\<exists>q a. sent1 = [(q, a)] \<and> (pe = None \<longleftrightarrow> accepted a) \<and> ?primary q)"
  proof (cases "tintwireEndpoint env (nt_tintwireURL c)")
    case (Inl e)
    with p show ?thesis by (auto simp: sendTintwire_def)
  next
    case (Inr et)
    then obtain endpoint token where et: "tintwireEndpoint env (nt_tintwireURL c) = Inr (endpoint, token)" by (cases et) simp
    then have "postJSON (transcript env) c endpoint (''Bearer '' @ token) (tintwireCard_json ?tc) ([], w) = (pe, sent1, w1)"
      using p by (simp add: sendTintwire_def)
    from postJSON_transcript [OF this] et show ?thesis by auto
  qed
  show ?thesis
  proof (cases pe)
    case None
    then have "err = None" "sent = sent1" using assms p by (simp_all add: Send_def Let_def)
    with first None show ?thesis by auto
  next
    case (Some e)
    show ?thesis
    proof (cases "nt_mattermostURL c = ''''")
      case True
      then have "err = Some e" "sent = sent1" using assms p Some by (simp_all add: Send_def Let_def)
      with first Some show ?thesis by auto
    next
      case False
      obtain fe sent2 w2 where f: "postJSON (transcript env) c (nt_mattermostURL c) '''' ?pl (sent1, w1) = (fe, sent2, w2)"
        by (metis prod.exhaust)
      have r: "sent = sent2" "err = None \<longleftrightarrow> fe = None"
        using assms p Some False f by (auto simp: Send_def Let_def split: option.splits)
      from postJSON_transcript [OF f] False
      have "(sent2 = sent1 \<and> fe \<noteq> None) \<or> (\<exists>q a. sent2 = sent1 @ [(q, a)] \<and> (fe = None \<longleftrightarrow> accepted a) \<and> ?fallback q)"
        by auto
      with first Some r show ?thesis by auto
    qed
  qed
qed

text \<open>A hook that fails and a fallback that accepts.\<close>

definition half_network :: "unit http_env" where
  "half_network =
     \<lparr>url_Parse = (\<lambda>u. Some \<lparr>u_Scheme = ''https'', u_Host = ''h'', u_Path = u, u_RawPath = [], u_RawQuery = [],
        u_Fragment = [], u_Userinfo = []\<rparr>), url_String = u_Path,
      http_Do = (\<lambda>q w. (if rq_url q = ''mm'' then Inr \<lparr>rp_status = 200, rp_status_text = ''200 OK'', rp_body = [], rp_read_error = None\<rparr>
        else Inl ErrDeadlineExceeded, w))\<rparr>"

definition sample_client :: notificationClient where
  "sample_client = newNotificationClient ''/hooks/t'' ''mm''"

theorem Send_delivery_witness:
  "\<exists>sent w'. Send (transcript half_network) sample_client (rawLogAlertCard ''l'') ''u'' ''c'' ''m'' [] ([], ()) = (None, sent, w')
     \<and> length sent \<le> 2 \<and> sent \<noteq> [] \<and> accepted (snd (last sent))"
proof -
  obtain err sent w' where s: "Send (transcript half_network) sample_client (rawLogAlertCard ''l'') ''u'' ''c'' ''m'' [] ([], ())
    = (err, sent, w')" by (metis prod.exhaust)
  have e: "tintwireEndpoint half_network ''/hooks/t'' = Inr (''/api/v1/notifications'', ''t'')"
    by (simp add: tintwireEndpoint_def half_network_def trim_char_def TrimSpace_word ascii_def byte_def is_space_def)
  have p: "url_Parse half_network u \<noteq> None"
    and d: "http_Do half_network q () = (if rq_url q = ''mm''
      then Inr \<lparr>rp_status = 200, rp_status_text = ''200 OK'', rp_body = [], rp_read_error = None\<rparr> else Inl ErrDeadlineExceeded, ())"
    for u q by (simp_all add: half_network_def)
  have primary: "sendTintwire (transcript half_network) sample_client tc ([], ()) =
      (Some ErrDeadlineExceeded, snd (sendTintwire (transcript half_network) sample_client tc ([], ())))" for tc
    by (simp add: sendTintwire_def sample_client_def newNotificationClient_def e postJSON_def p d)
  have fallback: "postJSON (transcript half_network) sample_client ''mm'' '''' payload st \<noteq> (Some err', st')" for payload st err' st'
    by (cases st) (simp add: postJSON_def p d)
  have "nt_mattermostURL sample_client = ''mm''" by (simp add: sample_client_def newNotificationClient_def)
  then have "err = None"
    using s primary fallback by (simp add: Send_def Let_def split: prod.splits option.splits)
  with Send_delivery [OF s] s show ?thesis by blast
qed

section \<open>Truncation: properties\<close>

text \<open>A string cut at a rune boundary decodes to the runes before the cut.\<close>

lemma decode_rune_cut:
  assumes d: "decode_rune (c # cs) = (r, w)" and u: "drop w (c # cs) = u @ v"
  shows "decode_rune (take w (c # cs) @ u) = (r, w)"
proof (cases "r = rune_error \<and> w = 1")
  case False
  then show ?thesis using decode_rune_stable [OF d] by simp
next
  case True
  obtain r' w' where d': "decode_rune (c # u) = (r', w')" by fastforce
  have "r' = rune_error \<and> w' = 1"
  proof (rule ccontr)
    assume not: "\<not> (r' = rune_error \<and> w' = 1)"
    have "take w' (c # u) @ drop w' (c # u) @ v = c # cs" using u True by simp
    then have "decode_rune (c # cs) = (r', w')" using decode_rune_stable [OF d' _ not, of "drop w' (c # u) @ v"] by simp
    with d True not show False by simp
  qed
  with d' True show ?thesis by simp
qed

lemma decode_runes_take: "decode_runes (runes_string (take n (decode_runes s))) = take n (decode_runes s)"
proof (induction s arbitrary: n rule: decode_runes.induct)
  case (2 c cs)
  obtain r w where d: "decode_rune (c # cs) = (r, w)" by fastforce
  show ?case
  proof (cases n)
    case (Suc m)
    let ?rest = "decode_runes (drop w (c # cs))" and ?u = "runes_string (take m (decode_runes (drop w (c # cs))))"
    have "drop w (c # cs) = ?u @ runes_string (drop m ?rest)"
      by (metis append_take_drop_id decode_runes_string runes_string_simps(3))
    then have du: "decode_rune (take w (c # cs) @ ?u) = (r, w)" by (rule decode_rune_cut [OF d])
    have w: "1 \<le> w" "w \<le> length (c # cs)" using decode_rune_width [of "c # cs"] d by auto
    then obtain bs where bs: "take w (c # cs) = c # bs" "length (c # bs) = w" by (cases w) auto
    have tw: "take w ((c # bs) @ ?u) = c # bs" "drop w ((c # bs) @ ?u) = ?u"
      by (simp_all add: bs(2) [symmetric])
    have "decode_runes (take w (c # cs) @ ?u) = (r, take w (c # cs)) # decode_runes ?u"
      using du bs(1) tw by (simp add: decode_runes.simps(2))
    then show ?thesis using Suc d "2.IH" [OF d [symmetric] refl, of m] by (simp add: decode_runes.simps(2))
  qed simp
qed simp

lemma valid_utf8_take: "valid_utf8 s \<Longrightarrow> valid_utf8 (runes_string (take n (decode_runes s)))"
  by (auto simp: valid_utf8_def decode_runes_take list_all_iff dest: in_set_takeD)

lemma truncate_loop_spec:
  assumes "int i \<le> maxBytes" and "maxBytes < int (i + length (runes_string rs))"
  shows "\<exists>n < length rs. truncate_loop maxBytes i lastBoundary rs = i + length (runes_string (take n rs))
    \<and> int (i + length (runes_string (take n rs))) \<le> maxBytes
    \<and> maxBytes < int (i + length (runes_string (take (Suc n) rs)))"
  using assms
proof (induction rs arbitrary: i lastBoundary)
  case (Cons r rs)
  show ?case
  proof (cases "int (i + length (snd r)) \<le> maxBytes")
    case True
    with Cons.prems Cons.IH [of "i + length (snd r)" i] obtain n where "n < length rs"
      "truncate_loop maxBytes (i + length (snd r)) i rs = i + length (snd r) + length (runes_string (take n rs))"
      "int (i + length (snd r) + length (runes_string (take n rs))) \<le> maxBytes"
      "maxBytes < int (i + length (snd r) + length (runes_string (take (Suc n) rs)))" by auto
    then show ?thesis using Cons.prems(1) by (intro exI [of _ "Suc n"]) (simp add: add.assoc)
  next
    case False
    have "truncate_loop maxBytes (i + length (snd r)) i rs = i" using False by (cases rs) simp_all
    then show ?thesis using Cons.prems(1) False by (intro exI [of _ 0]) simp
  qed
qed simp

text \<open>
  C39. Truncation keeps the longest prefix that ends at a rune boundary and has at most \<open>maxBytes\<close> bytes;
  it splits no rune, so valid UTF-8 stays valid.
\<close>

theorem truncateUTF8_longest:
  assumes "0 \<le> maxBytes"
  shows "int (length (truncateUTF8 v maxBytes)) \<le> maxBytes
    \<and> (\<exists>n. decode_runes (truncateUTF8 v maxBytes) = take n (decode_runes v)
         \<and> (truncateUTF8 v maxBytes = v \<or> maxBytes < int (length (runes_string (take (Suc n) (decode_runes v))))))
    \<and> (valid_utf8 v \<longrightarrow> valid_utf8 (truncateUTF8 v maxBytes))"
proof (cases "int (length v) \<le> maxBytes")
  case True
  then show ?thesis by (auto simp: truncateUTF8_def intro!: exI [of _ "length (decode_runes v)"])
next
  case False
  with assms truncate_loop_spec [of 0 maxBytes "decode_runes v" 0] obtain n where
    n: "truncate_loop maxBytes 0 0 (decode_runes v) = length (runes_string (take n (decode_runes v)))"
      "int (length (runes_string (take n (decode_runes v)))) \<le> maxBytes"
      "maxBytes < int (length (runes_string (take (Suc n) (decode_runes v))))" by auto
  have "v = runes_string (take n (decode_runes v)) @ runes_string (drop n (decode_runes v))"
    by (metis append_take_drop_id decode_runes_string runes_string_simps(3))
  then have "truncateUTF8 v maxBytes = runes_string (take n (decode_runes v))"
    using False n(1) by (metis append_eq_conv_conj truncateUTF8_def)
  then show ?thesis using n decode_runes_take [of n v] valid_utf8_take [of v n] by auto
qed

theorem truncateUTF8_longest_witness: "length (truncateUTF8 (encode_rune 8364 @ encode_rune 8364) 5) \<le> 5"
  using truncateUTF8_longest [of 5 "encode_rune 8364 @ encode_rune 8364"] by linarith

end
