(* ===== verification/Go_Time.thy ===== *)
theory Go_Time
  imports Go_Strings
begin

text \<open>
  How package \<open>time\<close> rounds and prints durations, and prints an instant in UTC in the RFC 3339 layout.
\<close>

section \<open>Durations\<close>

definition max_duration :: duration where "max_duration = max_int64"

text \<open>\<open>d.Round(m)\<close>: the nearest multiple, halves away from zero; out of range it saturates.\<close>

definition dur_Round :: "duration \<Rightarrow> duration \<Rightarrow> duration" where
  "dur_Round d m =
     (if m \<le> 0 then d
      else
        let r = \<bar>d\<bar> mod m in
        if d < 0 then
          (if 2 * r < m then d + r else if min_int64 \<le> d - m + r then d - m + r else min_int64)
        else
          (if 2 * r < m then d - r else if d + m - r \<le> max_int64 then d + m - r else max_duration))"

text \<open>The fraction with \<open>prec\<close> digits, its trailing zeros omitted.\<close>

definition zero_padded :: "nat \<Rightarrow> nat \<Rightarrow> string" where
  "zero_padded width n = replicate (width - length (nat_dec n)) (CHR ''0'') @ nat_dec n"

definition fmt_frac :: "nat \<Rightarrow> nat \<Rightarrow> string" where
  "fmt_frac prec f = (if f = 0 then [] else ''.'' @ rev (dropWhile (\<lambda>c. c = CHR ''0'') (rev (zero_padded prec f))))"

definition micro_sign :: string where
  "micro_sign = [byte_char 194, byte_char 181]"

definition dur_String :: "duration \<Rightarrow> string" where
  "dur_String d =
     (let u = nat \<bar>d\<bar>;
          t = (if u = 0 then ''0s''
               else if u < 1000 then nat_dec u @ ''ns''
               else if u < 1000000 then nat_dec (u div 1000) @ fmt_frac 3 (u mod 1000) @ micro_sign @ ''s''
               else if u < 1000000000 then nat_dec (u div 1000000) @ fmt_frac 6 (u mod 1000000) @ ''ms''
               else
                 let s = u div 1000000000; m = s div 60; h = m div 60;
                     secs = nat_dec (s mod 60) @ fmt_frac 9 (u mod 1000000000) @ ''s''
                 in if m = 0 then secs
                    else if h = 0 then nat_dec (m mod 60) @ ''m'' @ secs
                    else nat_dec h @ ''h'' @ nat_dec (m mod 60) @ ''m'' @ secs)
      in if d < 0 then ''-'' @ t else t)"

section \<open>Instants\<close>

text \<open>The civil date (year, month, day) of a number of days since 1970-01-01.\<close>

definition civil_of_days :: "int \<Rightarrow> int \<times> int \<times> int" where
  "civil_of_days days =
     (let z = days + 719468;
          era = z div 146097;
          doe = z mod 146097;
          yoe = (doe - doe div 1460 + doe div 36524 - doe div 146096) div 365;
          doy = doe - (365 * yoe + yoe div 4 - yoe div 100);
          mp = (5 * doy + 2) div 153;
          d = doy - (153 * mp + 2) div 5 + 1;
          m = (if mp < 10 then mp + 3 else mp - 9)
      in (yoe + era * 400 + (if m \<le> 2 then 1 else 0), m, d))"

definition two_digits :: "int \<Rightarrow> string" where
  "two_digits n = zero_padded 2 (nat n)"

definition format_year :: "int \<Rightarrow> string" where
  "format_year y = (if y < 0 then ''-'' else []) @ zero_padded 4 (nat \<bar>y\<bar>)"

text \<open>\<open>time.UnixMilli(ms).UTC().Format(time.RFC3339)\<close>\<close>

definition rfc3339_of_UnixMilli :: "int \<Rightarrow> string" where
  "rfc3339_of_UnixMilli ms =
     (let s = ms div 1000; (y, m, d) = civil_of_days (s div 86400); t = s mod 86400
      in format_year y @ ''-'' @ two_digits m @ ''-'' @ two_digits d @ ''T'' @ two_digits (t div 3600) @ '':''
         @ two_digits (t div 60 mod 60) @ '':'' @ two_digits (t mod 60) @ ''Z'')"

end
