(* ===== verification/Incident.thy ===== *)
theory Incident
  imports Incident_Store Notifier Telemetry Go_Time
begin

text \<open>
  incident.go: the compiled rules and the match of a line, the recording of an event, its notification,
  and the sweep that closes quiet incidents into the recovery outbox and publishes the outbox. The
  operations of the store are those of \<open>Incident_Store\<close> and \<open>Keydb\<close>; the outbox is an interface
  (\<open>outbox\<close>) that the queue of the store provides.
\<close>

section \<open>Rules\<close>

record compiledIncidentRule =
  cr_rule :: IncidentRule
  cr_patterns :: "regex list"

text \<open>The pointers to the notifier may be nil (None).\<close>

record incidentAggregator =
  ag_cfg :: IncidentAggregationConfig
  ag_rules :: "compiledIncidentRule list"
  ag_notifier :: "notificationClient option"
  ag_iconURL :: string

fun compile_patterns :: "(string \<Rightarrow> regex result) \<Rightarrow> (string \<Rightarrow> string) \<Rightarrow> string \<Rightarrow> string list \<Rightarrow> regex list result" where
  "compile_patterns compile quote name [] = Inr []"
| "compile_patterns compile quote name (pattern # patterns) =
     (case compile pattern of
        Inl e \<Rightarrow> Inl (ErrWrap (''incident aggregation rule '' @ quote name @ '' pattern '' @ quote pattern) e)
      | Inr re \<Rightarrow>
          (case compile_patterns compile quote name patterns of Inl e \<Rightarrow> Inl e | Inr res \<Rightarrow> Inr (re # res)))"

fun compile_rules ::
  "(string \<Rightarrow> regex result) \<Rightarrow> (string \<Rightarrow> string) \<Rightarrow> string set \<Rightarrow> IncidentRule list \<Rightarrow> compiledIncidentRule list result" where
  "compile_rules compile quote seen [] = Inr []"
| "compile_rules compile quote seen (rule # rules) =
     (if TrimSpace (ir_Name rule) = '''' \<or> TrimSpace (ir_Title rule) = '''' \<or> length (ir_Patterns rule) = 0
      then Inl (ErrText ''incident aggregation rules require name, title, and patterns'')
      else if ir_Name rule \<in> seen
      then Inl (ErrText (''duplicate incident aggregation rule '' @ quote (ir_Name rule)))
      else (case compile_patterns compile quote (ir_Name rule) (ir_Patterns rule) of
              Inl e \<Rightarrow> Inl e
            | Inr res \<Rightarrow>
                (case compile_rules compile quote (insert (ir_Name rule) seen) rules of
                   Inl e \<Rightarrow> Inl e
                 | Inr crs \<Rightarrow> Inr (\<lparr>cr_rule = rule, cr_patterns = res\<rparr> # crs))))"

definition newIncidentAggregator ::
  "(string \<Rightarrow> regex result) \<Rightarrow> (string \<Rightarrow> string) \<Rightarrow> IncidentAggregationConfig \<Rightarrow> bool \<Rightarrow> notificationClient option \<Rightarrow> string
     \<Rightarrow> incidentAggregator result" where
  "newIncidentAggregator compile quote cfg has_store notifier iconURL =
     (let a = \<lparr>ag_cfg = cfg, ag_rules = [], ag_notifier = notifier, ag_iconURL = iconURL\<rparr>
      in if \<not> ia_Enabled cfg then Inr a
         else if \<not> has_store \<or> notifier = None then Inl (ErrText ''incident aggregation requires KeyDB and notifier'')
         else if ia_QuietSeconds cfg \<le> 0 \<or> ia_ReminderEvery cfg \<le> 0
         then Inl (ErrText ''incident aggregation quiet_seconds and reminder_every must be positive'')
         else (case compile_rules compile quote {} (ia_Rules cfg) of
                 Inl e \<Rightarrow> Inl e | Inr crs \<Rightarrow> Inr (a\<lparr>ag_rules := crs\<rparr>)))"

text \<open>The loops over the rules and their patterns: the first rule with a pattern that matches.\<close>

fun match_rules :: "string \<Rightarrow> compiledIncidentRule list \<Rightarrow> compiledIncidentRule option" where
  "match_rules t [] = None"
| "match_rules t (rule # rules) =
     (if list_ex (\<lambda>p. MatchString p t) (cr_patterns rule) then Some rule else match_rules t rules)"

definition Match :: "incidentAggregator \<Rightarrow> string \<Rightarrow> parsed_line \<Rightarrow> compiledIncidentRule option" where
  "Match a line parsed =
     (if \<not> ia_Enabled (ag_cfg a) then None
      else match_rules (if parsed \<noteq> None \<and> parsed_get parsed ''text'' \<noteq> '''' then parsed_get parsed ''text'' else line)
             (ag_rules a))"

section \<open>Events and their notification\<close>

text \<open>\<open>observed\<close> is the process's clock, \<open>ms\<close> the server's at the request of circumstances \<open>net\<close>.\<close>

definition Record ::
  "'r redis_env \<Rightarrow> net \<Rightarrow> int \<Rightarrow> instant \<Rightarrow> incidentAggregator \<Rightarrow> compiledIncidentRule \<Rightarrow> parsed_line \<Rightarrow> string
     \<Rightarrow> 'r \<Rightarrow> IncidentUpdate result \<times> 'r" where
  "Record env net ms observed a rule parsed sample st =
     (let (host, process) = (if parsed \<noteq> None then (parsed_get parsed ''host'', parsed_get parsed ''process'') else ([], []))
      in RecordIncident env net ms (ir_Name (cr_rule rule)) (ir_Title (cr_rule rule)) (truncateUTF8 sample 500) host process
           observed (dur_mul (ia_QuietSeconds (ag_cfg a)) Second) (ia_ReminderEvery (ag_cfg a)) st)"

text \<open>The dash of the messages, U+2014.\<close>

definition em_dash :: string where
  "em_dash = [byte_char 226, byte_char 128, byte_char 148]"

definition bold_message :: "string \<Rightarrow> string \<Rightarrow> string" where
  "bold_message title summary = ''**'' @ title @ ''** '' @ em_dash @ '' '' @ summary"

definition incidentNotification ::
  "compiledIncidentRule \<Rightarrow> IncidentUpdate \<Rightarrow> parsed_line \<Rightarrow> string \<Rightarrow> tintwireCard \<times> string" where
  "incidentNotification rule update parsed sample =
     (let first = rfc3339_of_UnixMilli (FirstSeenMS update);
          (title, summary) =
            (if Count update > 1
             then (ir_Title (cr_rule rule) @ '' update'',
                   Itoa (Count update) @ '' related events since '' @ first @ ''. Latest: '' @ truncateUTF8 sample 350)
             else (ir_Title (cr_rule rule), truncateUTF8 sample 500));
          flds = [\<lparr>tf_Label = ''Events'', tf_Value = Itoa (Count update)\<rparr>, \<lparr>tf_Label = ''First seen'', tf_Value = first\<rparr>];
          flds = (if parsed \<noteq> None \<and> parsed_get parsed ''host'' \<noteq> ''''
                  then flds @ [\<lparr>tf_Label = ''Latest host'', tf_Value = parsed_get parsed ''host''\<rparr>] else flds)
      in (\<lparr>tc_Version = 1, tc_Channel = [], tc_Title = title, tc_Summary = summary, tc_Severity = ''warning'',
           tc_Source = ''clattermark'', tc_Fields = flds, tc_Actions = []\<rparr>, bold_message title summary))"

definition Release ::
  "'r redis_env \<Rightarrow> net \<Rightarrow> int \<Rightarrow> compiledIncidentRule \<Rightarrow> int \<Rightarrow> 'r \<Rightarrow> 'r" where
  "Release env net ms rule n st = snd (ReleaseIncidentNotification env net ms (ir_Name (cr_rule rule)) n st)"

section \<open>The sweep\<close>

text \<open>
  The process counts failures in its telemetry, which may be nil. \<open>incr\<close> is \<open>Add(1)\<close> on one counter. Before
  each request of the sweep other clients may act (\<open>before\<close>); the request has circumstances \<open>net\<close>.
\<close>

definition incr :: "((64 word \<Rightarrow> 64 word) \<Rightarrow> telemetry \<Rightarrow> telemetry) \<Rightarrow> telemetry option \<Rightarrow> telemetry option" where
  "incr upd m = map_option (upd (\<lambda>n. n + 1)) m"

type_synonym 'r step_env = "('r \<Rightarrow> 'r) \<times> net \<times> int"

fun close_names ::
  "'r redis_env \<Rightarrow> instant \<Rightarrow> int \<Rightarrow> (nat \<Rightarrow> 'r step_env) \<Rightarrow> nat \<Rightarrow> string list \<Rightarrow> 'r \<times> telemetry option
     \<Rightarrow> 'r \<times> telemetry option" where
  "close_names env cutoff mx sched i [] s = s"
| "close_names env cutoff mx sched i (name # names) (st, m) =
     (let (before, net, ms) = sched i
      in case CloseIncidentToOutbox env net ms name cutoff mx (before st) of
           (Inl e, st') \<Rightarrow> close_names env cutoff mx sched (Suc i) names (st', incr keyDBFailures_update m)
         | (Inr b, st') \<Rightarrow> close_names env cutoff mx sched (Suc i) names (st', m))"

definition closeQuiet ::
  "'r redis_env \<Rightarrow> instant \<Rightarrow> incidentAggregator \<Rightarrow> (nat \<Rightarrow> 'r step_env) \<Rightarrow> 'r \<times> telemetry option \<Rightarrow> 'r \<times> telemetry option" where
  "closeQuiet env now a sched s =
     (let (st, m) = s;
          cutoff = time_Add now (dur_mul (wrap64 (- ia_QuietSeconds (ag_cfg a))) Second);
          (before, net, ms) = sched 0
      in case DueIncidents env net ms cutoff 100 (before st) of
           (Inl e, st') \<Rightarrow> (st', incr keyDBFailures_update m)
         | (Inr names, st') \<Rightarrow>
             let mx = (if ia_RecoveryOutboxMax (ag_cfg a) \<le> 0 then 1000 else ia_RecoveryOutboxMax (ag_cfg a))
             in close_names env cutoff mx sched 1 names (st', m))"

record incidentRecovery =
  iv_Name :: string
  iv_Title :: string
  iv_FirstSeenMS :: string
  iv_LastSeenMS :: string
  iv_Count :: string
  iv_Sample :: string
  iv_Hosts :: "string list"
  iv_Processes :: "string list"

definition zero_incidentRecovery :: incidentRecovery where
  "zero_incidentRecovery = \<lparr>iv_Name = [], iv_Title = [], iv_FirstSeenMS = [], iv_LastSeenMS = [], iv_Count = [],
     iv_Sample = [], iv_Hosts = [], iv_Processes = []\<rparr>"

definition dec_incidentRecovery :: "incidentRecovery \<Rightarrow> (string \<times> json) list \<Rightarrow> incidentRecovery option" where
  "dec_incidentRecovery c ms = do {
     name \<leftarrow> str_field ''name'' (iv_Name c) ms;
     title \<leftarrow> str_field ''title'' (iv_Title c) ms;
     first \<leftarrow> str_field ''first_seen_ms'' (iv_FirstSeenMS c) ms;
     lastms \<leftarrow> str_field ''last_seen_ms'' (iv_LastSeenMS c) ms;
     n \<leftarrow> str_field ''count'' (iv_Count c) ms;
     sample \<leftarrow> str_field ''sample'' (iv_Sample c) ms;
     hosts \<leftarrow> strs_field ''hosts'' (iv_Hosts c) ms;
     processes \<leftarrow> strs_field ''processes'' (iv_Processes c) ms;
     Some \<lparr>iv_Name = name, iv_Title = title, iv_FirstSeenMS = first, iv_LastSeenMS = lastms, iv_Count = n,
       iv_Sample = sample, iv_Hosts = hosts, iv_Processes = processes\<rparr> }"

definition decode_recovery :: "string \<Rightarrow> incidentRecovery option" where
  "decode_recovery item = unmarshal_struct dec_incidentRecovery zero_incidentRecovery item"

text \<open>The card and the message of a recovery.\<close>

definition recovery_notice :: "IncidentAggregationConfig \<Rightarrow> incidentRecovery \<Rightarrow> tintwireCard \<times> string" where
  "recovery_notice cfg recovery =
     (let hosts = sort_Strings (iv_Hosts recovery); processes = sort_Strings (iv_Processes recovery);
          n = Atoi_ignore (iv_Count recovery);
          firstMS = Atoi_ignore (iv_FirstSeenMS recovery);
          lastMS = Atoi_ignore (iv_LastSeenMS recovery);
          lasted = dur_mul (wrap64 (lastMS - firstMS)) Millisecond;
          summary = ''No related events for '' @ Itoa (ia_QuietSeconds cfg) @ '' seconds after '' @ Itoa n
            @ '' event(s) over '' @ dur_String (dur_Round lasted Second) @ ''.'';
          flds = [\<lparr>tf_Label = ''Events'', tf_Value = Itoa n\<rparr>];
          flds = (if 0 < length hosts then flds @ [\<lparr>tf_Label = ''Hosts'', tf_Value = str_join '', '' hosts\<rparr>] else flds);
          flds = (if 0 < length processes
                  then flds @ [\<lparr>tf_Label = ''Processes'', tf_Value = str_join '', '' processes\<rparr>] else flds)
      in (\<lparr>tc_Version = 1, tc_Channel = [], tc_Title = iv_Title recovery @ '' quiet'', tc_Summary = summary,
           tc_Severity = ''info'', tc_Source = ''clattermark'', tc_Fields = flds, tc_Actions = []\<rparr>,
          bold_message (iv_Title recovery @ '' quiet'') summary))"

text \<open>
  Sending through the aggregator's notifier; a nil pointer would panic, and \<open>newIncidentAggregator\<close> lets no
  enabled aggregator have one.
\<close>

definition agg_Send ::
  "'w http_env \<Rightarrow> incidentAggregator \<Rightarrow> tintwireCard \<times> string \<Rightarrow> 'w \<Rightarrow> go_error option \<times> 'w" where
  "agg_Send henv a notice w =
     (case ag_notifier a of
        None \<Rightarrow> (Some (GoPanic ''nil pointer dereference''), w)
      | Some c \<Rightarrow> Send henv c (fst notice) ''clattermark'' [] (snd notice) (ag_iconURL a) w)"

text \<open>The loop over the items: what was delivered (or dropped), and the state.\<close>

fun publish_items ::
  "'w http_env \<Rightarrow> incidentAggregator \<Rightarrow> string list \<Rightarrow> int \<Rightarrow> 'w \<times> telemetry option \<Rightarrow> int \<times> 'w \<times> telemetry option" where
  "publish_items henv a [] done s = (done, s)"
| "publish_items henv a (item # items) done (w, m) =
     (case decode_recovery item of
        None \<Rightarrow> publish_items henv a items (done + 1) (w, m)
      | Some recovery \<Rightarrow>
          (case agg_Send henv a (recovery_notice (ag_cfg a) recovery) w of
             (Some e, w') \<Rightarrow> (done, w', incr outboxPublishFailures_update m)
           | (None, w') \<Rightarrow> publish_items henv a items (done + 1) (w', m)))"

text \<open>
  \<open>peek\<close> and \<open>dropq\<close> are \<open>PeekQueue\<close> and \<open>DropQueue\<close> of the store on the recovery outbox; in between other
  clients may act.
\<close>

definition publishRecoveries ::
  "'w http_env \<Rightarrow> incidentAggregator \<Rightarrow> (int \<Rightarrow> 'r \<Rightarrow> string list result \<times> 'r) \<Rightarrow> ('r \<Rightarrow> 'r) \<Rightarrow> (int \<Rightarrow> 'r \<Rightarrow> unit result \<times> 'r)
     \<Rightarrow> 'r \<times> 'w \<times> telemetry option \<Rightarrow> 'r \<times> 'w \<times> telemetry option" where
  "publishRecoveries henv a peek between dropq s =
     (let (st, w, m) = s
      in case peek 20 st of
           (Inl e, st1) \<Rightarrow> (st1, w, incr keyDBFailures_update m)
         | (Inr raw, st1) \<Rightarrow>
             if length raw = 0 then (st1, w, m)
             else let (delivered, w', m') = publish_items henv a raw 0 (w, m); st2 = between st1
                  in if 0 < delivered
                     then (case dropq delivered st2 of
                             (Inl e, st3) \<Rightarrow> (st3, w', incr keyDBFailures_update m')
                           | (Inr u, st3) \<Rightarrow> (st3, w', m'))
                     else (st2, w', m'))"

text \<open>
  One tick of the loop of \<open>Start\<close>: the answer of \<open>isActive\<close> (None when there is no such function), the clock and
  the circumstances of its requests. The loop runs only when enabled, every \<open>sweep_interval\<close>.
\<close>

definition sweep_interval :: "IncidentAggregationConfig \<Rightarrow> duration" where
  "sweep_interval cfg =
     (let interval = dur_mul (ia_SweepSeconds cfg) Second in if interval \<le> 0 then 30 * Second else interval)"

record 'r sweep =
  sw_active :: "bool option"
  sw_now :: instant
  sw_close :: "nat \<Rightarrow> 'r step_env"
  sw_peek :: "'r step_env"
  sw_drop :: "'r step_env"

definition sweep_tick ::
  "'r redis_env \<Rightarrow> 'w http_env \<Rightarrow> incidentAggregator \<Rightarrow> 'r sweep \<Rightarrow> 'r \<times> 'w \<times> telemetry option
     \<Rightarrow> 'r \<times> 'w \<times> telemetry option" where
  "sweep_tick env henv a tick s =
     (if sw_active tick = Some False then s
      else let (st, w, m) = s; (st1, m1) = closeQuiet env (sw_now tick) a (sw_close tick) (st, m);
               (f, net, ms) = sw_peek tick; (g, net', ms') = sw_drop tick
           in publishRecoveries henv a (\<lambda>n st. PeekQueue env net ms recovery_outbox_key n (f st)) g
                (\<lambda>n. DropQueue env net' ms' recovery_outbox_key n) (st1, w, m1))"

fun incident_sweeps ::
  "'r redis_env \<Rightarrow> 'w http_env \<Rightarrow> incidentAggregator \<Rightarrow> 'r sweep list \<Rightarrow> 'r \<times> 'w \<times> telemetry option
     \<Rightarrow> 'r \<times> 'w \<times> telemetry option" where
  "incident_sweeps env henv a [] s = s"
| "incident_sweeps env henv a (tick # ticks) s =
     (if \<not> ia_Enabled (ag_cfg a) then s else incident_sweeps env henv a ticks (sweep_tick env henv a tick s))"

section \<open>Rules: properties\<close>

lemma compile_patterns_ok:
  "compile_patterns compile quote name ps = Inr res \<Longrightarrow> list_all2 (\<lambda>p re. compile p = Inr re) ps res"
  by (induction ps arbitrary: res) (auto split: sum.splits)

definition valid_rule :: "(string \<Rightarrow> regex result) \<Rightarrow> compiledIncidentRule \<Rightarrow> bool" where
  "valid_rule compile r \<longleftrightarrow>
     TrimSpace (ir_Name (cr_rule r)) \<noteq> '''' \<and> TrimSpace (ir_Title (cr_rule r)) \<noteq> '''' \<and> cr_patterns r \<noteq> []
     \<and> list_all2 (\<lambda>p re. compile p = Inr re) (ir_Patterns (cr_rule r)) (cr_patterns r)"

lemma compile_rules_ok:
  "compile_rules compile quote seen rules = Inr crs \<Longrightarrow>
     map cr_rule crs = rules \<and> distinct (map ir_Name rules) \<and> set (map ir_Name rules) \<inter> seen = {}
     \<and> list_all (valid_rule compile) crs"
proof (induction rules arbitrary: seen crs)
  case (Cons rule rules)
  then obtain res crs' where *: "compile_patterns compile quote (ir_Name rule) (ir_Patterns rule) = Inr res"
      "compile_rules compile quote (insert (ir_Name rule) seen) rules = Inr crs'"
      "crs = \<lparr>cr_rule = rule, cr_patterns = res\<rparr> # crs'" "ir_Name rule \<notin> seen"
      "TrimSpace (ir_Name rule) \<noteq> ''''" "TrimSpace (ir_Title rule) \<noteq> ''''" "ir_Patterns rule \<noteq> []"
    by (auto split: if_splits sum.splits)
  have "list_all2 (\<lambda>p re. compile p = Inr re) (ir_Patterns rule) res" using *(1) by (simp add: compile_patterns_ok)
  moreover from this *(7) have "res \<noteq> []" by auto
  ultimately show ?case using Cons.IH [OF *(2)] * by (auto simp: valid_rule_def)
qed simp

text \<open>
  An aggregator that starts enabled is well formed: it has a notifier, positive quiet time and reminder
  interval, and one compiled rule for each configured one, in their order, with distinct names, non-blank
  name and title and all its patterns compiled.
\<close>

theorem newIncidentAggregator_valid:
  assumes "newIncidentAggregator compile quote cfg has_store notifier iconURL = Inr a" and "ia_Enabled cfg"
  shows "ag_cfg a = cfg \<and> ag_notifier a \<noteq> None \<and> 0 < ia_QuietSeconds cfg \<and> 0 < ia_ReminderEvery cfg
    \<and> map cr_rule (ag_rules a) = ia_Rules cfg \<and> distinct (map ir_Name (ia_Rules cfg))
    \<and> list_all (valid_rule compile) (ag_rules a)"
  using assms compile_rules_ok [of compile quote "{}" "ia_Rules cfg"]
  by (auto simp: newIncidentAggregator_def Let_def split: if_splits sum.splits)

definition sample_incident_config :: IncidentAggregationConfig where
  "sample_incident_config = \<lparr>ia_Enabled = True, ia_QuietSeconds = 60, ia_ReminderEvery = 10, ia_SweepSeconds = 0,
     ia_RecoveryOutboxMax = 0, ia_Rules = [\<lparr>ir_Name = ''disk'', ir_Title = ''Disk'', ir_Patterns = [''d'']\<rparr>]\<rparr>"

theorem newIncidentAggregator_valid_witness:
  "\<exists>a. newIncidentAggregator (\<lambda>p. Inr (RLit p)) id sample_incident_config True (Some sample_client) [] = Inr a
     \<and> map cr_rule (ag_rules a) = ia_Rules sample_incident_config \<and> length (ag_rules a) = 1"
proof -
  have "\<exists>a. newIncidentAggregator (\<lambda>p. Inr (RLit p)) id sample_incident_config True (Some sample_client) [] = Inr a"
    by (simp add: newIncidentAggregator_def sample_incident_config_def TrimSpace_word ascii_def byte_def is_space_def)
  then obtain a where a: "newIncidentAggregator (\<lambda>p. Inr (RLit p)) id sample_incident_config True (Some sample_client) [] = Inr a" ..
  have "ia_Enabled sample_incident_config" by (simp add: sample_incident_config_def)
  from newIncidentAggregator_valid [OF a this]
  have m: "map cr_rule (ag_rules a) = ia_Rules sample_incident_config" by blast
  then have "length (ag_rules a) = length (ia_Rules sample_incident_config)" by (metis length_map)
  with a m show ?thesis by (auto simp: sample_incident_config_def)
qed

section \<open>The recovery outbox: properties\<close>

text \<open>
  What the sweep needs of the outbox. \<open>contents t st xs\<close>: from millisecond \<open>t\<close> on the queue is \<open>xs\<close>, the oldest
  item first. Reading shows the oldest items; dropping removes them.
\<close>

locale outbox =
  fixes peek :: "int \<Rightarrow> int \<Rightarrow> 'r \<Rightarrow> string list result \<times> 'r" and dropq :: "int \<Rightarrow> int \<Rightarrow> 'r \<Rightarrow> unit result \<times> 'r"
    and contents :: "int \<Rightarrow> 'r \<Rightarrow> string list \<Rightarrow> bool"
  assumes contents_later: "contents t st xs \<Longrightarrow> t \<le> t' \<Longrightarrow> contents t' st xs"
    and peek_oldest: "contents t st xs \<Longrightarrow> fst (peek t n st) = Inr (take (nat n) xs) \<and> contents t (snd (peek t n st)) xs"
    and dropq_oldest: "contents t st xs \<Longrightarrow> fst (dropq t n st) = Inr () \<and> contents t (snd (dropq t n st)) (drop (nat n) xs)"

text \<open>An item is settled when it cannot be decoded or its notification was delivered.\<close>

definition settled :: "'w http_env \<Rightarrow> incidentAggregator \<Rightarrow> string \<Rightarrow> bool" where
  "settled henv a item \<longleftrightarrow> (case decode_recovery item of None \<Rightarrow> True
     | Some rv \<Rightarrow> \<exists>w w'. agg_Send henv a (recovery_notice (ag_cfg a) rv) w = (None, w'))"

definition refused :: "'w http_env \<Rightarrow> incidentAggregator \<Rightarrow> string \<Rightarrow> bool" where
  "refused henv a item \<longleftrightarrow> (\<exists>rv w e w'. decode_recovery item = Some rv
     \<and> agg_Send henv a (recovery_notice (ag_cfg a) rv) w = (Some e, w'))"

lemma publish_items_spec:
  "\<exists>d w' m'. publish_items henv a items n (w, m) = (n + int d, w', m') \<and> d \<le> length items
     \<and> list_all (settled henv a) (take d items) \<and> (d < length items \<longrightarrow> refused henv a (items ! d))"
proof (induction items arbitrary: n w m)
  case (Cons item items)
  show ?case
  proof (cases "decode_recovery item")
    case None
    from Cons [of "n + 1" w m] obtain d w' m' where "publish_items henv a items (n + 1) (w, m) = (n + 1 + int d, w', m')"
      "d \<le> length items" "list_all (settled henv a) (take d items)" "d < length items \<longrightarrow> refused henv a (items ! d)" by blast
    moreover have "settled henv a item" using None by (simp add: settled_def)
    ultimately show ?thesis using None by (intro exI [of _ "Suc d"]) simp
  next
    case (Some rv)
    obtain err w1 where s: "agg_Send henv a (recovery_notice (ag_cfg a) rv) w = (err, w1)" by fastforce
    show ?thesis
    proof (cases err)
      case None
      from Cons [of "n + 1" w1 m] obtain d w' m' where "publish_items henv a items (n + 1) (w1, m) = (n + 1 + int d, w', m')"
        "d \<le> length items" "list_all (settled henv a) (take d items)" "d < length items \<longrightarrow> refused henv a (items ! d)" by blast
      moreover have "settled henv a item" using Some s None by (auto simp: settled_def)
      ultimately show ?thesis using Some s None by (intro exI [of _ "Suc d"]) simp
    next
      case (Some e)
      have "refused henv a item" using \<open>decode_recovery item = Some rv\<close> s Some by (auto simp: refused_def)
      then show ?thesis using \<open>decode_recovery item = Some rv\<close> s Some by (intro exI [of _ 0]) simp
    qed
  qed
qed simp

text \<open>The count starts anywhere.\<close>

lemma publish_items_count: "publish_items henv a items (n + k) s = map_prod (\<lambda>d. d + k) (\<lambda>s. s) (publish_items henv a items n s)"
proof (induction items arbitrary: n s)
  case (Cons item items)
  obtain w m where s: "s = (w, m)" by fastforce
  have "publish_items henv a items (n + k + 1) s' = map_prod (\<lambda>d. d + k) (\<lambda>s. s) (publish_items henv a items (n + 1) s')" for s'
    using Cons [of "n + 1" s'] by (simp add: add.assoc add.commute [of 1 k])
  then show ?case unfolding s by (auto split: option.splits prod.splits)
qed simp

text \<open>With a network that delivers everything every item is settled.\<close>

definition delivers :: "'w http_env \<Rightarrow> incidentAggregator \<Rightarrow> bool" where
  "delivers henv a \<longleftrightarrow> (\<forall>notice w. fst (agg_Send henv a notice w) = None)"

lemma delivers_not_refused: "delivers henv a \<Longrightarrow> \<not> refused henv a item"
  unfolding delivers_def refused_def by (metis fst_conv option.distinct(1))

text \<open>A network that delivers everything and whose state shows what was sent: each notice adds its request.\<close>

definition records :: "'w http_env \<Rightarrow> incidentAggregator \<Rightarrow> ('w \<Rightarrow> 'q list) \<Rightarrow> (tintwireCard \<times> string \<Rightarrow> 'q) \<Rightarrow> bool" where
  "records henv a sent req \<longleftrightarrow> (\<forall>notice w. \<exists>w'. agg_Send henv a notice w = (None, w') \<and> sent w' = sent w @ [req notice])"

lemma records_delivers: "records henv a sent req \<Longrightarrow> delivers henv a"
  unfolding records_def delivers_def by (metis fst_conv)

text \<open>The requests for the recoveries among some items, in their order.\<close>

definition recovery_requests :: "incidentAggregator \<Rightarrow> (tintwireCard \<times> string \<Rightarrow> 'q) \<Rightarrow> string list \<Rightarrow> 'q list" where
  "recovery_requests a req items = map (\<lambda>rv. req (recovery_notice (ag_cfg a) rv)) (List.map_filter decode_recovery items)"

lemma recovery_requests_simps [simp]:
  "recovery_requests a req [] = []"
  "recovery_requests a req (item # items) =
     (case decode_recovery item of None \<Rightarrow> [] | Some rv \<Rightarrow> [req (recovery_notice (ag_cfg a) rv)]) @ recovery_requests a req items"
  by (simp_all add: recovery_requests_def List.map_filter_def split: option.split)

lemma publish_items_records:
  assumes "records henv a sent req"
  shows "\<exists>w'. publish_items henv a items n (w, m) = (n + int (length items), w', m)
    \<and> sent w' = sent w @ recovery_requests a req items"
proof (induction items arbitrary: n w)
  case (Cons item items)
  show ?case
  proof (cases "decode_recovery item")
    case None
    then show ?thesis using Cons [of "n + 1" w] by auto
  next
    case (Some rv)
    obtain w1 where w1: "agg_Send henv a (recovery_notice (ag_cfg a) rv) w = (None, w1)"
        "sent w1 = sent w @ [req (recovery_notice (ag_cfg a) rv)]"
      using assms unfolding records_def by blast
    then show ?thesis using Some Cons [of "n + 1" w1] by auto
  qed
qed simp

text \<open>A client that only appends to the queue.\<close>

definition appends :: "(int \<Rightarrow> 'r \<Rightarrow> string list \<Rightarrow> bool) \<Rightarrow> int \<Rightarrow> int \<Rightarrow> ('r \<Rightarrow> 'r) \<Rightarrow> string list \<Rightarrow> bool" where
  "appends contents t t' f ys \<longleftrightarrow> (\<forall>st xs. contents t st xs \<longrightarrow> contents t' (f st) (xs @ ys))"

text \<open>Rounds of publishing at given times, with no other client in between.\<close>

fun publish_rounds ::
  "'w http_env \<Rightarrow> incidentAggregator \<Rightarrow> (int \<Rightarrow> int \<Rightarrow> 'r \<Rightarrow> string list result \<times> 'r) \<Rightarrow> (int \<Rightarrow> int \<Rightarrow> 'r \<Rightarrow> unit result \<times> 'r)
     \<Rightarrow> int list \<Rightarrow> 'r \<times> 'w \<times> telemetry option \<Rightarrow> 'r \<times> 'w \<times> telemetry option" where
  "publish_rounds henv a peek dropq [] s = s"
| "publish_rounds henv a peek dropq (t # ts) s =
     publish_rounds henv a peek dropq ts (publishRecoveries henv a (peek t) (\<lambda>st. st) (dropq t) s)"

context outbox
begin

text \<open>One round, when the other clients have made the queue \<open>zs\<close> in between: the drop counts from its new front.\<close>

lemma publish_round:
  assumes c: "contents t st xs" and ne: "xs \<noteq> []" and f: "\<And>st1. contents t st1 xs \<Longrightarrow> contents t' (between st1) zs"
    and p: "publishRecoveries henv a (peek t) between (dropq t') (st, w, m) = (st', w', m')"
  shows "\<exists>d \<le> min 20 (length xs). contents t' st' (drop d zs) \<and> publish_items henv a (take 20 xs) 0 (w, m) = (int d, w', m')
      \<and> list_all (settled henv a) (take d xs) \<and> (d < min 20 (length xs) \<longrightarrow> refused henv a (xs ! d))"
proof -
  obtain st1 where k: "peek t 20 st = (Inr (take 20 xs), st1)" and c1: "contents t st1 xs"
    using peek_oldest [OF c, of 20] by (metis nat_numeral prod.collapse)
  obtain d w1 m1 where i: "publish_items henv a (take 20 xs) 0 (w, m) = (int d, w1, m1)" "d \<le> length (take 20 xs)"
      "list_all (settled henv a) (take d (take 20 xs))" "d < length (take 20 xs) \<longrightarrow> refused henv a (take 20 xs ! d)"
    using publish_items_spec [of henv a "take 20 xs" 0 w m] by (metis add_0)
  note c2 = f [OF c1]
  obtain st3 where dr: "dropq t' (int d) (between st1) = (Inr (), st3)" and c3: "contents t' st3 (drop d zs)"
    using dropq_oldest [OF c2, of "int d"] by (metis nat_int prod.collapse)
  have le: "d \<le> min 20 (length xs)" using i(2) by simp
  have nz: "min (length xs) 20 \<noteq> 0" using ne by simp
  have "st' = (if 0 < d then st3 else between st1) \<and> w' = w1 \<and> m' = m1"
    using p k i(1) dr nz by (auto simp: publishRecoveries_def split: if_splits)
  then have "contents t' st' (drop d zs)" "publish_items henv a (take 20 xs) 0 (w, m) = (int d, w', m')"
    using c2 c3 i(1) by (cases "0 < d"; simp)+
  moreover have "list_all (settled henv a) (take d xs)" using i(3) le by (simp add: min_absorb1)
  moreover have "d < min 20 (length xs) \<longrightarrow> refused henv a (xs ! d)" using i(4) by simp
  ultimately show ?thesis using le by auto
qed

lemma publish_step:
  assumes c: "contents t st xs" and f: "appends contents t t' between ys"
    and p: "publishRecoveries henv a (peek t) between (dropq t') (st, w, m) = (st', w', m')"
  shows "\<exists>d \<le> min 20 (length xs). contents (if xs = [] then t else t') st' (drop d xs @ (if xs = [] then [] else ys))
      \<and> list_all (settled henv a) (take d xs) \<and> (d < min 20 (length xs) \<longrightarrow> refused henv a (xs ! d))"
proof (cases "xs = []")
  case True
  obtain st1 where k: "peek t 20 st = (Inr (take 20 xs), st1)" and c1: "contents t st1 xs"
    using peek_oldest [OF c, of 20] by (metis nat_numeral prod.collapse)
  then have "st' = st1" using p True by (simp add: publishRecoveries_def)
  with True c1 show ?thesis by simp
next
  case False
  have "contents t' (between st1) (xs @ ys)" if "contents t st1 xs" for st1 using f that by (simp add: appends_def)
  from publish_round [OF c False this p] show ?thesis using False by auto
qed

text \<open>
  Another process runs a whole round on the same queue between the reading and the drop of the first one, which read the
  queue into \<open>st1\<close>.
\<close>

lemma overlapping_rounds:
  assumes c: "contents t st xs" and ne: "xs \<noteq> []" and ts: "t \<le> t1" "t1 \<le> t'"
    and r: "records henv a sent req" "records henv' a' sent' req'"
    and other: "publishRecoveries henv' a' (peek t1) (\<lambda>st. st) (dropq t1) (snd (peek t 20 st), v, l) = (st2, v', l')"
    and p: "publishRecoveries henv a (peek t) (\<lambda>st1. st2) (dropq t') (st, w, m) = (st', w', m')"
  shows "contents t' st' (drop (2 * min 20 (length xs)) xs)
    \<and> sent w' = sent w @ recovery_requests a req (take 20 xs) \<and> sent' v' = sent' v @ recovery_requests a' req' (take 20 xs)"
proof -
  have all: "d = min 20 (length xs)" if "d \<le> min 20 (length xs)" "d < min 20 (length xs) \<longrightarrow> refused henv a (xs ! d)"
      "delivers henv a" for d and henv :: "'z http_env" and a
    using that delivers_not_refused by fastforce
  have "contents t (snd (peek t 20 st)) xs" using peek_oldest [OF c] by blast
  then have c1: "contents t1 (snd (peek t 20 st)) xs" using contents_later ts(1) by blast
  obtain d where d: "d \<le> min 20 (length xs)" "contents t1 st2 (drop d xs)"
      "publish_items henv' a' (take 20 xs) 0 (v, l) = (int d, v', l')" "d < min 20 (length xs) \<longrightarrow> refused henv' a' (xs ! d)"
    using publish_round [OF c1 ne _ other] by auto
  have "contents t' st2 (drop (min 20 (length xs)) xs)"
    using contents_later [OF d(2) ts(2)] all [OF d(1,4) records_delivers [OF r(2)]] by simp
  then obtain e where e: "e \<le> min 20 (length xs)" "contents t' st' (drop e (drop (min 20 (length xs)) xs))"
      "publish_items henv a (take 20 xs) 0 (w, m) = (int e, w', m')" "e < min 20 (length xs) \<longrightarrow> refused henv a (xs ! e)"
    using publish_round [OF c ne _ p, of "drop (min 20 (length xs)) xs"] by blast
  have "contents t' st' (drop (2 * min 20 (length xs)) xs)"
    using e(2) all [OF e(1,4) records_delivers [OF r(1)]] by (simp add: mult_2)
  then show ?thesis
    using publish_items_records [OF r(1), of "take 20 xs" 0 w m] publish_items_records [OF r(2), of "take 20 xs" 0 v l] d(3) e(3) by auto
qed

lemma publish_rounds_drain:
  assumes "contents t st xs" and "sorted (t # ts)" and d: "delivers henv a"
  shows "contents (last (t # ts)) (fst (publish_rounds henv a peek dropq ts (st, w, m))) (drop (20 * length ts) xs)"
  using assms(1,2)
proof (induction ts arbitrary: t st xs w m)
  case (Cons t1 ts)
  obtain st' w' m' where p: "publishRecoveries henv a (peek t1) (\<lambda>st. st) (dropq t1) (st, w, m) = (st', w', m')"
    by (metis prod.exhaust)
  have c: "contents t1 st xs" using Cons.prems contents_later by simp
  have "appends contents t1 t1 (\<lambda>st. st) []" by (simp add: appends_def)
  from publish_step [OF c this p] delivers_not_refused [OF d] obtain n where
    n: "n \<le> min 20 (length xs)" "contents t1 st' (drop n xs)" "\<not> n < min 20 (length xs)" by auto
  then have "drop n xs = drop 20 xs" by (cases "length xs < 20") auto
  with n have "contents t1 st' (drop 20 xs)" by simp
  moreover have "sorted (t1 # ts)" using Cons.prems(2) by simp
  ultimately have "contents (last (t1 # ts)) (fst (publish_rounds henv a peek dropq ts (st', w', m'))) (drop (20 * length ts) (drop 20 xs))"
    by (rule Cons.IH)
  then show ?case using p by (simp add: add.commute)
qed simp

end

text \<open>The queue of the store: without a deadline its items stay.\<close>

definition queue_from :: "('r \<Rightarrow> keyspace) \<Rightarrow> string \<Rightarrow> int \<Rightarrow> 'r \<Rightarrow> string list \<Rightarrow> bool" where
  "queue_from db key t st xs \<longleftrightarrow> list_at (sees t (db st)) key = Inr (xs, None)"

lemma list_at_no_deadline: "list_at (sees t d) k = Inr (xs, None) \<Longrightarrow> t \<le> t' \<Longrightarrow> list_at (sees t' d) k = Inr (xs, None)"
  by (auto simp: list_at_def sees_def alive_def split: option.splits rval.splits if_splits prod.splits)

sublocale redis \<subseteq> keydb_outbox: outbox "\<lambda>t n. PeekQueue env delivered t key n" "\<lambda>t n. DropQueue env delivered t key n"
  "queue_from db key" for key
proof
  fix t t' st xs assume "queue_from db key t st xs" "t \<le> t'"
  then show "queue_from db key t' st xs" by (auto simp: queue_from_def intro: list_at_no_deadline)
next
  fix t st xs n assume "queue_from db key t st xs"
  then have l: "list_at (ks t st) key = Inr (xs, None)" by (simp add: queue_from_def)
  note c = call_lists [OF l]
  show "fst (PeekQueue env delivered t key n st) = Inr (take (nat n) xs)
      \<and> queue_from db key t (snd (PeekQueue env delivered t key n st)) xs"
    using l by (cases "0 < n") (simp_all add: PeekQueue_def client_def c reply_strings_def list_range_first queue_from_def)
  show "fst (DropQueue env delivered t key n st) = Inr ()
      \<and> queue_from db key t (snd (DropQueue env delivered t key n st)) (drop (nat n) xs)"
    using l by (cases "0 < n") (simp_all add: DropQueue_def client_def c reply_done_def list_range_from queue_from_def)
qed

context redis
begin

lemmas outbox_round = keydb_outbox.publish_round
lemmas outbox_publish = keydb_outbox.publish_step
lemmas outbox_drain = keydb_outbox.publish_rounds_drain
lemmas outbox_overlap = keydb_outbox.overlapping_rounds

end

text \<open>
  C7. The recovery outbox is published in order and nothing is lost: one round settles a prefix of the oldest
  items (each was delivered, or cannot be decoded) and removes exactly that prefix, although other
  clients append to the queue meanwhile; it stops only at an item whose delivery failed, which stays the oldest.
\<close>

theorem publishRecoveries_in_order:
  assumes "redis env db" and "queue_from db recovery_outbox_key t st xs" and "xs \<noteq> []"
    and "appends (queue_from db recovery_outbox_key) t t' between ys"
    and "publishRecoveries henv a (\<lambda>n. PeekQueue env delivered t recovery_outbox_key n) between
           (\<lambda>n. DropQueue env delivered t' recovery_outbox_key n) (st, w, m) = (st', w', m')"
  shows "\<exists>d \<le> min 20 (length xs). queue_from db recovery_outbox_key t' st' (drop d xs @ ys)
    \<and> list_all (settled henv a) (take d xs) \<and> (d < min 20 (length xs) \<longrightarrow> refused henv a (xs ! d))"
  using redis.outbox_publish [OF assms(1,2,4,5)] assms(3) by simp

text \<open>
  C28. Against a store that answers and a network that delivers, the outbox drains: after enough rounds of
  at most 20 items each it is empty.
\<close>

theorem outbox_drains:
  assumes "redis env db" and "queue_from db recovery_outbox_key t st xs" and "sorted (t # ts)"
    and "delivers henv a" and "length xs \<le> 20 * length ts"
  shows "queue_from db recovery_outbox_key (last (t # ts))
    (fst (publish_rounds henv a (\<lambda>t n. PeekQueue env delivered t recovery_outbox_key n)
       (\<lambda>t n. DropQueue env delivered t recovery_outbox_key n) ts (st, w, m))) []"
  using redis.outbox_drain [OF assms(1-4), of w m] assms(5) by simp

text \<open>
  C27. The drop counts items and does not name them. When two processes publish at the same time, as while the virtual
  address moves, each sends the 20 oldest items, and only these, and each drops as many: the next 20 are gone although neither sent them.
\<close>

theorem overlapping_rounds_drop_twice:
  assumes "redis env db" and "queue_from db recovery_outbox_key t st xs" and "xs \<noteq> []" and "t \<le> t1" and "t1 \<le> t'"
    and "records henv a sent req" and "records henv' a' sent' req'"
    and "publishRecoveries henv' a' (\<lambda>n. PeekQueue env delivered t1 recovery_outbox_key n) (\<lambda>st. st)
           (\<lambda>n. DropQueue env delivered t1 recovery_outbox_key n)
           (snd (PeekQueue env delivered t recovery_outbox_key 20 st), v, l) = (st2, v', l')"
    and "publishRecoveries henv a (\<lambda>n. PeekQueue env delivered t recovery_outbox_key n) (\<lambda>st1. st2)
           (\<lambda>n. DropQueue env delivered t' recovery_outbox_key n) (st, w, m) = (st', w', m')"
  shows "queue_from db recovery_outbox_key t' st' (drop (2 * min 20 (length xs)) xs)
    \<and> sent w' = sent w @ recovery_requests a req (take 20 xs) \<and> sent' v' = sent' v @ recovery_requests a' req' (take 20 xs)"
  using redis.outbox_overlap [OF assms] .

text \<open>A queue with one item that is not JSON, and an aggregator whose notifications always arrive.\<close>

definition queue_server :: mem where
  "queue_server = \<lparr>mdb = [recovery_outbox_key \<mapsto> (MList [''x''], None)], mver = (\<lambda>_. 0)\<rparr>"

definition sample_aggregator :: incidentAggregator where
  "sample_aggregator = \<lparr>ag_cfg = sample_incident_config, ag_rules = [], ag_notifier = Some sample_client, ag_iconURL = []\<rparr>"

definition good_network :: "unit http_env" where
  "good_network = half_network\<lparr>http_Do := \<lambda>q w. (Inr \<lparr>rp_status = 202, rp_status_text = [], rp_body = [], rp_read_error = None\<rparr>, w)\<rparr>"

lemma queue_server_view: "queue_from mem_view recovery_outbox_key t queue_server [''x'']"
  by (simp add: queue_from_def queue_server_def list_at_def sees_def mem_view_def mview_def mval_view_def alive_def)

lemma Send_primary:
  assumes "\<And>tc w. fst (sendTintwire henv c tc w) = None"
  shows "fst (Send henv c tc u ch t i w) = None"
proof -
  obtain w1 where "sendTintwire henv c (tc\<lparr>tc_Channel := if ch = '''' then nt_defaultChannel c else ch\<rparr>) w = (None, w1)"
    using assms by (metis prod.collapse)
  then show ?thesis by (simp add: Send_def Let_def)
qed

lemma good_network_Send: "fst (Send good_network sample_client c u ch t i w) = None"
proof -
  have "\<exists>u. url_Parse good_network s = Some u" for s by (simp add: good_network_def half_network_def)
  then have "fst (postJSON good_network c s au p w) = None" for c s au p w
    by (simp add: postJSON_def good_network_def)
  moreover have "\<exists>et. tintwireEndpoint good_network ''/hooks/t'' = Inr et"
    by (simp add: tintwireEndpoint_def good_network_def half_network_def TrimSpace_word ascii_def byte_def is_space_def)
  ultimately have "fst (sendTintwire good_network sample_client c w) = None" for c w
    by (auto simp: sendTintwire_def sample_client_def newNotificationClient_def)
  then show ?thesis by (rule Send_primary)
qed

lemma good_network_delivers: "delivers good_network sample_aggregator"
  by (simp add: delivers_def agg_Send_def sample_aggregator_def good_network_Send)

theorem publishRecoveries_in_order_witness:
  "\<exists>st' w' m' d. publishRecoveries good_network sample_aggregator (\<lambda>n. PeekQueue mem_env delivered 0 recovery_outbox_key n) (\<lambda>st. st)
       (\<lambda>n. DropQueue mem_env delivered 0 recovery_outbox_key n) (queue_server, (), None) = (st', w', m')
     \<and> d \<le> 1 \<and> queue_from mem_view recovery_outbox_key 0 st' (drop d [''x''])"
proof -
  obtain st' w' m' where p: "publishRecoveries good_network sample_aggregator (\<lambda>n. PeekQueue mem_env delivered 0 recovery_outbox_key n) (\<lambda>st. st)
       (\<lambda>n. DropQueue mem_env delivered 0 recovery_outbox_key n) (queue_server, (), None) = (st', w', m')" by (metis prod.exhaust)
  have "appends (queue_from mem_view recovery_outbox_key) 0 0 (\<lambda>st. st) []" by (simp add: appends_def)
  from publishRecoveries_in_order [OF mem.redis_axioms queue_server_view _ this p] p show ?thesis by auto
qed

theorem outbox_drains_witness:
  "queue_from mem_view recovery_outbox_key 5
    (fst (publish_rounds good_network sample_aggregator (\<lambda>t n. PeekQueue mem_env delivered t recovery_outbox_key n)
       (\<lambda>t n. DropQueue mem_env delivered t recovery_outbox_key n) [5] (queue_server, (), None))) []"
  using outbox_drains [OF mem.redis_axioms queue_server_view _ good_network_delivers, of 0 "[5]" "()" None] by simp

text \<open>A queue with these items, and the item of a recovery with this title.\<close>

definition outbox_server :: "string list \<Rightarrow> mem" where
  "outbox_server xs = \<lparr>mdb = [recovery_outbox_key \<mapsto> (MList xs, None)], mver = (\<lambda>_. 0)\<rparr>"

lemma outbox_server_view: "xs \<noteq> [] \<Longrightarrow> queue_from mem_view recovery_outbox_key t (outbox_server xs) xs"
  by (simp add: queue_from_def outbox_server_def list_at_def sees_def mem_view_def mview_def mval_view_def alive_def)

definition sample_item :: "string \<Rightarrow> string" where
  "sample_item title = Marshal (JObj [(''title'', JStr title)])"

lemma sample_item_decodes:
  assumes "ascii title"
  shows "decode_recovery (sample_item title) = Some (zero_incidentRecovery\<lparr>iv_Title := title\<rparr>)"
proof -
  have "json_unmarshal (sample_item title) = Some (JObj [(''title'', JStr title)])"
    unfolding sample_item_def Marshal_def using assms
    by (subst json_unmarshal_print) (simp_all add: to_valid_id valid_utf8_ascii ascii_def byte_def)
  then show ?thesis
    by (simp add: decode_recovery_def unmarshal_struct_def dec_struct_def dec_incidentRecovery_def zero_incidentRecovery_def dec_string_def
        same_name_def fold_name_def decode_runes_ascii ascii_def byte_def fold_rune_def lower_ascii_def)
qed

text \<open>The good network with its log of requests: each notice is one request to the primary endpoint.\<close>

definition hook_request :: "tintwireCard \<times> string \<Rightarrow> http_request" where
  "hook_request notice =
     \<lparr>rq_method = ''POST'', rq_url = ''/api/v1/notifications'',
      rq_headers = [(''Content-Type'', ''application/json''), (''Authorization'', ''Bearer t'')],
      rq_body = Marshal (tintwireCard_json ((fst notice)\<lparr>tc_Channel := nt_defaultChannel sample_client\<rparr>)),
      rq_timeout = nt_timeout sample_client\<rparr>"

lemma good_network_records: "records (recording good_network) sample_aggregator fst hook_request"
proof -
  have e: "tintwireEndpoint (recording good_network) ''/hooks/t'' = Inr (''/api/v1/notifications'', ''t'')"
    by (simp add: tintwireEndpoint_def recording_def good_network_def half_network_def trim_char_def TrimSpace_word ascii_def byte_def is_space_def)
  have u: "url_Parse (recording good_network) s \<noteq> None" for s by (simp add: recording_def good_network_def half_network_def)
  have d: "http_Do (recording good_network) q w =
      (Inr \<lparr>rp_status = 202, rp_status_text = [], rp_body = [], rp_read_error = None\<rparr>, fst w @ [q], snd w)" for q w
    by (simp add: recording_def good_network_def split: prod.splits)
  have c: "nt_defaultChannel sample_client = []" "nt_tintwireURL sample_client = ''/hooks/t''"
    by (simp_all add: sample_client_def newNotificationClient_def)
  have "Send (recording good_network) sample_client (fst n) ''clattermark'' [] (snd n) [] w = (None, fst w @ [hook_request n], snd w)" for n w
    by (simp add: Send_def sendTintwire_def c e postJSON_def u d hook_request_def)
  then show ?thesis by (simp add: records_def agg_Send_def sample_aggregator_def)
qed

definition sample_outbox :: "string list" where
  "sample_outbox = replicate 20 (sample_item ''a'') @ replicate 20 (sample_item ''b'')"

lemma sample_outbox_front: "take 20 sample_outbox = replicate 20 (sample_item ''a'')" "length sample_outbox = 40"
  by (simp_all add: sample_outbox_def del: replicate.simps)

lemma recovery_requests_replicate:
  "decode_recovery item = Some rv \<Longrightarrow>
     recovery_requests a req (replicate n item) = replicate n (req (recovery_notice (ag_cfg a) rv))"
  by (induction n) simp_all

theorem overlapping_rounds_drop_twice_witness:
  "\<exists>st2 v' l' st' w' m'.
     publishRecoveries (recording good_network) sample_aggregator (\<lambda>n. PeekQueue mem_env delivered 0 recovery_outbox_key n) (\<lambda>st. st)
       (\<lambda>n. DropQueue mem_env delivered 0 recovery_outbox_key n)
       (snd (PeekQueue mem_env delivered 0 recovery_outbox_key 20 (outbox_server sample_outbox)), ([], ()), None) = (st2, v', l')
     \<and> publishRecoveries (recording good_network) sample_aggregator (\<lambda>n. PeekQueue mem_env delivered 0 recovery_outbox_key n) (\<lambda>_. st2)
       (\<lambda>n. DropQueue mem_env delivered 0 recovery_outbox_key n) (outbox_server sample_outbox, ([], ()), None) = (st', w', m')
     \<and> queue_from mem_view recovery_outbox_key 0 st' []
     \<and> (\<forall>log \<in> {fst v', fst w'}. log = replicate 20 (hook_request (recovery_notice sample_incident_config (zero_incidentRecovery\<lparr>iv_Title := ''a''\<rparr>))))"
proof -
  let ?peek = "\<lambda>n. PeekQueue mem_env delivered 0 recovery_outbox_key n" and ?drop = "\<lambda>n. DropQueue mem_env delivered 0 recovery_outbox_key n"
  let ?h = "recording good_network" and ?a = sample_aggregator
  obtain st2 v' l' where o: "publishRecoveries ?h ?a ?peek (\<lambda>st. st) ?drop (snd (?peek 20 (outbox_server sample_outbox)), ([], ()), None) = (st2, v', l')"
    by (metis prod.exhaust)
  obtain st' w' m' where p: "publishRecoveries ?h ?a ?peek (\<lambda>_. st2) ?drop (outbox_server sample_outbox, ([], ()), None) = (st', w', m')"
    by (metis prod.exhaust)
  have ne: "sample_outbox \<noteq> []" using sample_outbox_front(2) by auto
  have r: "recovery_requests ?a hook_request (take 20 sample_outbox) =
      replicate 20 (hook_request (recovery_notice sample_incident_config (zero_incidentRecovery\<lparr>iv_Title := ''a''\<rparr>)))"
    unfolding sample_outbox_front using recovery_requests_replicate [OF sample_item_decodes, of "''a''" ?a hook_request 20]
    by (simp add: ascii_def byte_def sample_aggregator_def del: replicate.simps)
  from overlapping_rounds_drop_twice [OF mem.redis_axioms outbox_server_view [OF ne] ne order_refl order_refl
      good_network_records good_network_records o p]
  have "queue_from mem_view recovery_outbox_key 0 st' (drop (2 * min 20 (length sample_outbox)) sample_outbox)"
    "fst w' = recovery_requests ?a hook_request (take 20 sample_outbox)" "fst v' = recovery_requests ?a hook_request (take 20 sample_outbox)"
    by simp_all
  then have "queue_from mem_view recovery_outbox_key 0 st' []" "\<forall>log \<in> {fst v', fst w'}. log = recovery_requests ?a hook_request (take 20 sample_outbox)"
    by (simp_all add: sample_outbox_front(2))
  with o p show ?thesis unfolding r by blast
qed

end
