(* ===== verification/Incident_Recovery.thy ===== *)
theory Incident_Recovery
  imports Incident
begin

text \<open>
  What becomes of a quiet incident across the components: the sweep closes every due incident that the store
  lists, and the item that a closed incident leaves in the outbox decodes to its recovery only when a host
  and a process were recorded.
\<close>

section \<open>Closing the due incidents\<close>

context redis
begin

lemma CloseIncidentToOutbox_closed:
  assumes "ks now st (incident_key name) = Some (RHash h, t)" and "script_hash h"
    and "h ''last_seen_ms'' = Some (Itoa ls)" and "ls \<le> UnixMilli cutoff" and "1 \<le> mx"
    and "incident_key name \<noteq> active_key" and "incident_key name \<noteq> recovery_outbox_key"
    and "zset_at (ks now st) active_key = Inr (z, u)" and "list_at (ks now st) recovery_outbox_key = Inr (xs, w)"
  obtains st' where "CloseIncidentToOutbox env delivered now name cutoff mx st = (Inr True, st')"
    and "Incident_Store.closed env name mx h z xs (ks now st) (ks now st')"
proof -
  obtain r st' where c: "CloseIncidentToOutbox env delivered now name cutoff mx st = (r, st')" by fastforce
  have "0 < mx" using assms(5) by simp
  from tripleD [OF close_script_due [OF assms(1,3,4,2) this assms(6-9)] refl] c assms(5)
  have "r = Inr True \<and> Incident_Store.closed env name mx h z xs (ks now st) (ks now st')"
    by (auto simp: CloseIncidentToOutbox_def reply_int_def split: prod.splits sum.splits if_splits)
  with c that show thesis by blast
qed

end

text \<open>An incident that the store would close at the cutoff.\<close>

definition due_incident :: "keyspace \<Rightarrow> instant \<Rightarrow> string \<Rightarrow> (string \<rightharpoonup> string) \<Rightarrow> bool" where
  "due_incident d cutoff name h \<longleftrightarrow>
     incident_key name \<noteq> active_key \<and> incident_key name \<noteq> recovery_outbox_key \<and> script_hash h
     \<and> (\<exists>t. d (incident_key name) = Some (RHash h, t))
     \<and> (\<exists>ls. h ''last_seen_ms'' = Some (Itoa ls) \<and> ls \<le> UnixMilli cutoff)"

text \<open>The newest \<open>mx\<close> items of a list.\<close>

definition newest :: "int \<Rightarrow> string list \<Rightarrow> string list" where
  "newest mx xs = drop (length xs - nat mx) xs"

lemma newest_newest: "newest mx (newest mx xs @ ys) = newest mx (xs @ ys)"
proof (cases "length xs \<le> nat mx")
  case False
  then have "length (drop (length xs - nat mx) xs) = nat mx" by simp
  moreover have "length xs + length ys - nat mx = length ys + (length xs - nat mx)" using False by simp
  ultimately show ?thesis by (simp add: newest_def)
qed (simp add: newest_def)

lemma length_newest: "length (newest mx xs) \<le> nat mx"
  by (simp add: newest_def)

lemma incident_key_inject [simp]: "incident_key n = incident_key n' \<longleftrightarrow> n = n'"
  by (simp add: incident_key_def)

context redis
begin

lemma close_names_due:
  assumes "\<forall>i. sched i = (\<lambda>st. st, delivered, now)" and "1 \<le> mx" and "distinct names"
    and "\<forall>n \<in> set names. due_incident (ks now st) cutoff n (h n)"
    and "zset_at (ks now st) active_key = Inr (z, u)" and "list_at (ks now st) recovery_outbox_key = Inr (xs, w)"
    and "length xs \<le> nat mx"
  shows "\<exists>st' tabs u'. close_names env cutoff mx sched i names (st, m) = (st', m)
    \<and> list_all2 (\<lambda>n. incident_fields (h n)) names tabs
    \<and> queue_at (ks now st') recovery_outbox_key (newest mx (xs @ map (cjson env) tabs))
    \<and> zset_at (ks now st') active_key = Inr (z |` (- set names), u')
    \<and> (\<forall>n \<in> set names. ks now st' (incident_key n) = None)
    \<and> (\<forall>k. k \<notin> incident_key ` set names \<longrightarrow> k \<noteq> active_key \<longrightarrow> k \<noteq> recovery_outbox_key \<longrightarrow> ks now st' k = ks now st k)"
  using assms(3-)
proof (induction names arbitrary: st z u xs w i)
  case Nil
  then show ?case by (auto simp: queue_at_def newest_def restrict_map_def fun_eq_iff)
next
  case (Cons name names)
  obtain t ls where d: "ks now st (incident_key name) = Some (RHash (h name), t)" "script_hash (h name)"
      "h name ''last_seen_ms'' = Some (Itoa ls)" "ls \<le> UnixMilli cutoff"
      "incident_key name \<noteq> active_key" "incident_key name \<noteq> recovery_outbox_key"
    using Cons.prems(2) by (auto simp: due_incident_def)
  obtain st1 where c: "CloseIncidentToOutbox env delivered now name cutoff mx st = (Inr True, st1)"
      and cl: "Incident_Store.closed env name mx (h name) z xs (ks now st) (ks now st1)"
    using CloseIncidentToOutbox_closed [OF d(1-4) assms(2) d(5,6) Cons.prems(3,4)] by blast
  let ?xs1 = "\<lambda>tab. newest mx (xs @ [cjson env tab])"
  obtain tab u1 w1 where s1: "ks now st1 (incident_key name) = None" "zset_at (ks now st1) active_key = Inr (z(name := None), u1)"
      "incident_fields (h name) tab" "list_at (ks now st1) recovery_outbox_key = Inr (?xs1 tab, w1)"
      "\<And>k. k \<noteq> incident_key name \<Longrightarrow> k \<noteq> active_key \<Longrightarrow> k \<noteq> recovery_outbox_key \<Longrightarrow> ks now st1 k = ks now st k"
    using cl by (auto simp: Incident_Store.closed_def queue_at_def newest_def)
  have "\<forall>n \<in> set names. due_incident (ks now st1) cutoff n (h n)"
  proof
    fix n assume n: "n \<in> set names"
    then have "n \<noteq> name" using Cons.prems(1) by auto
    moreover have "due_incident (ks now st) cutoff n (h n)" using Cons.prems(2) n by simp
    ultimately show "due_incident (ks now st1) cutoff n (h n)" using s1(5) [of "incident_key n"] by (auto simp: due_incident_def)
  qed
  moreover have "distinct names" using Cons.prems(1) by simp
  ultimately obtain st' tabs u' where
    IH: "close_names env cutoff mx sched (Suc i) names (st1, m) = (st', m)" "list_all2 (\<lambda>n. incident_fields (h n)) names tabs"
      "queue_at (ks now st') recovery_outbox_key (newest mx (?xs1 tab @ map (cjson env) tabs))"
      "zset_at (ks now st') active_key = Inr (z(name := None) |` (- set names), u')"
      "\<forall>n \<in> set names. ks now st' (incident_key n) = None"
      "\<forall>k. k \<notin> incident_key ` set names \<longrightarrow> k \<noteq> active_key \<longrightarrow> k \<noteq> recovery_outbox_key \<longrightarrow> ks now st' k = ks now st1 k"
    using Cons.IH [OF _ _ s1(2,4) length_newest, of "Suc i"] by blast
  have "close_names env cutoff mx sched i (name # names) (st, m) = (st', m)"
    using assms(1) c IH(1) by simp
  moreover have "list_all2 (\<lambda>n. incident_fields (h n)) (name # names) (tab # tabs)" using s1(3) IH(2) by simp
  moreover have "queue_at (ks now st') recovery_outbox_key (newest mx (xs @ map (cjson env) (tab # tabs)))"
    using IH(3) by (simp add: newest_newest)
  moreover have "z(name := None) |` (- set names) = z |` (- set (name # names))"
    by (auto simp: restrict_map_def)
  moreover have "\<forall>n \<in> set (name # names). ks now st' (incident_key n) = None"
  proof
    fix n assume "n \<in> set (name # names)"
    moreover have "incident_key name \<notin> incident_key ` set names" using Cons.prems(1) by auto
    ultimately consider "n \<in> set names" | "n = name" "incident_key name \<notin> incident_key ` set names" by auto
    then show "ks now st' (incident_key n) = None"
    proof cases
      case 2
      then show ?thesis using IH(6) s1(1) d(5,6) by simp
    qed (use IH(5) in blast)
  qed
  moreover have "\<forall>k. k \<notin> incident_key ` set (name # names) \<longrightarrow> k \<noteq> active_key \<longrightarrow> k \<noteq> recovery_outbox_key \<longrightarrow> ks now st' k = ks now st k"
    using IH(6) s1(5) by auto
  ultimately show ?case using IH(4) by (intro exI [of _ st'] exI [of _ "tab # tabs"] exI [of _ u']) simp
qed

end

lemma closeQuiet_step:
  assumes "redis env db" and "\<forall>i. sched i = (\<lambda>st. st, delivered, t)"
    and "zset_at (sees t (db st)) active_key = Inr (z, u)" and "list_at (sees t (db st)) recovery_outbox_key = Inr (xs, w)"
    and "cutoff = time_Add now (dur_mul (wrap64 (- ia_QuietSeconds (ag_cfg a))) Second)"
    and "\<forall>n s. z n = Some s \<longrightarrow> s \<le> UnixMilli cutoff \<longrightarrow> due_incident (sees t (db st)) cutoff n (h n)"
    and "mx = (if ia_RecoveryOutboxMax (ag_cfg a) \<le> 0 then 1000 else ia_RecoveryOutboxMax (ag_cfg a))" and "length xs \<le> nat mx"
    and "closeQuiet env now a sched (st, m) = (st', m')"
  shows "m' = m \<and> (\<exists>names tabs u'. distinct names \<and> set names \<subseteq> {n. \<exists>s. z n = Some s \<and> s \<le> UnixMilli cutoff}
    \<and> (set names = {n. \<exists>s. z n = Some s \<and> s \<le> UnixMilli cutoff} \<or> length names = 100)
    \<and> list_all2 (\<lambda>n. incident_fields (h n)) names tabs
    \<and> queue_at (sees t (db st')) recovery_outbox_key (newest mx (xs @ map (cjson env) tabs))
    \<and> zset_at (sees t (db st')) active_key = Inr (z |` (- set names), u')
    \<and> (\<forall>n \<in> set names. sees t (db st') (incident_key n) = None))"
proof -
  let ?c = "ZRANGEBYSCORE active_key (UnixMilli cutoff) 100" and ?due = "{n. \<exists>s. z n = Some s \<and> s \<le> UnixMilli cutoff}"
  obtain r st1 where call: "redis_call env t ?c st = (r, st1)" by fastforce
  have v1: "sees t (db st1) = sees t (db st)"
    using redis.call_state [OF assms(1), of t ?c st] call by simp
  obtain ms where ms: "due_members z (UnixMilli cutoff) ms" "r = Inr (RMulti (take 100 ms))"
    using redis.exec_reply [OF assms(1), of ?c t st] assms(3) call
    by (cases "rexec env t ?c st") (auto simp: redis_call_def)
  let ?names = "take 100 ms"
  have due: "DueIncidents env delivered t cutoff 100 st = (Inr ?names, st1)"
    using call ms(2) by (simp add: DueIncidents_def client_def client_once_def reply_strings_def)
  have set_ms: "set ms = ?due" and dist: "distinct ?names" using ms(1) by (auto simp: due_members_def)
  have sub: "set ?names \<subseteq> ?due" using set_ms by (metis set_take_subset)
  have all: "set ?names = ?due \<or> length ?names = 100"
    using set_ms by (cases "length ms \<le> 100") auto
  have "\<forall>n \<in> set ?names. due_incident (sees t (db st1)) cutoff n (h n)"
    using sub assms(6) unfolding v1 by blast
  moreover have "1 \<le> mx" using assms(7) by simp
  moreover note assms(3,4) [folded v1]
  ultimately obtain st2 tabs u' where s2: "close_names env cutoff mx sched 1 ?names (st1, m) = (st2, m)"
      "list_all2 (\<lambda>n. incident_fields (h n)) ?names tabs"
      "queue_at (sees t (db st2)) recovery_outbox_key (newest mx (xs @ map (cjson env) tabs))"
      "zset_at (sees t (db st2)) active_key = Inr (z |` (- set ?names), u')"
      "\<forall>n \<in> set ?names. sees t (db st2) (incident_key n) = None"
    using redis.close_names_due [OF assms(1,2) _ dist, of mx st1 cutoff h z u xs w 1 m] assms(8) by blast
  have "(st', m') = (st2, m)"
    using assms(2,5,7,9) due s2(1) by (simp add: closeQuiet_def Let_def)
  with s2 dist sub all show ?thesis by blast
qed

text \<open>
  The sweep closes what is due: with a store that answers, \<open>closeQuiet\<close> takes names of the active set that
  are due at the cutoff, all of them or 100; each one's incident disappears with its entry in the
  active set, and the outbox gains one item for each, made of its fields, within its bound.
\<close>

theorem closeQuiet_closes:
  assumes "redis env db" and "\<forall>i. sched i = (\<lambda>st. st, delivered, t)"
    and "zset_at (sees t (db st)) active_key = Inr (z, u)" and "list_at (sees t (db st)) recovery_outbox_key = Inr (xs, w)"
    and "cutoff = time_Add now (dur_mul (wrap64 (- ia_QuietSeconds (ag_cfg a))) Second)"
    and "\<forall>n s. z n = Some s \<longrightarrow> s \<le> UnixMilli cutoff \<longrightarrow> due_incident (sees t (db st)) cutoff n (h n)"
    and "mx = (if ia_RecoveryOutboxMax (ag_cfg a) \<le> 0 then 1000 else ia_RecoveryOutboxMax (ag_cfg a))" and "length xs \<le> nat mx"
    and "closeQuiet env now a sched (st, m) = (st', m')"
  shows "m' = m \<and> (\<exists>names tabs u'. distinct names \<and> set names \<subseteq> {n. \<exists>s. z n = Some s \<and> s \<le> UnixMilli cutoff}
    \<and> (set names = {n. \<exists>s. z n = Some s \<and> s \<le> UnixMilli cutoff} \<or> length names = 100)
    \<and> list_all2 (\<lambda>n. incident_fields (h n)) names tabs
    \<and> queue_at (sees t (db st')) recovery_outbox_key (newest mx (xs @ map (cjson env) tabs))
    \<and> zset_at (sees t (db st')) active_key = Inr (z |` (- set names), u')
    \<and> (\<forall>n \<in> set names. sees t (db st') (incident_key n) = None))"
  using assms by (rule closeQuiet_step)

theorem closeQuiet_closes_witness:
  "\<exists>st' m' tabs. closeQuiet mem_env (time_of_UnixMilli 60007) sample_aggregator (\<lambda>_. (\<lambda>st. st, delivered, 50)) (sample_server, None) = (st', m')
     \<and> sees 50 (mem_view st') (incident_key ''disk'') = None
     \<and> queue_at (sees 50 (mem_view st')) recovery_outbox_key (map (cjson mem_env) tabs) \<and> length tabs = 1"
proof -
  let ?now = "time_of_UnixMilli 60007" and ?d = "sees 50 (mem_view sample_server)"
  let ?cutoff = "time_Add ?now (dur_mul (wrap64 (- ia_QuietSeconds (ag_cfg sample_aggregator))) Second)"
  obtain st' m' where c: "closeQuiet mem_env ?now sample_aggregator (\<lambda>_. (\<lambda>st. st, delivered, 50)) (sample_server, None) = (st', m')"
    by fastforce
  have cut: "?cutoff = time_of_UnixMilli 7"
    by (simp add: sample_aggregator_def sample_incident_config_def time_of_UnixMilli_def time_Add_def dur_mul_def Second_def wrap64_small)
  have ms: "UnixMilli ?cutoff = 7" unfolding cut by (simp add: UnixMilli_of_UnixMilli int64_defs)
  have k: "incident_key ''disk'' \<noteq> active_key" "incident_key ''disk'' \<noteq> recovery_outbox_key"
    by (simp_all add: incident_key_def active_key_def recovery_outbox_key_def)
  have h: "due_incident ?d ?cutoff ''disk'' (map_of sample_hash)"
    using k unfolding due_incident_def ms
    by (simp add: sample_server_view script_hash_def sample_hash_def) (metis Itoa_5 numeral_le_iff semiring_norm(68,72,73) zero_le_numeral order_refl)
  have z: "zset_at ?d active_key = Inr ([''disk'' \<mapsto> 5], None)" by (simp add: sample_server_view zset_at_def)
  have q: "list_at ?d recovery_outbox_key = Inr ([], None)"
    using k keys_distinct by (simp add: sample_server_view list_at_def)
  have due: "\<forall>n s. [''disk'' \<mapsto> 5] n = Some s \<longrightarrow> s \<le> UnixMilli ?cutoff \<longrightarrow> due_incident ?d ?cutoff n (map_of sample_hash)"
    using h by (auto split: if_splits)
  have e: "{n. \<exists>s. [''disk'' \<mapsto> 5 :: int] n = Some s \<and> s \<le> UnixMilli ?cutoff} = {''disk''}"
    unfolding ms by (auto split: if_splits)
  from closeQuiet_closes [OF mem.redis_axioms _ z q refl due refl _ c] obtain names tabs where
    "distinct names" "set names = {''disk''} \<or> length names = 100" "set names \<subseteq> {''disk''}" "length tabs = length names"
    "queue_at (sees 50 (mem_view st')) recovery_outbox_key
       (newest (if ia_RecoveryOutboxMax (ag_cfg sample_aggregator) \<le> 0 then 1000 else ia_RecoveryOutboxMax (ag_cfg sample_aggregator)) (map (cjson mem_env) tabs))"
    "\<forall>n \<in> set names. sees 50 (mem_view st') (incident_key n) = None"
    unfolding e by (auto dest: list_all2_lengthD)
  note n = this
  have le: "length names \<le> 1" using n(1,3) card_mono [OF _ n(3)] by (simp add: distinct_card)
  with n(2) have "set names = {''disk''}" by auto
  then have one: "length names = 1" using le by (cases names) auto
  have "queue_at (sees 50 (mem_view st')) recovery_outbox_key (map (cjson mem_env) tabs)"
    using n(5) n(4) one by (simp add: newest_def sample_aggregator_def sample_incident_config_def)
  moreover have "sees 50 (mem_view st') (incident_key ''disk'') = None" using n(6) \<open>set names = {''disk''}\<close> by simp
  ultimately show ?thesis using c n(4) one by (intro exI [of _ st'] exI [of _ m'] exI [of _ tabs]) simp
qed

section \<open>What the outbox item decodes to\<close>

text \<open>The fields that the scripts write: the fixed ones, and one for each host and process.\<close>

definition incident_field_names :: "string list" where
  "incident_field_names = [''name'', ''title'', ''first_seen_ms'', ''last_seen_ms'', ''count'', ''sample'', ''last_notified_count'']"

definition recorded_hash :: "(string \<rightharpoonup> string) \<Rightarrow> bool" where
  "recorded_hash h \<longleftrightarrow>
     (\<forall>k \<in> set incident_field_names. h k \<noteq> None)
     \<and> (\<forall>k \<in> dom h. k \<in> set incident_field_names \<or> take 5 k = ''host:'' \<or> take 8 k = ''process:'')"

lemma recorded_touched:
  assumes "h = Map.empty \<or> recorded_hash h"
  shows "recorded_hash ((touched obs name title sample host process n (if h = Map.empty then started obs h else h)))"
  using assms unfolding recorded_hash_def
  by (elim disjE) (auto simp: touched_def started_def incident_field_names_def Let_def split: if_splits)

text \<open>Lower-case ASCII words are the same field name only when they are equal.\<close>

definition lower_word :: "string \<Rightarrow> bool" where
  "lower_word s \<longleftrightarrow> list_all (\<lambda>c. byte c = 95 \<or> 97 \<le> byte c \<and> byte c \<le> 122) s"

lemma lower_word_ascii: "lower_word s \<Longrightarrow> ascii s"
  by (auto simp: lower_word_def ascii_def list_all_iff)

lemma fold_name_lower: "lower_word s \<Longrightarrow> fold_name s = map byte s"
  by (auto simp: fold_name_def decode_runes_ascii lower_word_ascii lower_word_def list_all_iff fold_rune_def lower_ascii_def)

lemma same_name_lower: "lower_word s \<Longrightarrow> lower_word t \<Longrightarrow> same_name s t \<longleftrightarrow> s = t"
  by (simp add: same_name_def fold_name_lower) (metis byte_char_byte map_idI map_map comp_apply)

lemma filter_key: "wf_map tab \<Longrightarrow> map_of tab n = Some v \<Longrightarrow> filter (\<lambda>(k, v). k = n) tab = [(n, v)]"
proof (induction tab)
  case (Cons p tab)
  obtain k x where p: "p = (k, x)" by fastforce
  show ?case
  proof (cases "k = n")
    case True
    then have "filter (\<lambda>(k, v). k = n) tab = []" using Cons.prems(1) p
      by (force simp: wf_map_def filter_empty_conv)
    with True Cons.prems(2) p show ?thesis by simp
  next
    case False
    then show ?thesis using Cons p by (simp add: wf_map_def)
  qed
qed simp

text \<open>A member of the encoded table fills the field of its name.\<close>

lemma json_field_encoded:
  assumes "wf_map tab" and "\<forall>(k, v) \<in> set tab. lower_word k" and "lower_word name" and "map_of tab name = Some v"
    and "mset ms = mset (map (\<lambda>(k, v). (to_valid k, lua_json v)) tab)"
  shows "json_field dec name cur ms = dec cur (lua_json v)"
proof (rule json_field_mset [OF assms(5)])
  have id: "map (\<lambda>(k, v). (to_valid k, lua_json v)) tab = map (\<lambda>(k, v). (k, lua_json v)) tab"
    using assms(2) by (auto simp: to_valid_id valid_utf8_ascii lower_word_ascii)
  have "filter (\<lambda>(k, v). same_name k name) (map (\<lambda>(k, v). (k, lua_json v)) tab)
      = map (\<lambda>(k, v). (k, lua_json v)) (filter (\<lambda>(k, v). k = name) tab)"
    using assms(2,3) by (induction tab) (auto simp: same_name_lower)
  then show "filter (\<lambda>(k, v). same_name k name) (map (\<lambda>(k, v). (to_valid k, lua_json v)) tab) = [(name, lua_json v)]"
    unfolding id by (simp add: filter_key [OF assms(1,4)])
qed

lemma table_keys:
  assumes "incident_fields h tab" and "recorded_hash h" and "(k, v) \<in> set tab"
  shows "k = ''hosts'' \<or> k = ''processes'' \<or> k \<in> set incident_field_names"
proof (rule ccontr)
  assume not: "\<not> (k = ''hosts'' \<or> k = ''processes'' \<or> k \<in> set incident_field_names)"
  have "map_of tab k = Some v" using assms(1,3) by (simp add: incident_fields_def wf_map_mem_iff)
  moreover have "map_of tab k = (if plain_field k then map_option LStr (h k) else None)"
    using assms(1) not by (simp add: incident_fields_def)
  ultimately have "plain_field k" "k \<in> dom h" by (auto split: if_splits)
  with assms(2) not show False by (auto simp: recorded_hash_def plain_field_def)
qed

lemma lower_field_names: "\<forall>k \<in> set incident_field_names. lower_word k" "lower_word ''hosts''" "lower_word ''processes''"
  by (simp_all add: incident_field_names_def lower_word_def byte_def)

lemma field_names_plain: "\<forall>k \<in> set incident_field_names. k \<noteq> ''hosts'' \<and> k \<noteq> ''processes'' \<and> plain_field k"
  by (simp add: incident_field_names_def plain_field_def)

lemma decode_recovery_cases:
  assumes "redis env db" and "recorded_hash h" and "incident_fields h tab"
  shows "if (\<exists>x. ''host:'' @ x \<in> dom h) \<and> (\<exists>x. ''process:'' @ x \<in> dom h)
    then \<exists>hs ps. distinct hs \<and> distinct ps \<and> set hs = {x. ''host:'' @ x \<in> dom h} \<and> set ps = {x. ''process:'' @ x \<in> dom h}
      \<and> decode_recovery (cjson env tab) = Some \<lparr>iv_Name = to_valid (the (h ''name'')), iv_Title = to_valid (the (h ''title'')),
          iv_FirstSeenMS = to_valid (the (h ''first_seen_ms'')), iv_LastSeenMS = to_valid (the (h ''last_seen_ms'')),
          iv_Count = to_valid (the (h ''count'')), iv_Sample = to_valid (the (h ''sample'')),
          iv_Hosts = map to_valid hs, iv_Processes = map to_valid ps\<rparr>
    else decode_recovery (cjson env tab) = None"
proof -
  have wf: "wf_map tab" using assms(3) by (simp add: incident_fields_def)
  obtain ms where ms: "json_unmarshal (cjson env tab) = Some (JObj ms)"
      "mset ms = mset (map (\<lambda>(k, v). (to_valid k, lua_json v)) tab)"
    using redis.cjson_decodes [OF assms(1) wf] by blast
  have lw: "\<forall>(k, v) \<in> set tab. lower_word k"
    using table_keys [OF assms(3,2)] lower_field_names by blast
  note f = assms(3) [unfolded incident_fields_def]
  obtain hs where hs: "map_of tab ''hosts'' = Some (LList hs)" "distinct hs" "set hs = {x. ''host:'' @ x \<in> dom h}"
    using f [THEN conjunct2, THEN conjunct1] by (elim exE conjE) (rule that)
  obtain ps where ps: "map_of tab ''processes'' = Some (LList ps)" "distinct ps" "set ps = {x. ''process:'' @ x \<in> dom h}"
    using f [THEN conjunct2, THEN conjunct2, THEN conjunct1] by (elim exE conjE) (rule that)
  note plain = f [THEN conjunct2, THEN conjunct2, THEN conjunct2]
  note hp = hs ps
  have str: "str_field k cur ms = Some (to_valid (the (h k)))" if "k \<in> set incident_field_names" for k cur
  proof -
    have "k \<noteq> ''hosts''" "k \<noteq> ''processes''" "plain_field k" using that field_names_plain by blast+
    moreover have "h k \<noteq> None" using assms(2) that by (simp add: recorded_hash_def)
    moreover have "map_of tab k = (if plain_field k then map_option LStr (h k) else None)"
      using plain calculation(1,2) by simp
    ultimately have "map_of tab k = Some (LStr (the (h k)))" by auto
    from json_field_encoded [OF wf lw _ this ms(2), of dec_string] lower_field_names(1) that show ?thesis
      by (simp add: lua_json_def dec_string_def)
  qed
  have lst: "strs_field k cur ms = (if xs = [] then None else Some (map to_valid xs))"
    if "map_of tab k = Some (LList xs)" "lower_word k" for k xs cur
    using json_field_encoded [OF wf lw that(2,1) ms(2), of "dec_slice dec_string []"]
    by (simp add: lua_json_def dec_slice_def dec_string_def comp_def those_map_Some)
  have names: "''name'' \<in> set incident_field_names" "''title'' \<in> set incident_field_names"
    "''first_seen_ms'' \<in> set incident_field_names" "''last_seen_ms'' \<in> set incident_field_names"
    "''count'' \<in> set incident_field_names" "''sample'' \<in> set incident_field_names"
    by (simp_all add: incident_field_names_def)
  have "decode_recovery (cjson env tab) = dec_incidentRecovery zero_incidentRecovery ms"
    using ms(1) by (simp add: decode_recovery_def unmarshal_struct_def dec_struct_def)
  also have "\<dots> = (if hs = [] \<or> ps = [] then None else Some \<lparr>iv_Name = to_valid (the (h ''name'')), iv_Title = to_valid (the (h ''title'')),
          iv_FirstSeenMS = to_valid (the (h ''first_seen_ms'')), iv_LastSeenMS = to_valid (the (h ''last_seen_ms'')),
          iv_Count = to_valid (the (h ''count'')), iv_Sample = to_valid (the (h ''sample'')),
          iv_Hosts = map to_valid hs, iv_Processes = map to_valid ps\<rparr>)"
    unfolding dec_incidentRecovery_def str [OF names(1)] str [OF names(2)] str [OF names(3)] str [OF names(4)]
      str [OF names(5)] str [OF names(6)] lst [OF hp(1) lower_field_names(2)] lst [OF hp(4) lower_field_names(3)]
    by simp
  finally have dec: "decode_recovery (cjson env tab) = \<dots>" .
  have "hs = [] \<longleftrightarrow> \<not> (\<exists>x. ''host:'' @ x \<in> dom h)" "ps = [] \<longleftrightarrow> \<not> (\<exists>x. ''process:'' @ x \<in> dom h)"
    unfolding set_empty [symmetric] hp(3,6) by blast+
  then have cond: "(\<exists>x. ''host:'' @ x \<in> dom h) \<and> (\<exists>x. ''process:'' @ x \<in> dom h) \<longleftrightarrow> \<not> (hs = [] \<or> ps = [])" by blast
  show ?thesis
  proof (cases "hs = [] \<or> ps = []")
    case True
    then show ?thesis unfolding cond dec by (simp only: if_True not_True_eq_False if_False)
  next
    case False
    then show ?thesis unfolding cond dec
      by (simp only: if_False not_False_eq_True if_True) (rule exI [of _ hs], rule exI [of _ ps], simp only: hp(2,3,5,6) simp_thms)
  qed
qed

text \<open>The oldest item in a round of publishing: what is done to it, then the rest as if it had never been there.\<close>

lemma publish_first:
  assumes "redis env db" and q: "queue_from db recovery_outbox_key t st (item # xs)"
    and p: "publishRecoveries henv a (\<lambda>n. PeekQueue env delivered t recovery_outbox_key n) (\<lambda>st. st)
           (\<lambda>n. DropQueue env delivered t recovery_outbox_key n) (st, w, m) = (st', w', m')"
  defines "rest v \<equiv> \<exists>d \<le> min 19 (length xs). publish_items henv a (take 19 xs) 0 (v, m) = (int d, w', m')
    \<and> queue_from db recovery_outbox_key t st' (drop d xs)"
  shows "case decode_recovery item of None \<Rightarrow> rest w
    | Some rv \<Rightarrow> (case agg_Send henv a (recovery_notice (ag_cfg a) rv) w of (None, w1) \<Rightarrow> rest w1
        | (Some e, w1) \<Rightarrow> w' = w1 \<and> m' = incr outboxPublishFailures_update m \<and> queue_from db recovery_outbox_key t st' (item # xs))"
proof -
  obtain d where d: "d \<le> min 20 (Suc (length xs))" "queue_from db recovery_outbox_key t st' (drop d (item # xs))"
      "publish_items henv a (item # take 19 xs) 0 (w, m) = (int d, w', m')"
    using redis.outbox_round [OF assms(1) q _ _ p] by (auto simp: take_Cons')
  have rest: "rest v" if "publish_items henv a (take 19 xs) (0 + 1) (v, m) = (int d, w', m')" for v
  proof -
    obtain e where e: "publish_items henv a (take 19 xs) 0 (v, m) = (int e, w', m')" "int e + 1 = int d"
    proof -
      obtain e v' l where "publish_items henv a (take 19 xs) 0 (v, m) = (0 + int e, v', l)"
        using publish_items_spec [of henv a "take 19 xs" 0 v m] by blast
      with that show thesis using \<open>publish_items henv a (take 19 xs) (0 + 1) (v, m) = _\<close> unfolding publish_items_count by auto
    qed
    then have "d = Suc e" by simp
    with d(1,2) e(1) show ?thesis unfolding rest_def by (intro exI [of _ e]) auto
  qed
  show ?thesis
    using d(2,3) rest by (auto split: option.splits prod.splits)
qed

text \<open>
  C29. The recovery of a closed incident reaches the notifier only when the incident recorded a host and a process. Then its
  item, when it is the oldest of the outbox, decodes to the incident's fields and to the sets of its hosts and processes, and
  a round sends the notice of this recovery: a delivery that fails is counted and leaves the outbox as it was; a delivered item leaves
  the outbox. Without a host or a process the encoded table holds an empty object where a list is wanted: the item
  does not decode, and the round drops it unsent and goes on with the rest.
\<close>

theorem recovery_needs_host_and_process:
  assumes "redis env db" and "recorded_hash h" and "incident_fields h tab"
    and "queue_from db recovery_outbox_key t st (cjson env tab # xs)"
    and "publishRecoveries henv a (\<lambda>n. PeekQueue env delivered t recovery_outbox_key n) (\<lambda>st. st)
           (\<lambda>n. DropQueue env delivered t recovery_outbox_key n) (st, w, m) = (st', w', m')"
  shows "if (\<exists>x. ''host:'' @ x \<in> dom h) \<and> (\<exists>x. ''process:'' @ x \<in> dom h)
    then \<exists>hs ps rv. distinct hs \<and> distinct ps \<and> set hs = {x. ''host:'' @ x \<in> dom h} \<and> set ps = {x. ''process:'' @ x \<in> dom h}
      \<and> rv = \<lparr>iv_Name = to_valid (the (h ''name'')), iv_Title = to_valid (the (h ''title'')),
          iv_FirstSeenMS = to_valid (the (h ''first_seen_ms'')), iv_LastSeenMS = to_valid (the (h ''last_seen_ms'')),
          iv_Count = to_valid (the (h ''count'')), iv_Sample = to_valid (the (h ''sample'')),
          iv_Hosts = map to_valid hs, iv_Processes = map to_valid ps\<rparr>
      \<and> decode_recovery (cjson env tab) = Some rv
      \<and> (case agg_Send henv a (recovery_notice (ag_cfg a) rv) w of
           (Some e, w1) \<Rightarrow> w' = w1 \<and> m' = incr outboxPublishFailures_update m
             \<and> queue_from db recovery_outbox_key t st' (cjson env tab # xs)
         | (None, w1) \<Rightarrow> \<exists>d \<le> min 19 (length xs). publish_items henv a (take 19 xs) 0 (w1, m) = (int d, w', m')
             \<and> queue_from db recovery_outbox_key t st' (drop d xs))
    else \<exists>d \<le> min 19 (length xs). publish_items henv a (take 19 xs) 0 (w, m) = (int d, w', m')
      \<and> queue_from db recovery_outbox_key t st' (drop d xs)"
proof -
  note dec = decode_recovery_cases [OF assms(1-3)] and pub = publish_first [OF assms(1,4,5)]
  show ?thesis
  proof (cases "(\<exists>x. ''host:'' @ x \<in> dom h) \<and> (\<exists>x. ''process:'' @ x \<in> dom h)")
    case True
    from dec [unfolded if_P [OF True]] obtain hs ps rv where rv: "decode_recovery (cjson env tab) = Some rv" "distinct hs" "distinct ps"
      "set hs = {x. ''host:'' @ x \<in> dom h}" "set ps = {x. ''process:'' @ x \<in> dom h}"
      "rv = \<lparr>iv_Name = to_valid (the (h ''name'')), iv_Title = to_valid (the (h ''title'')),
          iv_FirstSeenMS = to_valid (the (h ''first_seen_ms'')), iv_LastSeenMS = to_valid (the (h ''last_seen_ms'')),
          iv_Count = to_valid (the (h ''count'')), iv_Sample = to_valid (the (h ''sample'')),
          iv_Hosts = map to_valid hs, iv_Processes = map to_valid ps\<rparr>" by blast
    show ?thesis unfolding if_P [OF True]
      using pub [unfolded rv(1) option.case] rv by (intro exI [of _ hs] exI [of _ ps] exI [of _ rv] conjI) assumption+
  next
    case False
    show ?thesis unfolding if_not_P [OF False] using pub [unfolded dec [unfolded if_not_P [OF False]] option.case] .
  qed
qed

text \<open>An incident that only unparsed lines reported: no host and no process. Its item blocks nothing and nobody hears of it.\<close>

definition lone_hash :: "string \<rightharpoonup> string" where
  "lone_hash = map_of [(''name'', ''disk''), (''title'', ''Disk''), (''first_seen_ms'', ''1''), (''last_seen_ms'', ''5''),
     (''count'', ''1''), (''sample'', ''s''), (''last_notified_count'', ''1'')]"

theorem recovery_needs_host_and_process_witness:
  "\<exists>tab st'. incident_fields lone_hash tab
     \<and> publishRecoveries (recording good_network) sample_aggregator (\<lambda>n. PeekQueue mem_env delivered 0 recovery_outbox_key n) (\<lambda>st. st)
         (\<lambda>n. DropQueue mem_env delivered 0 recovery_outbox_key n) (outbox_server [cjson mem_env tab, sample_item ''a''], ([], ()), None)
       = (st', ([hook_request (recovery_notice sample_incident_config (zero_incidentRecovery\<lparr>iv_Title := ''a''\<rparr>))], ()), None)
     \<and> queue_from mem_view recovery_outbox_key 0 st' []"
proof -
  let ?ps = "[(''name'', ''disk''), (''title'', ''Disk''), (''first_seen_ms'', ''1''), (''last_seen_ms'', ''5''),
     (''count'', ''1''), (''sample'', ''s''), (''last_notified_count'', ''1'')]"
  have "wf_map ?ps" by (simp add: wf_map_def)
  moreover have "script_hash lone_hash" by (simp add: script_hash_def lone_hash_def)
  ultimately obtain tab where f: "incident_fields lone_hash tab"
    using incident_of_fields [of ?ps lone_hash] by (auto simp: lone_hash_def)
  have "dom lone_hash = set incident_field_names" by (auto simp: lone_hash_def incident_field_names_def dom_def split: if_splits)
  then have r: "recorded_hash lone_hash" unfolding recorded_hash_def by (metis domIff)
  have "\<not> lower_word (''host:'' @ x)" for x by (simp add: lower_word_def byte_def)
  then have none: "\<not> (\<exists>x. ''host:'' @ x \<in> dom lone_hash)"
    using lower_field_names(1) \<open>dom lone_hash = set incident_field_names\<close> by metis
  obtain st' w' m' where p: "publishRecoveries (recording good_network) sample_aggregator (\<lambda>n. PeekQueue mem_env delivered 0 recovery_outbox_key n)
      (\<lambda>st. st) (\<lambda>n. DropQueue mem_env delivered 0 recovery_outbox_key n)
      (outbox_server [cjson mem_env tab, sample_item ''a''], ([], ()), None) = (st', w', m')" by (metis prod.exhaust)
  have "\<exists>d \<le> 1. publish_items (recording good_network) sample_aggregator [sample_item ''a''] 0 (([], ()), None) = (int d, w', m')
      \<and> queue_from mem_view recovery_outbox_key 0 st' (drop d [sample_item ''a''])"
    using recovery_needs_host_and_process [OF mem.redis_axioms r f outbox_server_view p] none by simp
  moreover have "ascii ''a''" by (simp add: ascii_def byte_def)
  note i = publish_items_records [OF good_network_records, of "[sample_item ''a'']" 0 "([], ())" None]
  from i have "\<exists>w. publish_items (recording good_network) sample_aggregator [sample_item ''a''] 0 (([], ()), None) = (1, w, None)
      \<and> fst w = [hook_request (recovery_notice sample_incident_config (zero_incidentRecovery\<lparr>iv_Title := ''a''\<rparr>))]"
    using sample_item_decodes [OF \<open>ascii ''a''\<close>] by (simp add: sample_aggregator_def)
  ultimately show ?thesis using f p by (intro exI [of _ tab] exI [of _ st']) (auto simp: prod_eq_iff)
qed

end
