(* ===== verification/Incident_Lifecycle.thy ===== *)
theory Incident_Lifecycle
  imports Incident_Recovery
begin

text \<open>
  The life of one incident across the components: what the store holds after a series of events (its hash
  follows the events one by one), what the sweep then closes, and the one recovery that it sends. The
  operations are those of \<open>Incident_Store\<close> and \<open>Incident\<close>; this theory composes their lemmas.
\<close>

section \<open>A series of events in the store\<close>

definition series_hosts :: "event list \<Rightarrow> string set" where
  "series_hosts es = ev_host ` set es - {''''}"

definition series_processes :: "event list \<Rightarrow> string set" where
  "series_processes es = ev_process ` set es - {''''}"

definition series_hash :: "string \<Rightarrow> string \<Rightarrow> event list \<Rightarrow> (string \<rightharpoonup> string) \<Rightarrow> bool" where
  "series_hash name title es h \<longleftrightarrow> recorded_hash h
     \<and> h ''name'' = Some name \<and> h ''title'' = Some title
     \<and> h ''first_seen_ms'' = Some (Itoa (UnixMilli (ev_observed (hd es))))
     \<and> h ''last_seen_ms'' = Some (Itoa (UnixMilli (ev_observed (last es))))
     \<and> h ''count'' = Some (Itoa (int (length es))) \<and> h ''sample'' = Some (ev_sample (last es))
     \<and> {x. ''host:'' @ x \<in> dom h} = series_hosts es \<and> {x. ''process:'' @ x \<in> dom h} = series_processes es"

text \<open>The state of the store after the events \<open>es\<close> of one incident and nothing else.\<close>

definition series_state :: "int \<Rightarrow> string \<Rightarrow> string \<Rightarrow> event list \<Rightarrow> keyspace \<Rightarrow> bool" where
  "series_state q name title es d \<longleftrightarrow> d recovery_outbox_key = None
     \<and> (if es = [] then d (incident_key name) = None \<and> d active_key = None
        else \<exists>h i. series_hash name title es h \<and> hash_incident h i \<and> in_count i = int (length es)
          \<and> d (incident_key name) = Some (RHash h, Some (ev_now (last es) + q * 4))
          \<and> d active_key = Some (RZset [name \<mapsto> UnixMilli (ev_observed (last es))], None))"

lemma series_state_later:
  assumes "series_state q name title es d" and "es \<noteq> [] \<longrightarrow> t < ev_now (last es) + q * 4"
  shows "series_state q name title es (sees t d)"
  using assms by (cases "es = []") (fastforce simp: series_state_def sees_def alive_def)+

lemma recorded_script_hash:
  assumes "recorded_hash h"
  shows "script_hash h"
proof -
  have "k \<notin> dom h" if "k \<notin> set incident_field_names" "take 5 k \<noteq> ''host:''" "take 8 k \<noteq> ''process:''" for k
    using assms that by (auto simp: recorded_hash_def)
  from this [of "''hosts''"] this [of "''processes''"] show ?thesis
    by (simp add: script_hash_def incident_field_names_def domIff)
qed

lemma touched_fields:
  "touched obs name title sample host process n h ''name'' = Some name"
  "touched obs name title sample host process n h ''title'' = Some title"
  "touched obs name title sample host process n h ''sample'' = Some sample"
  by (simp_all add: touched_def Let_def)

lemma touched_members:
  "''host:'' @ x \<in> dom (touched obs name title sample host process n h) \<longleftrightarrow> ''host:'' @ x \<in> dom h \<or> x = host \<and> host \<noteq> ''''"
  "''process:'' @ x \<in> dom (touched obs name title sample host process n h)
     \<longleftrightarrow> ''process:'' @ x \<in> dom h \<or> x = process \<and> process \<noteq> ''''"
  by (auto simp: touched_def Let_def)

lemma series_hash_snoc:
  assumes "if es = [] then h = Map.empty else series_hash name title es h" and "in_count i = int (length es)"
  shows "series_hash name title (es @ [e])
    (event_hash every (UnixMilli (ev_observed e)) name title (ev_sample e) (ev_host e) (ev_process e) i h)"
proof -
  let ?obs = "Itoa (UnixMilli (ev_observed e))"
  let ?h0 = "if es = [] then started ?obs h else h"
  let ?h1 = "touched ?obs name title (ev_sample e) (ev_host e) (ev_process e) (int (length es) + 1) ?h0"
  have e: "event_hash every (UnixMilli (ev_observed e)) name title (ev_sample e) (ev_host e) (ev_process e) i h
      = (if notify_due every i then ?h1(''last_notified_count'' \<mapsto> Itoa (int (length es) + 1)) else ?h1)"
    using assms(2) by (simp add: event_hash_def Let_def)
  have "recorded_hash ?h1"
    using recorded_touched [of h ?obs name title "ev_sample e" "ev_host e" "ev_process e" "int (length es) + 1"] assms(1)
    by (cases "es = []") (auto simp: series_hash_def recorded_hash_def incident_field_names_def split: if_splits)
  moreover have "{x. ''host:'' @ x \<in> dom ?h1} = series_hosts (es @ [e])"
    "{x. ''process:'' @ x \<in> dom ?h1} = series_processes (es @ [e])"
    unfolding touched_members using assms(1)
    by (cases "es = []", auto simp: series_hash_def series_hosts_def series_processes_def started_def)+
  moreover have "?h1 ''first_seen_ms'' = Some (Itoa (UnixMilli (ev_observed (hd (es @ [e])))))"
    using assms(1) by (cases "es = []") (auto simp: series_hash_def started_def)
  ultimately have "series_hash name title (es @ [e]) ?h1"
    by (simp add: series_hash_def touched_fields add.commute)
  moreover have "series_hash name title es' h' \<Longrightarrow> series_hash name title es' (h'(''last_notified_count'' \<mapsto> v))" for es' h' v
    by (auto simp: series_hash_def recorded_hash_def incident_field_names_def)
  ultimately show ?thesis unfolding e by simp
qed


lemma series_state_step:
  assumes r: "redis env db" and k: "incident_key name \<noteq> active_key" "incident_key name \<noteq> recovery_outbox_key"
    and q: "q = dur_Milliseconds quiet" "0 < q" and room: "int (length es) + 1 < max_int64"
    and s: "series_state q name title es (sees (ev_now e) (db st))"
    and c: "RecordIncident env delivered (ev_now e) name title (ev_sample e) (ev_host e) (ev_process e) (ev_observed e)
      quiet every st = (res, st')"
  shows "series_state q name title (es @ [e]) (sees (ev_now e) (db st'))"
proof -
  let ?d = "sees (ev_now e) (db st)" and ?obs = "UnixMilli (ev_observed e)" and ?R = "reminder_interval every"
  obtain h i z where i: "incident_hash ?d name h i" "in_count i = int (length es)" "zset_at ?d active_key = Inr (z, None)"
    "z(name \<mapsto> ?obs) = [name \<mapsto> ?obs]" "if es = [] then h = Map.empty else series_hash name title es h"
  proof (cases "es = []")
    case True
    then show ?thesis using s by (intro that [of Map.empty no_incident Map.empty])
      (simp_all add: series_state_def incident_hash_def no_incident_def zset_at_def)
  next
    case False
    then show ?thesis using s
      by (auto simp: series_state_def incident_hash_def zset_at_def intro!: that)
  qed
  let ?h = "event_hash ?R ?obs name title (ev_sample e) (ev_host e) (ev_process e) i h"
  have v: "sees (ev_now e) (db st') = ?d(incident_key name \<mapsto> (RHash ?h, Some (ev_now e + q * 4)),
      active_key \<mapsto> (RZset [name \<mapsto> ?obs], None))"
    using RecordIncident_exact(2) [OF r i(1) _ k(1) i(3) _ c] room i(2,4) q by simp
  have "series_hash name title (es @ [e]) ?h" by (rule series_hash_snoc [OF i(5,2)])
  moreover have "hash_incident ?h (incident_event ?R ?obs i)"
    using i(1,2) room by (intro hash_incident_event) (auto simp: incident_hash_def)
  moreover have "in_count (incident_event ?R ?obs i) = int (length (es @ [e]))" by (simp add: incident_event_def i(2))
  moreover have "sees (ev_now e) (db st') recovery_outbox_key = None"
    using k keys_distinct s by (auto simp: v series_state_def)
  ultimately show ?thesis using k(1) unfolding series_state_def v by simp blast
qed

text \<open>Each event of a series comes before the incident has expired, and so does \<open>t\<close>.\<close>

fun in_time_until :: "int \<Rightarrow> int \<Rightarrow> event list \<Rightarrow> int \<Rightarrow> bool" where
  "in_time_until q now [] t \<longleftrightarrow> now \<le> t \<and> t < now + q * 4"
| "in_time_until q now (e # es) t \<longleftrightarrow> now \<le> ev_now e \<and> ev_now e < now + q * 4 \<and> in_time_until q (ev_now e) es t"

lemma series_state_run:
  assumes r: "redis env db" and k: "incident_key name \<noteq> active_key" "incident_key name \<noteq> recovery_outbox_key"
    and q: "q = dur_Milliseconds quiet" "0 < q" and "int (length (ps @ es)) < max_int64" and "ps \<noteq> []"
    and "series_state q name title ps (sees (ev_now (last ps)) (db st))"
    and "in_time_until q (ev_now (last ps)) es t"
  shows "series_state q name title (ps @ es) (sees t (db (snd (record_series env name title quiet every es st))))"
  using assms(6-)
proof (induction es arbitrary: ps st)
  case Nil
  then show ?case using series_state_later [OF Nil.prems(3), of t] by (simp add: sees_later)
next
  case (Cons e es)
  obtain res st1 where c: "RecordIncident env delivered (ev_now e) name title (ev_sample e) (ev_host e) (ev_process e)
      (ev_observed e) quiet every st = (res, st1)" by fastforce
  have "series_state q name title ps (sees (ev_now e) (db st))"
    using series_state_later [OF Cons.prems(3), of "ev_now e"] Cons.prems(4) by (simp add: sees_later)
  from series_state_step [OF r k q _ this c] Cons.prems(1)
  have "series_state q name title (ps @ [e]) (sees (ev_now (last (ps @ [e]))) (db st1))" by simp
  from Cons.IH [OF _ _ this] Cons.prems(1,4) c show ?case by (simp add: case_prod_beta)
qed

lemma series_state_series:
  assumes r: "redis env db" and k: "incident_key name \<noteq> active_key" "incident_key name \<noteq> recovery_outbox_key"
    and q: "q = dur_Milliseconds quiet" "0 < q" and n: "int (length (e # es)) < max_int64"
    and new: "series_state q name title [] (sees (ev_now e) (db st))"
    and t: "in_time_until q (ev_now e) es t"
  shows "series_state q name title (e # es) (sees t (db (snd (record_series env name title quiet every (e # es) st))))"
proof -
  obtain res st1 where c: "RecordIncident env delivered (ev_now e) name title (ev_sample e) (ev_host e) (ev_process e)
      (ev_observed e) quiet every st = (res, st1)" by fastforce
  have "series_state q name title ([] @ [e]) (sees (ev_now e) (db st1))"
    using n by (intro series_state_step [OF r k q _ new c]) simp
  then have "series_state q name title [e] (sees (ev_now (last [e])) (db st1))" by simp
  from series_state_run [OF r k q _ _ this, of es] n t c show ?thesis by (simp add: case_prod_beta)
qed

section \<open>The sweep after a series\<close>

lemma one_due: "distinct names \<Longrightarrow> set names \<subseteq> {n} \<Longrightarrow> set names = {n} \<or> length names = 100 \<Longrightarrow> names = [n]"
proof -
  assume n: "distinct names" "set names \<subseteq> {n}" "set names = {n} \<or> length names = 100"
  have "length names \<le> 1" using card_mono [OF _ n(2)] distinct_card [OF n(1)] by simp
  with n(2,3) show "names = [n]" by (cases names) auto
qed

lemma newest_one: "0 < mx \<Longrightarrow> newest mx [x] = [x]"
  by (simp add: newest_def)

lemma close_series:
  assumes r: "redis env db" and k: "incident_key name \<noteq> active_key" "incident_key name \<noteq> recovery_outbox_key"
    and s: "series_state q name title es (sees t (db st))" "es \<noteq> []"
    and due: "UnixMilli (ev_observed (last es)) \<le> UnixMilli (time_Add now (dur_mul (wrap64 (- ia_QuietSeconds (ag_cfg a))) Second))"
    and sched: "\<forall>i. sched i = (\<lambda>st. st, delivered, t)"
    and c: "closeQuiet env now a sched (st, m) = (st', m')"
  shows "m' = m \<and> (\<exists>h tab. series_hash name title es h \<and> incident_fields h tab
    \<and> queue_at (sees t (db st')) recovery_outbox_key [cjson env tab]
    \<and> (\<exists>u. zset_at (sees t (db st')) active_key = Inr (Map.empty, u))
    \<and> sees t (db st') (incident_key name) = None)"
proof -
  let ?ls = "UnixMilli (ev_observed (last es))" and ?d = "sees t (db st)"
  let ?cutoff = "time_Add now (dur_mul (wrap64 (- ia_QuietSeconds (ag_cfg a))) Second)"
  let ?mx = "if ia_RecoveryOutboxMax (ag_cfg a) \<le> 0 then 1000 else ia_RecoveryOutboxMax (ag_cfg a)"
  obtain h w where h: "series_hash name title es h" "?d (incident_key name) = Some (RHash h, w)"
      "?d active_key = Some (RZset [name \<mapsto> ?ls], None)" "?d recovery_outbox_key = None"
    using s by (auto simp: series_state_def)
  have z: "zset_at ?d active_key = Inr ([name \<mapsto> ?ls], None)" "list_at ?d recovery_outbox_key = Inr ([], None)"
    using h(3,4) by (simp_all add: zset_at_def list_at_def)
  have "due_incident ?d ?cutoff name h"
    using k h(1,2) due recorded_script_hash [of h] by (auto simp: due_incident_def series_hash_def)
  then have d: "\<forall>n s. [name \<mapsto> ?ls] n = Some s \<longrightarrow> s \<le> UnixMilli ?cutoff \<longrightarrow> due_incident ?d ?cutoff n h"
    by (auto split: if_splits)
  have e: "{n. \<exists>s. [name \<mapsto> ?ls] n = Some s \<and> s \<le> UnixMilli ?cutoff} = {name}"
    using due by (auto split: if_splits)
  have len: "length ([] :: string list) \<le> nat ?mx" by simp
  from closeQuiet_step [OF r sched z refl d refl len c, unfolded e] obtain names tabs u where
    n: "m' = m" "distinct names" "set names \<subseteq> {name}" "set names = {name} \<or> length names = 100"
      "list_all2 (\<lambda>n. incident_fields h) names tabs"
      "queue_at (sees t (db st')) recovery_outbox_key (newest ?mx ([] @ map (cjson env) tabs))"
      "zset_at (sees t (db st')) active_key = Inr ([name \<mapsto> ?ls] |` (- set names), u)"
      "\<forall>n \<in> set names. sees t (db st') (incident_key n) = None"
    by blast
  have names: "names = [name]" by (rule one_due [OF n(2-4)])
  then obtain tab where tab: "tabs = [tab]" "incident_fields h tab" using n(5) by (auto simp: list_all2_Cons1)
  have "[name \<mapsto> ?ls] |` (- set names) = Map.empty" by (simp add: names)
  moreover have "newest ?mx ([] @ map (cjson env) tabs) = [cjson env tab]" by (simp add: tab newest_one)
  ultimately show ?thesis using n(1,6-8) tab(2) h(1) names by (intro conjI exI [of _ h] exI [of _ tab]) auto
qed


lemma publish_one:
  assumes r: "redis env db" and l: "queue_at (sees t (db st)) recovery_outbox_key [item]"
    and i: "decode_recovery item = Some rv" and s: "agg_Send henv a (recovery_notice (ag_cfg a) rv) w = (err, w')"
    and p: "publishRecoveries henv a (\<lambda>n. PeekQueue env delivered t recovery_outbox_key n) (\<lambda>st. st)
      (\<lambda>n. DropQueue env delivered t recovery_outbox_key n) (st, w, m) = (st2, w2, m2)"
  shows "w2 = w' \<and> m2 = (if err = None then m else incr outboxPublishFailures_update m)
    \<and> queue_at (sees t (db st2)) recovery_outbox_key (if err = None then [] else [item])
    \<and> (\<forall>k. k \<noteq> recovery_outbox_key \<longrightarrow> sees t (db st2) k = sees t (db st) k)"
proof -
  obtain u where q: "list_at (sees t (db st)) recovery_outbox_key = Inr ([item], u)" using l by (auto simp: queue_at_def)
  obtain st1 where k: "PeekQueue env delivered t recovery_outbox_key 20 st = (Inr [item], st1)"
      and v1: "sees t (db st1) = sees t (db st)"
    using redis.call_lists(5,6) [OF r q, of 0 19]
    by (cases "redis_call env t (LRANGE recovery_outbox_key 0 19) st")
      (auto simp: PeekQueue_def client_def client_once_def reply_strings_def list_range_first [of 20, simplified])
  show ?thesis
  proof (cases err)
    case None
    note c = redis.call_lists(3,4) [OF r q [folded v1], of 1 "- 1"]
    obtain st3 where d: "DropQueue env delivered t recovery_outbox_key 1 st1 = (Inr (), st3)"
        and v3: "sees t (db st3) = put_list recovery_outbox_key [] u (sees t (db st))"
      using c by (cases "redis_call env t (LTRIM recovery_outbox_key 1 (- 1)) st1")
        (auto simp: DropQueue_def client_def client_once_def reply_done_def list_range_from [of 1, simplified] v1)
    then show ?thesis using p k i s None by (simp add: publishRecoveries_def)
  next
    case (Some e)
    then show ?thesis using p k i s l v1 by (simp add: publishRecoveries_def)
  qed
qed


lemma to_valid_Itoa: "to_valid (Itoa i) = Itoa i"
proof -
  have "list_all is_digit s \<Longrightarrow> ascii s" for s by (auto simp: ascii_def is_digit_def list_all_iff)
  then have "ascii (nat_dec n)" for n using nat_dec_digits by blast
  then have "ascii (Itoa i)" by (simp add: Itoa_def) (simp add: ascii_def byte_def)
  then show ?thesis by (simp add: to_valid_id valid_utf8_ascii)
qed

text \<open>The recovery of a series: hosts and processes in any order, as the notification sorts them.\<close>

definition series_recovery :: "string \<Rightarrow> string \<Rightarrow> event list \<Rightarrow> string list \<Rightarrow> string list \<Rightarrow> incidentRecovery" where
  "series_recovery name title es hs ps = \<lparr>iv_Name = to_valid name, iv_Title = to_valid title,
     iv_FirstSeenMS = Itoa (UnixMilli (ev_observed (hd es))), iv_LastSeenMS = Itoa (UnixMilli (ev_observed (last es))),
     iv_Count = Itoa (int (length es)), iv_Sample = to_valid (ev_sample (last es)),
     iv_Hosts = map to_valid hs, iv_Processes = map to_valid ps\<rparr>"

lemma series_recovery_decodes:
  assumes r: "redis env db" and h: "series_hash name title es h" "incident_fields h tab"
    and ne: "series_hosts es \<noteq> {}" "series_processes es \<noteq> {}"
  shows "\<exists>hs ps. distinct hs \<and> set hs = series_hosts es \<and> distinct ps \<and> set ps = series_processes es
    \<and> decode_recovery (cjson env tab) = Some (series_recovery name title es hs ps)"
proof -
  have "recorded_hash h" using h(1) by (simp add: series_hash_def)
  note d = decode_recovery_cases [OF r this h(2)]
  have m: "{x. ''host:'' @ x \<in> dom h} = series_hosts es" "{x. ''process:'' @ x \<in> dom h} = series_processes es"
    using h(1) by (simp_all add: series_hash_def)
  have "(\<exists>x. ''host:'' @ x \<in> dom h) \<and> (\<exists>x. ''process:'' @ x \<in> dom h)" using ne unfolding m [symmetric] by blast
  from d [unfolded if_P [OF this] m] h(1) show ?thesis
    by (auto simp: series_recovery_def series_hash_def to_valid_Itoa)
qed

text \<open>
  C3. The life of an incident from end to end: events recorded one after the other, then a sweep that
  comes when the quiet time has passed and before the incident expires. The sweep closes the
  incident and sends exactly one notification, the recovery with the title, the number of events, the
  times of the first and the last, and every host and process once. When it is delivered the outbox is empty
  again; when not, the item stays in the outbox for the next sweep and the failure is counted.
\<close>

theorem incident_lifecycle:
  assumes "redis env db" and "incident_key name \<noteq> active_key" and "incident_key name \<noteq> recovery_outbox_key"
    and "quiet = dur_mul (ia_QuietSeconds (ag_cfg a)) Second" and "0 < dur_Milliseconds quiet"
    and "\<forall>k \<in> {incident_key name, active_key, recovery_outbox_key}. sees (ev_now e) (db st) k = None"
    and "int (length (e # es)) < max_int64" and "in_time_until (dur_Milliseconds quiet) (ev_now e) es t"
    and "UnixMilli (ev_observed (last (e # es))) \<le> UnixMilli (time_Add now (dur_mul (wrap64 (- ia_QuietSeconds (ag_cfg a))) Second))"
    and "series_hosts (e # es) \<noteq> {}" and "series_processes (e # es) \<noteq> {}"
    and "tick = \<lparr>sw_active = active, sw_now = now, sw_close = (\<lambda>_. (\<lambda>st. st, delivered, t)),
      sw_peek = (\<lambda>st. st, delivered, t), sw_drop = (\<lambda>st. st, delivered, t)\<rparr>" and "active \<noteq> Some False"
    and "record_series env name title quiet (ia_ReminderEvery (ag_cfg a)) (e # es) st = (updates, st1)"
    and "sweep_tick env henv a tick (st1, w, m) = (st2, w2, m2)"
  shows "\<exists>hs ps item err. distinct hs \<and> set hs = series_hosts (e # es) \<and> distinct ps \<and> set ps = series_processes (e # es)
    \<and> agg_Send henv a (recovery_notice (ag_cfg a) (series_recovery name title (e # es) hs ps)) w = (err, w2)
    \<and> m2 = (if err = None then m else incr outboxPublishFailures_update m)
    \<and> decode_recovery item = Some (series_recovery name title (e # es) hs ps)
    \<and> queue_at (sees t (db st2)) recovery_outbox_key (if err = None then [] else [item])
    \<and> sees t (db st2) (incident_key name) = None \<and> (\<exists>u. zset_at (sees t (db st2)) active_key = Inr (Map.empty, u))"
proof -
  note r = assms(1) and k = assms(2,3)
  have "series_state (dur_Milliseconds quiet) name title [] (sees (ev_now e) (db st))" using assms(6) by (simp add: series_state_def)
  from series_state_series [OF r k refl assms(5,7) this assms(8), of "ia_ReminderEvery (ag_cfg a)"]
  have s: "series_state (dur_Milliseconds quiet) name title (e # es) (sees t (db st1))" unfolding assms(14) by simp
  obtain st' m' where c: "closeQuiet env now a (\<lambda>_. (\<lambda>st. st, delivered, t)) (st1, m) = (st', m')" by fastforce
  from close_series [OF r k s _ assms(9) _ c] obtain h tab where
    h: "m' = m" "series_hash name title (e # es) h" "incident_fields h tab"
      "queue_at (sees t (db st')) recovery_outbox_key [cjson env tab]"
      "\<exists>u. zset_at (sees t (db st')) active_key = Inr (Map.empty, u)" "sees t (db st') (incident_key name) = None" by auto
  obtain hs ps where d: "distinct hs" "set hs = series_hosts (e # es)" "distinct ps" "set ps = series_processes (e # es)"
      "decode_recovery (cjson env tab) = Some (series_recovery name title (e # es) hs ps)"
    using series_recovery_decodes [OF r h(2,3) assms(10,11)] by blast
  obtain err w' where n: "agg_Send henv a (recovery_notice (ag_cfg a) (series_recovery name title (e # es) hs ps)) w = (err, w')"
    by fastforce
  have "publishRecoveries henv a (\<lambda>n. PeekQueue env delivered t recovery_outbox_key n) (\<lambda>st. st)
      (\<lambda>n. DropQueue env delivered t recovery_outbox_key n) (st', w, m) = (st2, w2, m2)"
    using assms(13,15) c h(1) by (simp add: assms(12) sweep_tick_def)
  from publish_one [OF r h(4) d(5) n this]
  have p: "w2 = w'" "m2 = (if err = None then m else incr outboxPublishFailures_update m)"
      "queue_at (sees t (db st2)) recovery_outbox_key (if err = None then [] else [cjson env tab])"
      "\<And>k. k \<noteq> recovery_outbox_key \<Longrightarrow> sees t (db st2) k = sees t (db st') k" by auto
  have "zset_at (sees t (db st2)) active_key = zset_at (sees t (db st')) active_key"
    using p(4) [OF keys_distinct] by (simp add: zset_at_def)
  then show ?thesis
    using d n p(1-3) p(4) [OF k(2)] h(5,6) by (intro exI [of _ hs] exI [of _ ps] exI [of _ "cjson env tab"] exI [of _ err]) simp
qed

definition lifecycle_event :: "int \<Rightarrow> string \<Rightarrow> event" where
  "lifecycle_event t host = \<lparr>ev_now = t, ev_observed = unix_epoch, ev_sample = ''s'', ev_host = host, ev_process = ''p''\<rparr>"

theorem incident_lifecycle_witness:
  "\<exists>st2 m2. sweep_tick mem_env good_network sample_aggregator
      \<lparr>sw_active = None, sw_now = time_of_UnixMilli 61000, sw_close = (\<lambda>_. (\<lambda>st. st, delivered, 61000)),
       sw_peek = (\<lambda>st. st, delivered, 61000), sw_drop = (\<lambda>st. st, delivered, 61000)\<rparr>
      (snd (record_series mem_env ''disk'' ''Disk'' Minute 10 [lifecycle_event 0 ''a'', lifecycle_event 5 ''b''] mem_empty), (), None)
      = (st2, (), m2)
    \<and> queue_at (sees 61000 (mem_view st2)) recovery_outbox_key [] \<and> sees 61000 (mem_view st2) (incident_key ''disk'') = None"
proof -
  let ?tick = "\<lparr>sw_active = None, sw_now = time_of_UnixMilli 61000, sw_close = (\<lambda>_. (\<lambda>st :: mem. st, delivered, 61000)),
       sw_peek = (\<lambda>st. st, delivered, 61000), sw_drop = (\<lambda>st. st, delivered, 61000)\<rparr>"
  let ?es = "[lifecycle_event 5 ''b'']"
  obtain us st1 where s: "record_series mem_env ''disk'' ''Disk'' Minute 10 (lifecycle_event 0 ''a'' # ?es) mem_empty = (us, st1)"
    by fastforce
  obtain st2 m2 where t: "sweep_tick mem_env good_network sample_aggregator ?tick (st1, (), None) = (st2, (), m2)"
    by (cases "sweep_tick mem_env good_network sample_aggregator ?tick (st1, (), None)") simp
  have c: "ia_QuietSeconds (ag_cfg sample_aggregator) = 60" "ia_ReminderEvery (ag_cfg sample_aggregator) = 10"
    by (simp_all add: sample_aggregator_def sample_incident_config_def)
  have q: "Minute = dur_mul (ia_QuietSeconds (ag_cfg sample_aggregator)) Second" "dur_Milliseconds Minute = 60000"
    by (simp_all add: c Minute_def Second_def dur_mul_def wrap64_small dur_Milliseconds_def quot64_def)
  have cut: "time_Add (time_of_UnixMilli 61000) (dur_mul (wrap64 (- ia_QuietSeconds (ag_cfg sample_aggregator))) Second)
      = time_of_UnixMilli 1000"
    by (simp add: c time_of_UnixMilli_def time_Add_def dur_mul_def Second_def wrap64_small)
  have k: "incident_key ''disk'' \<noteq> active_key" "incident_key ''disk'' \<noteq> recovery_outbox_key"
    by (simp_all add: incident_key_def active_key_def recovery_outbox_key_def)
  have m: "series_hosts (lifecycle_event 0 ''a'' # ?es) \<noteq> {}" "series_processes (lifecycle_event 0 ''a'' # ?es) \<noteq> {}"
    by (auto simp: series_hosts_def series_processes_def lifecycle_event_def)
  have h: "0 < dur_Milliseconds Minute" "int (length (lifecycle_event 0 ''a'' # ?es)) < max_int64"
    "in_time_until (dur_Milliseconds Minute) (ev_now (lifecycle_event 0 ''a'')) ?es 61000"
    "\<forall>k \<in> {incident_key ''disk'', active_key, recovery_outbox_key}.
       sees (ev_now (lifecycle_event 0 ''a'')) (mem_view mem_empty) k = None"
    by (simp_all add: q(2) int64_defs lifecycle_event_def mem_empty_view)
  have u: "UnixMilli (ev_observed (last (lifecycle_event 0 ''a'' # ?es))) \<le> UnixMilli (time_of_UnixMilli 1000)"
    by (simp add: lifecycle_event_def UnixMilli_of_UnixMilli int64_defs) (simp add: UnixMilli_def wrap64_def)
  obtain hs ps item err where e: "agg_Send good_network sample_aggregator (recovery_notice (ag_cfg sample_aggregator)
        (series_recovery ''disk'' ''Disk'' (lifecycle_event 0 ''a'' # ?es) hs ps)) () = (err, ())"
      "queue_at (sees 61000 (mem_view st2)) recovery_outbox_key (if err = None then [] else [item])"
      "sees 61000 (mem_view st2) (incident_key ''disk'') = None"
    using incident_lifecycle [OF mem.redis_axioms k q(1) h(1,4,2,3) u [folded cut] m refl _ s [folded c(2)] t] by blast
  have "err = None" using good_network_delivers e(1) unfolding delivers_def by (metis fst_conv)
  with e(2,3) t show ?thesis unfolding s by (intro exI [of _ st2] exI [of _ m2]) simp
qed

end
