(* ===== verification/Web.thy ===== *)
theory Web
  imports Excludes_Snapshot Http_Client "HOL-Library.Monad_Syntax"
begin

text \<open>
  web.go: the rate limiter, the handlers of \<open>/slash\<close>, \<open>/api/mute\<close> and \<open>/api/excludes\<close>, and the routes of the
  server. A handler maps a request to a response and changes the state it shares with the others: the
  limiter, the store of the dynamic excludes (its value, see \<open>Dynamic_Excludes\<close>) and the repository,
  which is an interface given by its two operations.
\<close>

section \<open>The rate limiter\<close>

record rateWindow =
  rw_start :: instant
  rw_count :: int

record requestLimiter =
  rl_windows :: "(string, rateWindow) gomap"
  rl_limit :: int
  rl_duration :: duration

definition newRequestLimiter :: "int \<Rightarrow> duration \<Rightarrow> requestLimiter" where
  "newRequestLimiter limit lasting = \<lparr>rl_windows = [], rl_limit = limit, rl_duration = lasting\<rparr>"

text \<open>\<open>net.SplitHostPort\<close>: the host, None for an error.\<close>

definition split_host_port :: "string \<Rightarrow> string option" where
  "split_host_port hostport =
     (case index_of (CHR '':'') (rev hostport) of
        None \<Rightarrow> None
      | Some back \<Rightarrow>
          let i = length hostport - 1 - back in
          if hd hostport = CHR ''['' then
            (case index_of (CHR '']'') hostport of
               None \<Rightarrow> None
             | Some close \<Rightarrow>
                 if Suc close \<noteq> i then None
                 else if CHR ''['' \<in> set (drop 1 hostport) \<or> CHR '']'' \<in> set (drop (Suc close) hostport) then None
                 else Some (take (close - 1) (drop 1 hostport)))
          else
            let host = take i hostport in
            if CHR '':'' \<in> set host \<or> CHR ''['' \<in> set hostport \<or> CHR '']'' \<in> set hostport then None else Some host)"

definition client_host :: "string \<Rightarrow> string" where
  "client_host remoteAddress = (case split_host_port remoteAddress of None \<Rightarrow> remoteAddress | Some host \<Rightarrow> host)"

text \<open>
  The clock \<open>now\<close> is read before the lock is taken, so calls may change the windows in another order than
  that of their clocks.
\<close>

definition limiter_Allow :: "instant \<Rightarrow> string \<Rightarrow> requestLimiter \<Rightarrow> bool \<times> requestLimiter" where
  "limiter_Allow now remoteAddress l =
     (let host = client_host remoteAddress;
          window = lookup_or \<lparr>rw_start = 0, rw_count = 0\<rparr> (map_of (rl_windows l)) host;
          window = (if time_IsZero (rw_start window) \<or> rl_duration l \<le> time_Sub now (rw_start window)
                    then \<lparr>rw_start = now, rw_count = 0\<rparr> else window);
          window = window\<lparr>rw_count := wrap64 (rw_count window + 1)\<rparr>
      in (rw_count window \<le> rl_limit l, l\<lparr>rl_windows := AList.update host window (rl_windows l)\<rparr>))"

section \<open>The shared pieces\<close>

definition popFirst :: "string list \<Rightarrow> string list result" where
  "popFirst xs = (if length xs = 0 then Inl (ErrText ''slice is empty'') else Inr (drop 1 xs))"

definition genExcludeTable :: "excludes \<Rightarrow> string" where
  "genExcludeTable m =
     (if length m = 0 then ''No excludes found''
      else ''### Clattermark Dynamic Excludes'' @ newline @ ''| Type | Excludes |'' @ newline
        @ ''|:---------------|:----|'' @ newline
        @ concat (map (\<lambda>(excludeType, excludeList). ''| '' @ excludeType @ '' | '' @ str_join '', '' excludeList @ '' |'' @ newline) m))"

fun containsToken :: "string list \<Rightarrow> string \<Rightarrow> bool" where
  "containsToken [] want = False"
| "containsToken (v # vs) want = (if v = want then True else containsToken vs want)"

definition allowedDynamicExcludeTypes :: "string list" where
  "allowedDynamicExcludeTypes = [''host'', ''pid'', ''process'', ''text'']"

definition maxDynamicExcludeValueBytes :: int where
  "maxDynamicExcludeValueBytes = 1024"

text \<open>None for nil.\<close>

definition validateDynamicExclude :: "string \<Rightarrow> string \<Rightarrow> string option" where
  "validateDynamicExclude excludeType v =
     (if excludeType \<notin> set allowedDynamicExcludeTypes then Some ''type must be one of host, pid, process, or text''
      else if TrimSpace v = '''' then Some ''value is required''
      else if int (length v) > maxDynamicExcludeValueBytes
      then Some (''value must be at most '' @ Itoa maxDynamicExcludeValueBytes @ '' bytes'')
      else None)"

text \<open>
  The interface \<open>dynamicExcludesRepository\<close>, whose requests have circumstances \<open>q\<close> and \<open>u\<close> and run at
  millisecond \<open>ms\<close> of the store; None is a nil interface.
\<close>

record ('q, 'u, 'r) repository =
  repo_get :: "'q \<Rightarrow> int \<Rightarrow> 'r \<Rightarrow> excludes result \<times> 'r"
  repo_update :: "'u \<Rightarrow> int \<Rightarrow> string \<Rightarrow> string \<Rightarrow> bool \<Rightarrow> 'r \<Rightarrow> (excludes \<times> bool) result \<times> 'r"

text \<open>What the handlers share. The limiter may be nil (None).\<close>

record 'r web_state =
  ws_limiter :: "requestLimiter option"
  ws_store :: excludes
  ws_repo :: 'r

text \<open>A request with its circumstances: the clocks and those of the repository's requests.\<close>

record ('q, 'u) call =
  cl_now :: instant
  cl_ms :: int
  cl_get :: 'q
  cl_update :: 'u

definition updateDynamicExclude ::
  "('q, 'u, 'r) repository option \<Rightarrow> ('q, 'u) call \<Rightarrow> string \<Rightarrow> string \<Rightarrow> bool \<Rightarrow> 'r web_state
     \<Rightarrow> (excludes \<times> bool) result \<times> 'r web_state" where
  "updateDynamicExclude repository c excludeType v add s =
     (case repository of
        None \<Rightarrow> (Inl (ErrText ''dynamic excludes repository is unavailable''), s)
      | Some repo \<Rightarrow>
          (case repo_update repo (cl_update c) (cl_ms c) excludeType v add (ws_repo s) of
             (Inl e, r) \<Rightarrow> (Inl e, s\<lparr>ws_repo := r\<rparr>)
           | (Inr (m, changed), r) \<Rightarrow> (Inr (m, changed), s\<lparr>ws_repo := r, ws_store := m\<rparr>)))"

text \<open>The limiter at the head of every handler: a nil limiter allows.\<close>

definition limit_request :: "('q, 'u) call \<Rightarrow> request \<Rightarrow> 'r web_state \<Rightarrow> bool \<times> 'r web_state" where
  "limit_request c r s =
     (case ws_limiter s of
        None \<Rightarrow> (True, s)
      | Some l \<Rightarrow> (let (ok, l') = limiter_Allow (cl_now c) (remoteAddr r) l in (ok, s\<lparr>ws_limiter := Some l'\<rparr>)))"

definition respond :: "int \<Rightarrow> string \<Rightarrow> response \<Rightarrow> response" where
  "respond code t w = w_Write t (WriteHeader code w)"

section \<open>The slash command\<close>

definition slash_command ::
  "('q, 'u, 'r) repository option \<Rightarrow> ('q, 'u) call \<Rightarrow> string list \<Rightarrow> response \<Rightarrow> 'r web_state \<Rightarrow> response \<times> 'r web_state" where
  "slash_command repository c splitData w s =
     (if length splitData < 3 then (respond 200 ''Invalid command'' w, s)
      else
        let command = splitData ! 0;
            splitData = (case popFirst splitData of Inl e \<Rightarrow> [] | Inr d \<Rightarrow> d);
            excludeType = splitData ! 0;
            splitData = (case popFirst splitData of Inl e \<Rightarrow> [] | Inr d \<Rightarrow> d)
        in if excludeType \<noteq> ''text'' \<and> length splitData > 1
           then (respond 200 ''You must provide an exclude type.'' w, s)
           else
             let exclude = (if excludeType = ''text'' then str_join '' '' splitData else splitData ! 0)
             in (case validateDynamicExclude excludeType exclude of
                   Some e \<Rightarrow> (respond 200 e w, s)
                 | None \<Rightarrow>
                     (case updateDynamicExclude repository c excludeType exclude (command = ''mute'') s of
                        (Inl e, s') \<Rightarrow> (respond 500 ''Error saving excludes to keydb'' w, s')
                      | (Inr (m, changed), s') \<Rightarrow>
                          (if command = ''mute'' then
                             (if \<not> changed then respond 200 (exclude @ '' already exists in '' @ excludeType) w
                              else respond 200 (''Added '' @ exclude @ '' to '' @ excludeType) w, s')
                           else
                             (if \<not> changed then respond 200 (exclude @ '' does not exist in '' @ excludeType) w
                              else respond 200 (''Removed '' @ exclude @ '' from '' @ excludeType) w, s')))))"

definition slash_ServeHTTP ::
  "('q, 'u, 'r) repository option \<Rightarrow> string list \<Rightarrow> ('q, 'u) call \<Rightarrow> request \<Rightarrow> response \<Rightarrow> 'r web_state
     \<Rightarrow> response \<times> 'r web_state" where
  "slash_ServeHTTP repository tokens c r w s =
     (let w = set_header ''Content-Type'' ''text/plain; charset=utf-8'' w; (ok, s) = limit_request c r s
      in if \<not> ok then (http_Error ''rate limit exceeded'' 429 w, s)
         else if rmethod r \<noteq> ''POST'' then (w, s)
         else
           let token = formValue r ''token''; d = formValue r ''text''
           in if \<not> containsToken tokens token then (respond 401 ''Incorrect token passed'' w, s)
              else if d = ''status'' then (respond 200 (genExcludeTable (ws_store s)) w, s)
              else
                let splitData = Fields d
                in if length splitData > 0 \<and> (splitData ! 0 = ''mute'' \<or> splitData ! 0 = ''unmute'')
                   then slash_command repository c splitData w s else (w, s))"

section \<open>The JSON interface\<close>

record apiResponse =
  ap_Message :: string
  ap_Error :: string
  ap_Type :: string
  ap_Value :: string
  ap_Changed :: bool
  ap_Excludes :: excludes

definition zero_apiResponse :: apiResponse where
  "zero_apiResponse = \<lparr>ap_Message = [], ap_Error = [], ap_Type = [], ap_Value = [], ap_Changed = False, ap_Excludes = []\<rparr>"

definition apiResponse_json :: "apiResponse \<Rightarrow> json" where
  "apiResponse_json a = JObj
     (opt_member (ap_Message a \<noteq> '''') ''message'' (JStr (ap_Message a))
      @ opt_member (ap_Error a \<noteq> '''') ''error'' (JStr (ap_Error a))
      @ opt_member (ap_Type a \<noteq> '''') ''type'' (JStr (ap_Type a))
      @ opt_member (ap_Value a \<noteq> '''') ''value'' (JStr (ap_Value a))
      @ [(''changed'', JBool (ap_Changed a))]
      @ opt_member (ap_Excludes a \<noteq> []) ''excludes'' (map_to_json (ap_Excludes a)))"

definition api_error :: "int \<Rightarrow> string \<Rightarrow> response \<Rightarrow> response" where
  "api_error code e w = json_Encode (apiResponse_json (zero_apiResponse\<lparr>ap_Error := e\<rparr>)) (WriteHeader code w)"

definition authorized :: "string list \<Rightarrow> request \<Rightarrow> bool" where
  "authorized tokens r =
     (let (token, found) = CutPrefix (headerGet r ''Authorization'') ''Bearer '' in found \<and> containsToken tokens token)"

record apiRequest =
  aq_Command :: string
  aq_Type :: string
  aq_Value :: string

definition dec_apiRequest :: "apiRequest \<Rightarrow> (string \<times> json) list \<Rightarrow> apiRequest option" where
  "dec_apiRequest c ms = do {
     command \<leftarrow> str_field ''command'' (aq_Command c) ms;
     t \<leftarrow> str_field ''type'' (aq_Type c) ms;
     v \<leftarrow> str_field ''value'' (aq_Value c) ms;
     Some \<lparr>aq_Command = command, aq_Type = t, aq_Value = v\<rparr> }"

definition zero_apiRequest :: apiRequest where
  "zero_apiRequest = \<lparr>aq_Command = [], aq_Type = [], aq_Value = []\<rparr>"

definition api_ServeHTTP ::
  "('q, 'u, 'r) repository option \<Rightarrow> string list \<Rightarrow> ('q, 'u) call \<Rightarrow> request \<Rightarrow> response \<Rightarrow> 'r web_state
     \<Rightarrow> response \<times> 'r web_state" where
  "api_ServeHTTP repository tokens c r w s =
     (let w = set_header ''Content-Type'' ''application/json'' w; (ok, s) = limit_request c r s
      in if \<not> ok then (api_error 429 ''rate limit exceeded'' w, s)
         else if rmethod r \<noteq> ''POST'' then (api_error 405 ''method not allowed'' w, s)
         else if \<not> authorized tokens r then (api_error 401 ''unauthorized'' w, s)
         else
           (case decode_body dec_apiRequest zero_apiRequest (requestBody r) None of
              Inl e \<Rightarrow> (api_error 400 ''invalid JSON'' w, s)
            | Inr req \<Rightarrow>
                (case validateDynamicExclude (aq_Type req) (aq_Value req) of
                   Some e \<Rightarrow> (api_error 400 e w, s)
                 | None \<Rightarrow>
                     let add = (aq_Command req = ''mute'')
                     in if aq_Command req \<noteq> ''mute'' \<and> aq_Command req \<noteq> ''unmute''
                        then (api_error 400 (''unknown command: '' @ aq_Command req) w, s)
                        else
                          (case updateDynamicExclude repository c (aq_Type req) (aq_Value req) add s of
                             (Inl e, s') \<Rightarrow> (api_error 503 ''failed to persist excludes'' w, s')
                           | (Inr (m, changed), s') \<Rightarrow>
                               let message = (if add then ''muted '' @ aq_Value req @ '' in '' @ aq_Type req
                                              else ''unmuted '' @ aq_Value req @ '' from '' @ aq_Type req)
                               in (json_Encode (apiResponse_json
                                     \<lparr>ap_Message = message, ap_Error = [], ap_Type = aq_Type req, ap_Value = aq_Value req,
                                      ap_Changed = changed, ap_Excludes = m\<rparr>) w, s')))))"

record excludesAPIRequest =
  eq_Type :: string
  eq_Value :: string
  eq_Reason :: string

definition zero_excludesAPIRequest :: excludesAPIRequest where
  "zero_excludesAPIRequest = \<lparr>eq_Type = [], eq_Value = [], eq_Reason = []\<rparr>"

definition dec_excludesAPIRequest :: "excludesAPIRequest \<Rightarrow> (string \<times> json) list \<Rightarrow> excludesAPIRequest option" where
  "dec_excludesAPIRequest c ms = do {
     t \<leftarrow> str_field ''type'' (eq_Type c) ms;
     v \<leftarrow> str_field ''value'' (eq_Value c) ms;
     reason \<leftarrow> str_field ''reason'' (eq_Reason c) ms;
     Some \<lparr>eq_Type = t, eq_Value = v, eq_Reason = reason\<rparr> }"

text \<open>\<open>GET\<close> reads the repository into the store; with a nil repository it panics (and the server drops the
  connection), which \<open>newWebServer\<close> does not configure.\<close>

definition excludes_get ::
  "('q, 'u, 'r) repository option \<Rightarrow> ('q, 'u) call \<Rightarrow> response \<Rightarrow> 'r web_state \<Rightarrow> response \<times> 'r web_state" where
  "excludes_get repository c w s =
     (case repository of
        None \<Rightarrow> (w, s)
      | Some repo \<Rightarrow>
          (case repo_get repo (cl_get c) (cl_ms c) (ws_repo s) of
             (Inl e, r) \<Rightarrow> (api_error 503 ''failed to load excludes'' w, s\<lparr>ws_repo := r\<rparr>)
           | (Inr m, r) \<Rightarrow> (json_Encode (apiResponse_json (zero_apiResponse\<lparr>ap_Excludes := m\<rparr>)) w,
                           s\<lparr>ws_repo := r, ws_store := m\<rparr>)))"

definition excludesAPI_ServeHTTP ::
  "('q, 'u, 'r) repository option \<Rightarrow> string list \<Rightarrow> ('q, 'u) call \<Rightarrow> request \<Rightarrow> response \<Rightarrow> 'r web_state
     \<Rightarrow> response \<times> 'r web_state" where
  "excludesAPI_ServeHTTP repository tokens c r w s =
     (let w = set_header ''Content-Type'' ''application/json'' w; (ok, s) = limit_request c r s
      in if \<not> ok then (api_error 429 ''rate limit exceeded'' w, s)
         else if \<not> authorized tokens r then (api_error 401 ''unauthorized'' w, s)
         else if rmethod r = ''GET'' then excludes_get repository c w s
         else if rmethod r \<noteq> ''POST'' \<and> rmethod r \<noteq> ''DELETE'' then (api_error 405 ''method not allowed'' w, s)
         else
           (case decode_body dec_excludesAPIRequest zero_excludesAPIRequest (requestBody r) None of
              Inl e \<Rightarrow> (api_error 400 ''invalid JSON'' w, s)
            | Inr req \<Rightarrow>
                (case validateDynamicExclude (eq_Type req) (eq_Value req) of
                   Some e \<Rightarrow> (api_error 400 e w, s)
                 | None \<Rightarrow>
                     if TrimSpace (eq_Reason req) = '''' then (api_error 400 ''reason is required'' w, s)
                     else
                       (case updateDynamicExclude repository c (eq_Type req) (eq_Value req) (rmethod r = ''POST'') s of
                          (Inl e, s') \<Rightarrow> (api_error 503 ''failed to persist excludes'' w, s')
                        | (Inr (m, changed), s') \<Rightarrow>
                            (json_Encode (apiResponse_json
                               \<lparr>ap_Message = [], ap_Error = [], ap_Type = eq_Type req, ap_Value = eq_Value req,
                                ap_Changed = changed, ap_Excludes = m\<rparr>) w, s')))))"

section \<open>The server\<close>

datatype route = HealthRoute | MetricsRoute | SlashRoute | ApiMuteRoute | ApiExcludesRoute

record http_server =
  sv_Addr :: string
  sv_routes :: "(string \<times> route) list"
  sv_tokens :: "string list"
  sv_apiTokens :: "string list"
  sv_ReadHeaderTimeout :: duration
  sv_ReadTimeout :: duration
  sv_WriteTimeout :: duration
  sv_IdleTimeout :: duration

text \<open>The server and the limiter that its handlers share.\<close>

definition newWebServer :: "string \<Rightarrow> string list \<Rightarrow> string list \<Rightarrow> bool \<Rightarrow> http_server \<times> requestLimiter" where
  "newWebServer listenAddress tokens apiTokens has_metrics =
     (\<lparr>sv_Addr = listenAddress,
       sv_routes = (if has_metrics then [(''/healthz'', HealthRoute), (''/metrics'', MetricsRoute)] else [])
         @ [(''/slash'', SlashRoute)]
         @ (if length apiTokens > 0 then [(''/api/mute'', ApiMuteRoute), (''/api/excludes'', ApiExcludesRoute)] else []),
       sv_tokens = tokens, sv_apiTokens = apiTokens,
       sv_ReadHeaderTimeout = 5 * Second, sv_ReadTimeout = 15 * Second, sv_WriteTimeout = 15 * Second,
       sv_IdleTimeout = 60 * Second\<rparr>,
      newRequestLimiter 30 Minute)"

text \<open>
  The dispatch of \<open>http.ServeMux\<close> on a path in clean form: the patterns are exact paths, and any other path
  is not found. \<open>health\<close> and \<open>metrics\<close> are the handlers of the telemetry.
\<close>

definition serve ::
  "http_server \<Rightarrow> (response \<Rightarrow> response) \<Rightarrow> (response \<Rightarrow> response) \<Rightarrow> ('q, 'u, 'r) repository option \<Rightarrow> string \<Rightarrow> ('q, 'u) call
     \<Rightarrow> request \<Rightarrow> 'r web_state \<Rightarrow> response \<times> 'r web_state" where
  "serve sv health metrics repository path c r s =
     (case map_of (sv_routes sv) path of
        None \<Rightarrow> (http_Error ''404 page not found'' 404 new_response, s)
      | Some HealthRoute \<Rightarrow> (health new_response, s)
      | Some MetricsRoute \<Rightarrow> (metrics new_response, s)
      | Some SlashRoute \<Rightarrow> slash_ServeHTTP repository (sv_tokens sv) c r new_response s
      | Some ApiMuteRoute \<Rightarrow> api_ServeHTTP repository (sv_apiTokens sv) c r new_response s
      | Some ApiExcludesRoute \<Rightarrow> excludesAPI_ServeHTTP repository (sv_apiTokens sv) c r new_response s)"

section \<open>The rate limiter: properties\<close>

text \<open>
  A run of the limiter, in the order in which the calls get the lock: for every call the time when it got the
  lock, the clock it had read before, the address, and the answer.
\<close>

fun limiter_run :: "(instant \<times> instant \<times> string) list \<Rightarrow> requestLimiter \<Rightarrow> (instant \<times> string \<times> bool) list" where
  "limiter_run [] l = []"
| "limiter_run ((locked, now, a) # cs) l = (let (b, l') = limiter_Allow now a l in (locked, a, b) # limiter_run cs l')"

definition granted :: "string \<Rightarrow> instant \<Rightarrow> duration \<Rightarrow> (instant \<times> string \<times> bool) list \<Rightarrow> int" where
  "granted h s D tr = int (length (filter (\<lambda>(t, a, b). b \<and> client_host a = h \<and> s \<le> t \<and> t < s + D) tr))"

lemma granted_simps [simp]:
  "granted h s D [] = 0"
  "granted h s D ((t, a, b) # tr) = (if b \<and> client_host a = h \<and> s \<le> t \<and> t < s + D then 1 else 0) + granted h s D tr"
  by (simp_all add: granted_def)

text \<open>The clock of a call is at most \<open>lag\<close> older than the moment when it gets the lock.\<close>

definition lagging :: "duration \<Rightarrow> (instant \<times> instant \<times> string) list \<Rightarrow> bool" where
  "lagging lag cs \<longleftrightarrow> sorted (map fst cs) \<and> (\<forall>(locked, now, a) \<in> set cs. 0 < now \<and> now \<le> locked \<and> locked \<le> now + lag)"

lemma lagging_Cons [simp]:
  "lagging lag ((locked, now, a) # cs) \<longleftrightarrow>
     (\<forall>c \<in> set cs. locked \<le> fst c) \<and> 0 < now \<and> now \<le> locked \<and> locked \<le> now + lag \<and> lagging lag cs"
  by (auto simp: lagging_def)

definition host_window :: "requestLimiter \<Rightarrow> string \<Rightarrow> rateWindow" where
  "host_window l h = lookup_or \<lparr>rw_start = 0, rw_count = 0\<rparr> (map_of (rl_windows l)) h"

definition opens :: "requestLimiter \<Rightarrow> instant \<Rightarrow> rateWindow \<Rightarrow> bool" where
  "opens l now w \<longleftrightarrow> rw_start w = 0 \<or> rl_duration l \<le> now - rw_start w"

text \<open>What a call does to a host's window, when no number overflows.\<close>

lemma limiter_Allow_window:
  assumes "limiter_Allow now a l = (b, l')" and "rl_duration l \<le> max_int64" and "0 < rl_duration l"
    and "0 \<le> rw_count (host_window l (client_host a))" and "rw_count (host_window l (client_host a)) < max_int64"
  shows "rl_limit l' = rl_limit l" "rl_duration l' = rl_duration l"
    "host_window l' (client_host a) = (if opens l now (host_window l (client_host a)) then \<lparr>rw_start = now, rw_count = 1\<rparr>
       else (host_window l (client_host a))\<lparr>rw_count := rw_count (host_window l (client_host a)) + 1\<rparr>)"
    "b \<longleftrightarrow> rw_count (host_window l' (client_host a)) \<le> rl_limit l"
    "h \<noteq> client_host a \<Longrightarrow> host_window l' h = host_window l h"
proof -
  have sub: "rl_duration l \<le> time_Sub now u \<longleftrightarrow> rl_duration l \<le> now - u" for u
    using assms(2,3) by (auto simp: time_Sub_def int64_defs min_def max_def)
  have wrap: "wrap64 (n + 1) = n + 1" if "0 \<le> n" "n < max_int64" for n
    using that by (simp add: int64_defs)
  note d = assms(1) [unfolded limiter_Allow_def Let_def time_IsZero_def sub] host_window_def opens_def
  show "rl_limit l' = rl_limit l" "rl_duration l' = rl_duration l" using d(1) by auto
  show "host_window l' (client_host a) = (if opens l now (host_window l (client_host a)) then \<lparr>rw_start = now, rw_count = 1\<rparr>
       else (host_window l (client_host a))\<lparr>rw_count := rw_count (host_window l (client_host a)) + 1\<rparr>)"
    "b \<longleftrightarrow> rw_count (host_window l' (client_host a)) \<le> rl_limit l"
    using d(1) assms(4,5) wrap [of 0] wrap [of "rw_count (host_window l (client_host a))"]
    by (auto simp: d(2,3) int64_defs)
  show "h \<noteq> client_host a \<Longrightarrow> host_window l' h = host_window l h" using d(1) by (auto simp: d(2))
qed

text \<open>No number overflows during these calls.\<close>

definition window_ok :: "requestLimiter \<Rightarrow> string \<Rightarrow> 'c list \<Rightarrow> bool" where
  "window_ok l h cs \<longleftrightarrow> 0 < rl_duration l \<and> rl_duration l \<le> max_int64 \<and> 0 \<le> rl_limit l
     \<and> (\<forall>h. 0 \<le> rw_count (host_window l h) \<and> rw_count (host_window l h) + int (length cs) < max_int64)"

lemma window_ok_Allow:
  assumes "window_ok l h (c # cs)" and "limiter_Allow now a l = (b, l')"
  shows "rl_limit l' = rl_limit l" "rl_duration l' = rl_duration l"
    "host_window l' (client_host a) = (if opens l now (host_window l (client_host a)) then \<lparr>rw_start = now, rw_count = 1\<rparr>
       else (host_window l (client_host a))\<lparr>rw_count := rw_count (host_window l (client_host a)) + 1\<rparr>)"
    "b \<longleftrightarrow> rw_count (host_window l' (client_host a)) \<le> rl_limit l"
    "x \<noteq> client_host a \<Longrightarrow> host_window l' x = host_window l x"
    "window_ok l' h cs"
proof -
  let ?w = "host_window l (client_host a)"
  have w: "rl_duration l \<le> max_int64" "0 < rl_duration l" "0 \<le> rw_count ?w" "rw_count ?w < max_int64"
    using assms(1) by (auto simp: window_ok_def dest: spec [of _ "client_host a"])
  note s = limiter_Allow_window [OF assms(2) w]
  show "rl_limit l' = rl_limit l" "rl_duration l' = rl_duration l"
    "host_window l' (client_host a) = (if opens l now (host_window l (client_host a)) then \<lparr>rw_start = now, rw_count = 1\<rparr>
       else (host_window l (client_host a))\<lparr>rw_count := rw_count (host_window l (client_host a)) + 1\<rparr>)"
    "b \<longleftrightarrow> rw_count (host_window l' (client_host a)) \<le> rl_limit l"
    "x \<noteq> client_host a \<Longrightarrow> host_window l' x = host_window l x" by (fact s)+
  have "0 \<le> rw_count (host_window l' x) \<and> rw_count (host_window l' x) + int (length cs) < max_int64" for x
  proof (cases "x = client_host a")
    case True
    have "1 + int (length cs) < max_int64" "rw_count ?w + 1 + int (length cs) < max_int64"
      using assms(1) by (auto simp: window_ok_def dest!: spec [of _ "client_host a"])
    then show ?thesis using s(3) w(3) True by simp
  next
    case False
    then show ?thesis using s(5) [OF False] assms(1) by (auto simp: window_ok_def dest!: spec [of _ x])
  qed
  then show "window_ok l' h cs" using assms(1) s(1,2) by (simp add: window_ok_def)
qed

lemma granted_later: "\<forall>c \<in> set cs. s + D \<le> fst c \<Longrightarrow> granted h s D (limiter_run cs l) = 0"
  by (induction cs arbitrary: l) (auto simp: Let_def split: prod.splits)

text \<open>
  A window that started at \<open>u\<close> is followed by at most \<open>n\<close> others that start before the end of an
  interval, when the interval ends by \<open>u\<close> and \<open>n + 1\<close> windows; each of them grants the limit at most.
\<close>

lemma granted_windows:
  assumes "window_ok l h cs" and "lagging lag cs" and "rw_start (host_window l h) \<noteq> 0"
    and "s + rl_duration l \<le> rw_start (host_window l h) + (int n + 1) * rl_duration l"
  shows "granted h s (rl_duration l) (limiter_run cs l) \<le> max 0 (rl_limit l - rw_count (host_window l h)) + int n * rl_limit l"
  using assms
proof (induction cs arbitrary: l n)
  case (Cons c cs)
  obtain locked now a where c: "c = (locked, now, a)" by (metis prod.exhaust)
  obtain b l' where al: "limiter_Allow now a l = (b, l')" by fastforce
  note st = window_ok_Allow [OF Cons.prems(1) al]
  have lag: "lagging lag cs" "now \<le> locked" "\<forall>c \<in> set cs. locked \<le> fst c" "0 < now" using Cons.prems(2) c by auto
  have D: "0 < rl_duration l" "0 \<le> rl_limit l" using Cons.prems(1) by (auto simp: window_ok_def)
  show ?case
  proof (cases "s + rl_duration l \<le> locked")
    case True
    then have "\<forall>d \<in> set (c # cs). s + rl_duration l \<le> fst d" using lag(3) c by force
    from granted_later [OF this] D show ?thesis by simp
  next
    case False
    show ?thesis
    proof (cases "client_host a = h \<and> opens l now (host_window l h)")
      case True
      then have w: "host_window l' h = \<lparr>rw_start = now, rw_count = 1\<rparr>" and o: "rw_start (host_window l h) + rl_duration l \<le> now"
        using st(3) Cons.prems(3) by (auto simp: opens_def)
      with False lag(2) Cons.prems(4) have "0 < int n * rl_duration l" by (simp add: algebra_simps)
      then obtain k where n: "n = Suc k" by (cases n) auto
      have "granted h s (rl_duration l') (limiter_run cs l') \<le> max 0 (rl_limit l' - rw_count (host_window l' h)) + int k * rl_limit l'"
        using Cons.prems(4) o lag(4) by (intro Cons.IH [OF st(6) lag(1)]) (simp_all add: w st(1,2) n algebra_simps)
      with st(1,2,4) w True D show ?thesis by (auto simp: c al n algebra_simps max_def split: if_splits)
    next
      case False
      have "host_window l' h = (if client_host a = h then (host_window l h)\<lparr>rw_count := rw_count (host_window l h) + 1\<rparr> else host_window l h)"
        using False st(3) st(5) [of h] by auto
      with Cons.IH [OF st(6) lag(1), of n] Cons.prems(3,4) st(1,2,4) show ?thesis
        by (auto simp: c al max_def split: if_splits)
    qed
  qed
qed (simp add: window_ok_def)

definition windows_met :: "duration \<Rightarrow> duration \<Rightarrow> int" where
  "windows_met lag D = 2 + (lag + D - 1) div D"

lemma lag_windows: "0 \<le> lag \<Longrightarrow> 0 < D \<Longrightarrow> \<exists>k. (lag + D - 1) div D = int k \<and> lag \<le> int k * D"
proof -
  assume D: "0 \<le> lag" "0 < (D :: int)"
  have "(lag + D - 1) div D * D = lag + D - 1 - (lag + D - 1) mod D" by (simp add: minus_mod_eq_div_mult)
  moreover have "(lag + D - 1) mod D \<le> D - 1" using D(2) by (simp add: pos_mod_bound)
  moreover have "0 \<le> (lag + D - 1) div D" using D by (simp add: pos_imp_zdiv_nonneg_iff)
  ultimately show ?thesis by (intro exI [of _ "nat ((lag + D - 1) div D)"]) simp
qed

lemma granted_any:
  assumes "window_ok l h cs" and "lagging lag cs" and "0 \<le> lag"
  shows "granted h s (rl_duration l) (limiter_run cs l) \<le> windows_met lag (rl_duration l) * rl_limit l"
  using assms(1,2)
proof (induction cs arbitrary: l)
  case Nil
  then have "0 \<le> rl_limit l" "0 < rl_duration l" by (auto simp: window_ok_def)
  with lag_windows [OF assms(3), of "rl_duration l"] show ?case by (auto simp: windows_met_def)
next
  case (Cons c cs)
  obtain locked now a where c: "c = (locked, now, a)" by (metis prod.exhaust)
  obtain b l' where al: "limiter_Allow now a l = (b, l')" by fastforce
  note st = window_ok_Allow [OF Cons.prems(1) al]
  have lag: "lagging lag cs" "now \<le> locked" "locked \<le> now + lag" "0 < now" using Cons.prems(2) c by auto
  have D: "0 < rl_duration l" "0 \<le> rl_limit l" "0 \<le> rw_count (host_window l h)" using Cons.prems(1) by (auto simp: window_ok_def)
  obtain k where k: "windows_met lag (rl_duration l) = 2 + int k" "lag \<le> int k * rl_duration l"
    using lag_windows [OF assms(3) D(1)] unfolding windows_met_def by metis
  note IH = Cons.IH [OF st(6) lag(1), unfolded st(1,2)]
  show ?case
  proof (cases "s \<le> locked \<and> client_host a = h")
    case False
    then show ?thesis using IH by (auto simp: c al)
  next
    case True
    show ?thesis
    proof (cases "opens l now (host_window l h)")
      case True
      then have w: "host_window l' h = \<lparr>rw_start = now, rw_count = 1\<rparr>" using st(3) \<open>s \<le> locked \<and> client_host a = h\<close> by simp
      have "granted h s (rl_duration l') (limiter_run cs l') \<le> max 0 (rl_limit l' - rw_count (host_window l' h)) + int k * rl_limit l'"
        using lag k(2) \<open>s \<le> locked \<and> client_host a = h\<close>
        by (intro granted_windows [OF st(6) lag(1)]) (simp_all add: w st(1,2) algebra_simps)
      with st(1,2,4) w D show ?thesis unfolding k(1) by (auto simp: c al algebra_simps max_def split: if_splits)
    next
      case False
      then have "rw_start (host_window l h) \<noteq> 0" "now < rw_start (host_window l h) + rl_duration l" by (auto simp: opens_def)
      with lag k(2) \<open>s \<le> locked \<and> client_host a = h\<close>
      have "granted h s (rl_duration l) (limiter_run (c # cs) l) \<le> max 0 (rl_limit l - rw_count (host_window l h)) + int (Suc k) * rl_limit l"
        by (intro granted_windows [OF Cons.prems]) (simp_all add: algebra_simps)
      with D show ?thesis unfolding k(1) by (auto simp: algebra_simps max_def split: if_splits)
    qed
  qed
qed

text \<open>
  C23. The limiter bounds every client: whatever calls are made, in any interval of the window's length at
  most twice the limit of one host's requests are granted (the windows are fixed, so an interval meets
  at most two), however other hosts behave. A call reads the clock before it gets the lock: when it may wait for it up
  to \<open>lag\<close>, an interval meets one more window for each window's length begun in \<open>lag\<close>, and none when \<open>lag\<close> is 0.
\<close>

theorem limiter_bound:
  assumes "0 \<le> limit" and "0 < lasting" and "lasting \<le> max_int64" and "0 \<le> lag"
    and "sorted (map fst cs)" and "\<forall>(locked, now, a) \<in> set cs. 0 < now \<and> now \<le> locked \<and> locked \<le> now + lag"
    and "int (length cs) < max_int64"
  shows "granted h s lasting (limiter_run cs (newRequestLimiter limit lasting)) \<le> (2 + (lag + lasting - 1) div lasting) * limit
    \<and> (lag = 0 \<longrightarrow> granted h s lasting (limiter_run cs (newRequestLimiter limit lasting)) \<le> 2 * limit)"
proof -
  let ?l = "newRequestLimiter limit lasting"
  have "window_ok ?l h cs" using assms by (simp add: window_ok_def newRequestLimiter_def host_window_def)
  moreover have "lagging lag cs" using assms(5,6) by (simp add: lagging_def)
  ultimately have "granted h s lasting (limiter_run cs ?l) \<le> windows_met lag lasting * limit"
    using granted_any [of ?l h cs lag s] assms(4) by (simp add: newRequestLimiter_def)
  then show ?thesis using assms(2) by (auto simp: windows_met_def)
qed

theorem limiter_bound_witness:
  "granted ''h'' 4 10 (limiter_run [(3, 3, ''h:1''), (12, 11, ''h:2''), (12, 12, ''h:2''), (13, 11, ''h:3'')] (newRequestLimiter 1 10)) \<le> 3"
  using limiter_bound [of 1 10 2 "[(3, 3, ''h:1''), (12, 11, ''h:2''), (12, 12, ''h:2''), (13, 11, ''h:3'')]" "''h''" 4] by (simp add: int64_defs)

section \<open>The handlers: properties\<close>

lemma limit_request_keeps [simp]:
  "limit_request c r s = (ok, s1) \<Longrightarrow> ws_store s1 = ws_store s \<and> ws_repo s1 = ws_repo s"
  by (auto simp: limit_request_def split: option.splits prod.splits)

lemma containsToken_iff: "containsToken tokens want \<longleftrightarrow> want \<in> set tokens"
  by (induction tokens) auto

lemma authorized_iff: "authorized tokens r \<longleftrightarrow> (\<exists>token \<in> set tokens. headerGet r ''Authorization'' = ''Bearer '' @ token)"
  by (auto simp: authorized_def CutPrefix_def containsToken_iff prefix_def)

text \<open>What a handler changed beyond the limiter.\<close>

definition changed_state :: "'r web_state \<Rightarrow> 'r web_state \<Rightarrow> bool" where
  "changed_state s s' \<longleftrightarrow> ws_store s' \<noteq> ws_store s \<or> ws_repo s' \<noteq> ws_repo s"

lemma slash_changed:
  assumes "slash_ServeHTTP repository tokens c r w s = (w', s')" and "changed_state s s'"
  shows "fst (limit_request c r s) \<and> rmethod r = ''POST'' \<and> formValue r ''token'' \<in> set tokens"
proof -
  obtain ok s1 where l: "limit_request c r s = (ok, s1)" by fastforce
  have "\<not> changed_state s s1" using limit_request_keeps [OF l] by (simp add: changed_state_def)
  then show ?thesis using assms l
    by (auto simp: slash_ServeHTTP_def Let_def containsToken_iff split: if_splits)
qed

lemma api_changed:
  assumes "api_ServeHTTP repository tokens c r w s = (w', s')" and "changed_state s s'"
  shows "fst (limit_request c r s) \<and> authorized tokens r"
proof -
  obtain ok s1 where l: "limit_request c r s = (ok, s1)" by fastforce
  have "\<not> changed_state s s1" using limit_request_keeps [OF l] by (simp add: changed_state_def)
  then show ?thesis using assms l by (auto simp: api_ServeHTTP_def Let_def split: if_splits)
qed

lemma excludesAPI_changed:
  assumes "excludesAPI_ServeHTTP repository tokens c r w s = (w', s')" and "changed_state s s'"
  shows "fst (limit_request c r s) \<and> authorized tokens r"
proof -
  obtain ok s1 where l: "limit_request c r s = (ok, s1)" by fastforce
  have "\<not> changed_state s s1" using limit_request_keeps [OF l] by (simp add: changed_state_def)
  then show ?thesis using assms l by (auto simp: excludesAPI_ServeHTTP_def Let_def split: if_splits)
qed

text \<open>
  C12. No request changes the excludes without leave: when the server's answer to a request changed the
  store or the repository, the limiter had granted it, and it was a \<open>POST\<close> to \<open>/slash\<close> with one of the
  configured tokens or a request to one of the API paths with the bearer token of the API.
\<close>

theorem serve_authorized:
  assumes "serve (fst (newWebServer addr tokens apiTokens mt)) health metrics repository path c r s = (w', s')"
    and "changed_state s s'"
  shows "fst (limit_request c r s)
    \<and> (path = ''/slash'' \<and> rmethod r = ''POST'' \<and> formValue r ''token'' \<in> set tokens
       \<or> path \<in> {''/api/mute'', ''/api/excludes''}
         \<and> (\<exists>token \<in> set apiTokens. headerGet r ''Authorization'' = ''Bearer '' @ token))"
proof (cases "map_of (sv_routes (fst (newWebServer addr tokens apiTokens mt))) path")
  case None
  then show ?thesis using assms by (simp add: serve_def changed_state_def)
next
  case (Some rt)
  have p: "rt = SlashRoute \<Longrightarrow> path = ''/slash''" "rt = ApiMuteRoute \<Longrightarrow> path = ''/api/mute''"
      "rt = ApiExcludesRoute \<Longrightarrow> path = ''/api/excludes''"
    using Some by (auto simp: newWebServer_def split: if_splits)
  have t: "sv_tokens (fst (newWebServer addr tokens apiTokens mt)) = tokens"
      "sv_apiTokens (fst (newWebServer addr tokens apiTokens mt)) = apiTokens" by (simp_all add: newWebServer_def)
  note sv = assms(1) [unfolded serve_def Some option.case t]
  show ?thesis
  proof (cases rt)
    case SlashRoute
    from slash_changed [OF sv [unfolded SlashRoute route.case] assms(2)] p(1) [OF SlashRoute] show ?thesis by blast
  next
    case ApiMuteRoute
    from api_changed [OF sv [unfolded ApiMuteRoute route.case] assms(2)] p(2) [OF ApiMuteRoute] show ?thesis
      unfolding authorized_iff by blast
  next
    case ApiExcludesRoute
    from excludesAPI_changed [OF sv [unfolded ApiExcludesRoute route.case] assms(2)] p(3) [OF ApiExcludesRoute] show ?thesis
      unfolding authorized_iff by blast
  qed (use sv assms(2) in \<open>simp_all add: changed_state_def\<close>)
qed

lemma api_error_status [simp]: "rstatus w = None \<Longrightarrow> final_status (api_error code e w) = code"
  by (simp add: api_error_def)

lemma final_status_Encode [simp]: "rstatus w = None \<Longrightarrow> final_status (json_Encode j w) = 200"
  by simp

context excludes_repository
begin

lemma update_store:
  assumes "updateDynamicExclude (Some \<lparr>repo_get = get, repo_update = update\<rparr>) c t v add s = (Inr (m, b), s')"
  shows "ws_store s' = m \<and> (\<exists>m0. wf_map m0 \<and> update_excludes t v add (Some m0) = Inr (Some m, b))
    \<and> (valid_map m \<longrightarrow> (\<exists>m'. current (cl_ms c) (ws_repo s') = Some m' \<and> same_map m' m))"
proof -
  obtain r where u: "update (cl_update c) (cl_ms c) t v add (ws_repo s) = (Inr (m, b), r)" "s' = s\<lparr>ws_repo := r, ws_store := m\<rparr>"
    using assms by (auto simp: updateDynamicExclude_def split: prod.splits sum.splits)
  from update_result [OF u(1)] update_stores [OF u(1)] u(2) show ?thesis by auto
qed

lemma api_applied:
  assumes "api_ServeHTTP (Some \<lparr>repo_get = get, repo_update = update\<rparr>) tokens c r new_response s = (w', s')"
  shows "if final_status w' = 200
    then \<exists>req m0 b. decode_body dec_apiRequest zero_apiRequest (requestBody r) None = Inr req
      \<and> aq_Command req \<in> {''mute'', ''unmute''} \<and> validateDynamicExclude (aq_Type req) (aq_Value req) = None \<and> wf_map m0
      \<and> update_excludes (aq_Type req) (aq_Value req) (aq_Command req = ''mute'') (Some m0) = Inr (Some (ws_store s'), b)
      \<and> (valid_map (ws_store s') \<longrightarrow> (\<exists>m'. current (cl_ms c) (ws_repo s') = Some m' \<and> same_map m' (ws_store s')))
    else ws_store s' = ws_store s"
proof -
  let ?repo = "Some \<lparr>repo_get = get, repo_update = update\<rparr>"
  obtain ok s1 where l: "limit_request c r s = (ok, s1)" by fastforce
  note keep = limit_request_keeps [OF l]
  have hd: "rstatus (set_header k x new_response) = None" for k x by simp
  note a = assms [unfolded api_ServeHTTP_def Let_def l prod.case]
  show ?thesis
  proof (cases "ok \<and> rmethod r = ''POST'' \<and> authorized tokens r")
    case False
    then have "final_status w' \<noteq> 200 \<and> s' = s1" using a by (auto split: if_splits)
    with keep show ?thesis by simp
  next
    case True
    show ?thesis
    proof (cases "decode_body dec_apiRequest zero_apiRequest (requestBody r) None")
      case (Inl e)
      then have "final_status w' \<noteq> 200 \<and> s' = s1" using a True by auto
      with keep show ?thesis by simp
    next
      case (Inr req)
      show ?thesis
      proof (cases "validateDynamicExclude (aq_Type req) (aq_Value req) = None \<and> aq_Command req \<in> {''mute'', ''unmute''}")
        case False
        then have "final_status w' \<noteq> 200 \<and> s' = s1" using a True Inr by (auto split: option.splits if_splits)
        with keep show ?thesis by simp
      next
        case ok: True
        obtain u s2 where u: "updateDynamicExclude ?repo c (aq_Type req) (aq_Value req) (aq_Command req = ''mute'') s1 = (u, s2)"
          by fastforce
        show ?thesis
        proof (cases u)
          case (Inl e)
          then have "final_status w' \<noteq> 200 \<and> s' = s2" "ws_store s2 = ws_store s1"
            using a True Inr ok u by (auto simp: updateDynamicExclude_def split: option.splits prod.splits sum.splits)
          with keep show ?thesis by simp
        next
          case (Inr mb)
          obtain m b where mb: "u = Inr (m, b)" using Inr by (cases mb) simp
          then have "final_status w' = 200 \<and> s' = s2"
            using a True \<open>decode_body dec_apiRequest zero_apiRequest (requestBody r) None = Inr req\<close> ok u by auto
          with update_store [OF u [unfolded mb]] ok \<open>decode_body dec_apiRequest zero_apiRequest (requestBody r) None = Inr req\<close>
          show ?thesis by auto
        qed
      qed
    qed
  qed
qed

end

definition keydb_repo :: "'r redis_env \<Rightarrow> (net, nat \<Rightarrow> attempt, 'r) repository" where
  "keydb_repo env = \<lparr>repo_get = GetDynExcludes env, repo_update = (\<lambda>as now. UpdateDynExclude env now as)\<rparr>"

context redis
begin

lemmas api_applied_keydb = keydb_repository.api_applied

end

text \<open>
  \<open>/api/mute\<close> answers 200 exactly when it applied its command, and then the store of this process is what
  the update made of the repository's excludes, and the repository's excludes are the store's; any other
  answer leaves the store as it was.
\<close>

theorem api_mute_applied:
  assumes "redis env db"
    and "api_ServeHTTP (Some (keydb_repo env)) tokens c r new_response s = (w', s')"
  shows "if final_status w' = 200
    then \<exists>req m0 b. decode_body dec_apiRequest zero_apiRequest (requestBody r) None = Inr req
      \<and> aq_Command req \<in> {''mute'', ''unmute''} \<and> validateDynamicExclude (aq_Type req) (aq_Value req) = None \<and> wf_map m0
      \<and> update_excludes (aq_Type req) (aq_Value req) (aq_Command req = ''mute'') (Some m0) = Inr (Some (ws_store s'), b)
      \<and> (valid_map (ws_store s') \<longrightarrow>
           (\<exists>m'. current_excludes (sees (cl_ms c) (db (ws_repo s'))) = Some m' \<and> same_map m' (ws_store s')))
    else ws_store s' = ws_store s"
  by (rule redis.api_applied_keydb [OF assms(1) assms(2) [unfolded keydb_repo_def]])

text \<open>A request without the bearer token.\<close>

definition anonymous :: request where
  "anonymous = \<lparr>rmethod = ''POST'', remoteAddr = ''h:1'', formValue = (\<lambda>_. []), headerGet = (\<lambda>_. []), requestBody = []\<rparr>"

definition sample_call :: "(net, nat \<Rightarrow> attempt) call" where
  "sample_call = \<lparr>cl_now = 1, cl_ms = 0, cl_get = delivered, cl_update = (\<lambda>_. quiet_attempt)\<rparr>"

definition sample_state :: "mem web_state" where
  "sample_state = \<lparr>ws_limiter = None, ws_store = [(''host'', [''a''])], ws_repo = mem_empty\<rparr>"

theorem api_mute_applied_witness:
  "\<exists>w' s'. api_ServeHTTP (Some (keydb_repo mem_env)) [''t''] sample_call anonymous new_response sample_state = (w', s')
     \<and> final_status w' = 401 \<and> ws_store s' = [(''host'', [''a''])]"
proof -
  obtain w' s' where a: "api_ServeHTTP (Some (keydb_repo mem_env)) [''t''] sample_call anonymous new_response sample_state = (w', s')"
    by fastforce
  then have "final_status w' = 401"
    by (auto simp: api_ServeHTTP_def limit_request_def sample_state_def anonymous_def authorized_def CutPrefix_def)
  with api_mute_applied [OF mem.redis_axioms a] a show ?thesis by (simp add: sample_state_def)
qed

text \<open>A request to read the excludes, with the token.\<close>

definition reader :: request where
  "reader = \<lparr>rmethod = ''GET'', remoteAddr = ''h:1'', formValue = (\<lambda>_. []), headerGet = (\<lambda>_. ''Bearer t''), requestBody = []\<rparr>"

theorem serve_authorized_witness:
  "\<exists>w' s'. serve (fst (newWebServer [] [] [''t''] False)) id id (Some (keydb_repo mem_env)) ''/api/excludes'' sample_call reader sample_state
       = (w', s') \<and> changed_state sample_state s' \<and> (\<exists>token \<in> set [''t'']. headerGet reader ''Authorization'' = ''Bearer '' @ token)"
proof -
  obtain w' s' where sv: "serve (fst (newWebServer [] [] [''t''] False)) id id (Some (keydb_repo mem_env)) ''/api/excludes'' sample_call reader sample_state
       = (w', s')" by fastforce
  obtain m where g: "GetDynExcludes mem_env delivered 0 mem_empty = (Inr [], m)"
    by (simp add: GetDynExcludes_def mem_eval str_at_def)
  have r: "map_of (sv_routes (fst (newWebServer [] [] [''t''] False))) ''/api/excludes'' = Some ApiExcludesRoute"
    "sv_apiTokens (fst (newWebServer [] [] [''t''] False)) = [''t'']"
    by (simp_all add: newWebServer_def)
  have a: "authorized [''t''] reader" by (simp add: authorized_def reader_def CutPrefix_def)
  have "ws_store s' = []"
    using sv g a unfolding serve_def r option.case route.case excludesAPI_ServeHTTP_def
    by (auto simp: limit_request_def sample_state_def reader_def excludes_get_def sample_call_def keydb_repo_def Let_def split: prod.splits)
  then have ch: "changed_state sample_state s'" by (simp add: changed_state_def sample_state_def)
  from serve_authorized [OF sv ch] sv ch show ?thesis by blast
qed

end
