(* ===== verification/Excludes_Races.thy ===== *)
theory Excludes_Races
  imports Web
begin

text \<open>
  The store of the dynamic excludes under concurrency. The handlers of the web server (web.go, \<open>updateDynamicExclude\<close>
  and the \<open>GET\<close> of \<open>/api/excludes\<close>) and the refresher (dynamic\_excludes.go) run in goroutines of their own. Each gets an
  answer from the repository and then replaces the store by it; in between the others run, in this process and in
  those that share the server. A step is one of these two halves: the operations of the repository take effect at one point
  (see \<open>Keydb\<close>), and \<open>Replace\<close> holds the mutex of the store.
\<close>

section \<open>The goroutines\<close>

text \<open>A goroutine is in neither half, or it got these excludes and has not yet replaced the store.\<close>

datatype task = Resting | Holding excludes

record 'r races =
  rc_repo :: 'r
  rc_store :: excludes
  rc_tasks :: "task list"

definition start_races :: "excludes \<Rightarrow> 'r \<Rightarrow> nat \<Rightarrow> 'r races" where
  "start_races m r n = \<lparr>rc_repo = r, rc_store = m, rc_tasks = replicate n Resting\<rparr>"

definition task_at :: "'r races \<Rightarrow> nat \<Rightarrow> task \<Rightarrow> bool" where
  "task_at s i t \<longleftrightarrow> i < length (rc_tasks s) \<and> rc_tasks s ! i = t"

text \<open>The repository answered: on an error the goroutine is through, and the store stays.\<close>

definition task_answered :: "nat \<Rightarrow> excludes result \<times> 'r \<Rightarrow> 'r races \<Rightarrow> 'r races" where
  "task_answered i answer s =
     (case answer of
        (Inl err, r) \<Rightarrow> s\<lparr>rc_repo := r\<rparr>
      | (Inr m, r) \<Rightarrow> s\<lparr>rc_repo := r, rc_tasks := (rc_tasks s)[i := Holding m]\<rparr>)"

definition task_replaced :: "nat \<Rightarrow> excludes \<Rightarrow> 'r races \<Rightarrow> 'r races" where
  "task_replaced i m s = s\<lparr>rc_store := m, rc_tasks := (rc_tasks s)[i := Resting]\<rparr>"

text \<open>What an update answers, without its flag.\<close>

definition update_answer :: "(excludes \<times> bool) result \<times> 'r \<Rightarrow> excludes result \<times> 'r" where
  "update_answer a = (case a of (Inl err, r) \<Rightarrow> (Inl err, r) | (Inr (m, changed), r) \<Rightarrow> (Inr m, r))"

text \<open>
  What happens in a run: the server changes under the process (others use it, and values expire), goroutine \<open>i\<close> asks the
  repository, at this time and in these circumstances, to read or to update, or replaces the store by the answer that it holds.
\<close>

datatype ('q, 'u, 'r) event =
    Others "'r \<Rightarrow> 'r"
  | Reads nat 'q int
  | Updates nat 'u int string string bool
  | Replaces nat

text \<open>One event, None when it cannot happen in this state.\<close>

definition race_step :: "('q, 'u, 'r) repository \<Rightarrow> ('q, 'u, 'r) event \<Rightarrow> 'r races \<Rightarrow> 'r races option" where
  "race_step repo e s =
     (case e of
        Others f \<Rightarrow> Some (s\<lparr>rc_repo := f (rc_repo s)\<rparr>)
      | Reads i q now \<Rightarrow>
          if task_at s i Resting then Some (task_answered i (repo_get repo q now (rc_repo s)) s) else None
      | Updates i u now t v add \<Rightarrow>
          if task_at s i Resting then Some (task_answered i (update_answer (repo_update repo u now t v add (rc_repo s))) s) else None
      | Replaces i \<Rightarrow>
          if i < length (rc_tasks s)
          then (case rc_tasks s ! i of Holding m \<Rightarrow> Some (task_replaced i m s) | Resting \<Rightarrow> None) else None)"

fun race_run :: "('q, 'u, 'r) repository \<Rightarrow> ('q, 'u, 'r) event list \<Rightarrow> 'r races \<Rightarrow> 'r races option" where
  "race_run repo [] s = Some s"
| "race_run repo (e # es) s = Option.bind (race_step repo e s) (race_run repo es)"

text \<open>When an event asked the repository.\<close>

fun asked_at :: "('q, 'u, 'r) event \<Rightarrow> int option" where
  "asked_at (Reads i q now) = Some now"
| "asked_at (Updates i u now t v add) = Some now"
| "asked_at e = None"

definition quiet :: "'r races \<Rightarrow> bool" where
  "quiet s \<longleftrightarrow> (\<forall>t \<in> set (rc_tasks s). t = Resting)"

section \<open>The halves make up the operations\<close>

lemma task_answered_fields [simp]:
  "rc_repo (task_answered i (a, r) s) = r" "rc_store (task_answered i a' s) = rc_store s"
  by (auto simp: task_answered_def split: prod.splits sum.splits)

lemma task_replaced_fields [simp]: "rc_repo (task_replaced i m s) = rc_repo s" "rc_store (task_replaced i m s) = m"
  by (simp_all add: task_replaced_def)

text \<open>Run one right after the other, the halves are the operation of the handler, of the reader and of the refresher.\<close>

lemma halves_update:
  assumes "updateDynamicExclude (Some repo) c t v add s = (Inr (m, changed), s')" and "task_at (p :: 'r races) i Resting"
    and "rc_repo p = ws_repo s"
  shows "\<exists>p'. race_run repo [Updates i (cl_update c) (cl_ms c) t v add, Replaces i] p = Some p'
    \<and> rc_repo p' = ws_repo s' \<and> rc_store p' = ws_store s'"
  using assms
  by (auto simp: race_step_def updateDynamicExclude_def update_answer_def task_answered_def task_replaced_def task_at_def
      split: prod.splits sum.splits)

lemma halves_get:
  assumes "repo_get repo (cl_get c) (cl_ms c) (ws_repo s) = (Inr m, r)" and "task_at (p :: 'r races) i Resting"
    and "rc_repo p = ws_repo s" and "excludes_get (Some repo) c w s = (w', s')"
  shows "\<exists>p'. race_run repo [Reads i (cl_get c) (cl_ms c), Replaces i] p = Some p' \<and> rc_repo p' = ws_repo s' \<and> rc_store p' = ws_store s'"
  using assms by (auto simp: race_step_def excludes_get_def task_answered_def task_replaced_def task_at_def)

lemma halves_refresh:
  assumes "repo_get repo q now (rc_repo p) = (Inr m, r)" and "task_at (p :: 'r races) i Resting"
  shows "\<exists>p'. race_run repo [Reads i q now, Replaces i] p = Some p'
    \<and> rc_repo p' = r \<and> rc_store p' = fst (refresh_tick (Inr m) (rc_store p, metrics))"
  using assms by (auto simp: race_step_def refresh_tick_def task_answered_def task_replaced_def task_at_def)

section \<open>What the store can be\<close>

text \<open>
  Some event of the run \<open>es\<close> from \<open>s0\<close> asked the repository, and right after it the server held \<open>m\<close>. (A map with invalid UTF-8 is not what
  the server holds of it: its JSON has other characters.)
\<close>

definition was_current ::
  "(int \<Rightarrow> 'r \<Rightarrow> excludes option) \<Rightarrow> ('q, 'u, 'r) repository \<Rightarrow> 'r races \<Rightarrow> ('q, 'u, 'r) event list \<Rightarrow> excludes \<Rightarrow> bool" where
  "was_current current repo s0 es m \<longleftrightarrow> (valid_map m \<longrightarrow>
     (\<exists>n < length es. \<exists>now s1 m'. asked_at (es ! n) = Some now \<and> race_run repo (take (Suc n) es) s0 = Some s1
        \<and> current now (rc_repo s1) = Some m' \<and> same_map m' m))"

definition replaced :: "('q, 'u, 'r) event list \<Rightarrow> bool" where
  "replaced es \<longleftrightarrow> (\<exists>i. Replaces i \<in> set es)"

definition race_inv ::
  "(int \<Rightarrow> 'r \<Rightarrow> excludes option) \<Rightarrow> ('q, 'u, 'r) repository \<Rightarrow> 'r races \<Rightarrow> ('q, 'u, 'r) event list \<Rightarrow> 'r races \<Rightarrow> bool" where
  "race_inv current repo s0 es s \<longleftrightarrow> (if replaced es then was_current current repo s0 es (rc_store s) else rc_store s = rc_store s0)
     \<and> (\<forall>m. Holding m \<in> set (rc_tasks s) \<longrightarrow> was_current current repo s0 es m)"

lemma race_run_append: "race_run repo (es @ es') s = Option.bind (race_run repo es s) (race_run repo es')"
  by (induction es arbitrary: s) (auto simp: bind_eq_Some_conv split: Option.bind_splits)

lemma replaced_snoc [simp]: "replaced (es @ [e]) \<longleftrightarrow> replaced es \<or> (\<exists>i. e = Replaces i)"
  by (auto simp: replaced_def)

lemma was_current_later:
  assumes "was_current current repo s0 es m"
  shows "was_current current repo s0 (es @ es') m"
  unfolding was_current_def
proof
  assume "valid_map m"
  then obtain n now s1 m' where "n < length es" "asked_at (es ! n) = Some now" "race_run repo (take (Suc n) es) s0 = Some s1"
      "current now (rc_repo s1) = Some m'" "same_map m' m"
    using assms unfolding was_current_def by blast
  then show "\<exists>n < length (es @ es'). \<exists>now s1 m'. asked_at ((es @ es') ! n) = Some now
      \<and> race_run repo (take (Suc n) (es @ es')) s0 = Some s1 \<and> current now (rc_repo s1) = Some m' \<and> same_map m' m"
    by (intro exI [of _ n]) (simp add: nth_append)
qed

lemma was_current_now:
  assumes "race_run repo (es @ [e]) s0 = Some s" and "asked_at e = Some now"
    and "valid_map m \<Longrightarrow> \<exists>m'. current now (rc_repo s) = Some m' \<and> same_map m' m"
  shows "was_current current repo s0 (es @ [e]) m"
  unfolding was_current_def using assms by (intro impI exI [of _ "length es"]) auto

lemma task_in_update: "t \<in> set (ts[i := t']) \<Longrightarrow> t = t' \<or> t \<in> set ts"
  using set_update_subset_insert by fastforce

text \<open>An event that asked, and the goroutine that holds the answer.\<close>

lemma race_inv_answered:
  assumes inv: "race_inv current repo s0 es s" and run: "race_run repo (es @ [e]) s0 = Some (task_answered i (a, r) s)"
    and e: "asked_at e = Some now" and answer: "\<And>m. a = Inr m \<Longrightarrow> valid_map m \<Longrightarrow> \<exists>m'. current now r = Some m' \<and> same_map m' m"
  shows "race_inv current repo s0 (es @ [e]) (task_answered i (a, r) s)"
proof -
  have "was_current current repo s0 (es @ [e]) m" if "a = Inr m" for m
    using answer [OF that] by (intro was_current_now [where now = now, OF run e]) simp
  moreover have "e \<noteq> Replaces k" for k using e by auto
  ultimately show ?thesis
    using inv was_current_later [of current repo s0 es _ "[e]"]
    by (cases a) (auto simp: race_inv_def task_answered_def dest!: task_in_update)
qed

lemma race_inv_replaced:
  assumes "race_inv current repo s0 es s" and "task_at s i (Holding m)"
  shows "race_inv current repo s0 (es @ [Replaces i]) (task_replaced i m s)"
proof -
  have "Holding m \<in> set (rc_tasks s)" using assms(2) by (metis nth_mem task_at_def)
  then show ?thesis
    using assms(1) was_current_later [of current repo s0 es _ "[Replaces i]"]
    by (auto simp: race_inv_def task_replaced_def dest!: task_in_update)
qed

context excludes_repository
begin

lemma race_inv_step:
  assumes repo: "repo = \<lparr>repo_get = get, repo_update = update\<rparr>" and inv: "race_inv current repo s0 es s"
    and run: "race_run repo es s0 = Some s" and step: "race_step repo e s = Some s'"
  shows "race_inv current repo s0 (es @ [e]) s'"
proof -
  have run': "race_run repo (es @ [e]) s0 = Some s'" using run step by (simp add: race_run_append)
  show ?thesis
  proof (cases e)
    case (Others f)
    then show ?thesis using step inv was_current_later [of current repo s0 es _ "[e]"]
      by (auto simp: race_step_def race_inv_def)
  next
    case (Reads i q now)
    obtain a r where g: "get q now (rc_repo s) = (a, r)" by fastforce
    have s': "s' = task_answered i (a, r) s" using step Reads repo g by (simp add: race_step_def split: if_splits)
    have "\<exists>m'. current now r = Some m' \<and> same_map m' m" if "a = Inr m" for m
      using get_reads [of q now "rc_repo s" m r] get_keeps [of now q "rc_repo s"] g that by (auto simp: same_map_def)
    then show ?thesis unfolding s' using run' [unfolded s'] Reads by (intro race_inv_answered [OF inv, of _ _ _ _ now]) auto
  next
    case (Updates i u now t v add)
    obtain a r where u: "update u now t v add (rc_repo s) = (a, r)" by fastforce
    obtain a' where a': "update_answer (a, r) = (a', r)" "\<And>m. a' = Inr m \<Longrightarrow> \<exists>b. a = Inr (m, b)"
      by (cases a) (auto simp: update_answer_def)
    have s': "s' = task_answered i (a', r) s" using step Updates repo u a'(1) by (simp add: race_step_def split: if_splits)
    have "\<exists>m'. current now r = Some m' \<and> same_map m' m" if "a' = Inr m" "valid_map m" for m
      using update_stores u a'(2) [OF that(1)] that(2) by blast
    then show ?thesis unfolding s' using run' [unfolded s'] Updates by (intro race_inv_answered [OF inv, of _ _ _ _ now]) auto
  next
    case (Replaces i)
    then obtain m where "task_at s i (Holding m)" "s' = task_replaced i m s"
      using step by (auto simp: race_step_def task_at_def split: if_splits task.splits)
    then show ?thesis using race_inv_replaced [OF inv] Replaces by simp
  qed
qed

lemma race_inv_run:
  assumes "repo = \<lparr>repo_get = get, repo_update = update\<rparr>" and "race_run repo es s0 = Some s" and "quiet s0"
  shows "race_inv current repo s0 es s"
  using assms(2)
proof (induction es arbitrary: s rule: rev_induct)
  case Nil
  then show ?case using assms(3) by (auto simp: race_inv_def replaced_def quiet_def)
next
  case (snoc e es)
  then obtain s1 where "race_run repo es s0 = Some s1" "race_step repo e s1 = Some s"
    by (auto simp: race_run_append bind_eq_Some_conv)
  then show ?case using race_inv_step [OF assms(1)] snoc.IH by blast
qed

end

context redis
begin

lemmas race_inv_keydb = keydb_repository.race_inv_run

end

text \<open>
  C18. The store never falls back: take a moment when no goroutine holds an answer, and any run from there, with other processes that
  change the server. If no goroutine replaced the store in it, the store is as it was; otherwise the store
  is what the server held, in this very run, right after one of the events of the run that asked it. An
  answer from before that moment cannot come back.
\<close>

theorem store_never_falls_back:
  assumes "redis env db" and "race_run (keydb_repo env) es s0 = Some s" and "quiet s0" and "valid_map (rc_store s)"
  shows "if replaced es
    then \<exists>n < length es. \<exists>now s1 m. asked_at (es ! n) = Some now \<and> race_run (keydb_repo env) (take (Suc n) es) s0 = Some s1
        \<and> current_excludes (sees now (db (rc_repo s1))) = Some m \<and> same_map m (rc_store s)
    else rc_store s = rc_store s0"
  using redis.race_inv_keydb [OF assms(1) keydb_repo_def assms(2,3)] assms(4) unfolding race_inv_def was_current_def by presburger

lemma quiet_start [simp]: "quiet (start_races m r n)"
  by (simp add: quiet_def start_races_def)

lemma UpdateDynExclude_adds:
  assumes "redis env db" and "UpdateDynExclude env now as t v True st = (Inr (m, b), st')"
  shows "wf_map m" "v \<in> set (lookup_or [] (map_of m) t)"
proof -
  obtain m0 where "wf_map m0" "update_excludes t v True (Some m0) = Inr (Some m, b)"
    using UpdateDynExclude_law(1) [OF assms] by blast
  with update_excludes_spec [of m0 t v True] show "wf_map m" "v \<in> set (lookup_or [] (map_of m) t)" by (auto split: if_splits)
qed

text \<open>
  C26. While goroutines overlap, though, an answered mute can be lost. One goroutine reads the excludes; another one mutes a value and replaces the store,
  which is what its client is told; then the first one replaces the store by what it read. All goroutines rest, the server
  has the value, and the store does not, until the next refresh gives it back.
\<close>

theorem late_answer_overwrites:
  assumes "redis env db" and "GetDynExcludes env net now st = (Inr m0, st1)" and "v \<notin> set (lookup_or [] (map_of m0) t)"
    and "UpdateDynExclude env now' as t v True st1 = (Inr (m1, True), st2)" and "valid_map m1" and "now' \<le> now''"
  shows "\<exists>p s s'. race_run (keydb_repo env) [Reads 0 net now, Updates 1 as now' t v True, Replaces 1] (start_races m st 2) = Some p
    \<and> rc_store p = m1 \<and> v \<in> set (lookup_or [] (map_of (rc_store p)) t)
    \<and> race_run (keydb_repo env) [Replaces 0] p = Some s
    \<and> quiet s \<and> rc_store s = m0 \<and> v \<notin> set (lookup_or [] (map_of (rc_store s)) t)
    \<and> (\<exists>m'. current_excludes (sees now' (db (rc_repo s))) = Some m' \<and> v \<in> set (lookup_or [] (map_of m') t))
    \<and> race_run (keydb_repo env) [Reads 0 delivered now'', Replaces 0] s = Some s'
    \<and> quiet s' \<and> v \<in> set (lookup_or [] (map_of (rc_store s')) t)"
proof -
  note m1 = UpdateDynExclude_adds [OF assms(1,4)]
  obtain m2 st3 where g: "GetDynExcludes env delivered now'' st2 = (Inr m2, st3)" "same_map m2 m1"
    using UpdateDynExclude_read_back [OF assms(1,4) m1(1) assms(5) _ assms(6), of "[]"] by (auto simp: prod_eq_iff)
  have "\<exists>m'. current_excludes (sees now' (db st2)) = Some m' \<and> v \<in> set (lookup_or [] (map_of m') t)"
    using UpdateDynExclude_law(2) [OF assms(1,4,5)] m1(2) by (auto simp: same_map_def)
  moreover have "v \<in> set (lookup_or [] (map_of m2) t)" using g(2) m1(2) by (simp add: same_map_def)
  ultimately show ?thesis
    using assms(2-4) g(1) m1(2)
    by (simp add: race_step_def start_races_def keydb_repo_def task_at_def task_answered_def task_replaced_def update_answer_def
        quiet_def numeral_2_eq_2)
qed

text \<open>One goroutine mutes a value on a server without excludes.\<close>

lemma mute_result:
  obtains st where "UpdateDynExclude mem_env 0 (\<lambda>_. quiet_attempt) ''host'' ''b'' True mem_empty = (Inr ([(''host'', [''b''])], True), st)"
  using single_update by (metis prod.collapse)

lemma valid_sample: "valid_map [(''host'', [''b''])]"
  by (simp add: valid_ascii_map ascii_def byte_def)

theorem store_never_falls_back_witness:
  "\<exists>s n s1 m. race_run (keydb_repo mem_env) [Updates 0 (\<lambda>_. quiet_attempt) 0 ''host'' ''b'' True, Replaces 0] (start_races [] mem_empty 1) = Some s
     \<and> rc_store s = [(''host'', [''b''])] \<and> n = 0
     \<and> race_run (keydb_repo mem_env) [Updates 0 (\<lambda>_. quiet_attempt) 0 ''host'' ''b'' True] (start_races [] mem_empty 1) = Some s1
     \<and> current_excludes (sees 0 (mem_view (rc_repo s1))) = Some m \<and> same_map m (rc_store s)"
proof -
  let ?es = "[Updates 0 (\<lambda>_. quiet_attempt) 0 ''host'' ''b'' True, Replaces 0] :: (net, nat \<Rightarrow> attempt, mem) event list" and ?m = "[(''host'', [''b''])]"
  obtain st where u: "UpdateDynExclude mem_env 0 (\<lambda>_. quiet_attempt) ''host'' ''b'' True mem_empty = (Inr (?m, True), st)"
    by (rule mute_result)
  obtain s where s: "race_run (keydb_repo mem_env) ?es (start_races [] mem_empty 1) = Some s" "rc_store s = ?m"
    using u by (simp add: race_step_def start_races_def keydb_repo_def task_at_def task_answered_def task_replaced_def update_answer_def)
  have r: "replaced ?es" by (simp add: replaced_def)
  have v: "valid_map (rc_store s)" using s(2) valid_sample by simp
  obtain n now s1 m where n: "n < length ?es" "asked_at (?es ! n) = Some now"
      "race_run (keydb_repo mem_env) (take (Suc n) ?es) (start_races [] mem_empty 1) = Some s1"
      "current_excludes (sees now (mem_view (rc_repo s1))) = Some m" "same_map m (rc_store s)"
    using store_never_falls_back [OF mem.redis_axioms s(1) quiet_start v, unfolded if_P [OF r]] by blast
  have "n = 0 \<and> now = 0" using n(1,2) by (cases n) auto
  with n s show ?thesis by auto
qed

theorem late_answer_overwrites_witness:
  "\<exists>p s. race_run (keydb_repo mem_env) [Reads 0 delivered 0, Updates 1 (\<lambda>_. quiet_attempt) 0 ''host'' ''b'' True, Replaces 1]
       (start_races [] mem_empty 2) = Some p
     \<and> rc_store p = [(''host'', [''b''])]
     \<and> race_run (keydb_repo mem_env) [Replaces 0] p = Some s \<and> quiet s \<and> rc_store s = []"
proof -
  obtain st where u: "UpdateDynExclude mem_env 0 (\<lambda>_. quiet_attempt) ''host'' ''b'' True mem_empty = (Inr ([(''host'', [''b''])], True), st)"
    by (rule mute_result)
  have g: "GetDynExcludes mem_env delivered 0 mem_empty = (Inr [], mem_empty)"
    by (simp add: GetDynExcludes_def client_def client_once_def redis_call_def mem_eval reply_string_def fun_eq_iff)
  have "''b'' \<notin> set (lookup_or [] (map_of []) ''host'')" by (simp add: lookup_or_def)
  from late_answer_overwrites [OF mem.redis_axioms g this u valid_sample, of 0 "[]"] show ?thesis by auto
qed

end
