(* ===== verification/Engine.thy ===== *)
theory Engine
  imports Log_Parser Incident Json_Excludes
begin

text \<open>
  The alert engine of main.go: the exclusion of a line, and \<open>checkLine\<close>, which takes a line through the monitors,
  the excludes, the decision service, the incident aggregation, the deduplication and the notifier. One
  definition models the body of the loop over the monitors; the state is what the engine shares with the
  rest of the process: the store, the network, the deduper, the counters and the alert log.
\<close>

section \<open>Exclusion\<close>

text \<open>The fields of a parsed line as a Go map: the five groups of the expressions.\<close>

definition field_names :: "string list" where
  "field_names = [''tstmp'', ''host'', ''process'', ''pid'', ''text'']"

definition fields_map :: "Log_Parser.fields \<Rightarrow> (string, string) gomap" where
  "fields_map p = List.map_filter (\<lambda>k. map_option (Pair k) (p k)) field_names"

definition parsedLine :: "string \<Rightarrow> parsed_line" where
  "parsedLine line = (case parseLine line of Inl e \<Rightarrow> None | Inr p \<Rightarrow> Some (fields_map p))"

fun contains_any :: "string \<Rightarrow> string list \<Rightarrow> bool" where
  "contains_any t [] = False"
| "contains_any t (exclude # excludes) = (if str_contains t exclude then True else contains_any t excludes)"

fun checkDynExcludesMulti :: "parsed_line \<Rightarrow> excludes \<Rightarrow> bool" where
  "checkDynExcludesMulti parsed [] = False"
| "checkDynExcludesMulti parsed ((excludeType, xs) # m) =
     (if contains_any (parsed_get parsed excludeType) xs then True else checkDynExcludesMulti parsed m)"

definition checkDynExcludesLine :: "string \<Rightarrow> excludes \<Rightarrow> bool" where
  "checkDynExcludesLine line m = contains_any line (lookup_or [] (map_of m) ''text'')"

definition matchesProcessExclude :: "string \<Rightarrow> regex list \<Rightarrow> bool" where
  "matchesProcessExclude process res = (if process = '''' then False else list_ex (\<lambda>re. MatchString re process) res)"

definition isNonActionableStructuredLine :: "(string, string) gomap \<Rightarrow> jsonExclude list \<Rightarrow> bool" where
  "isNonActionableStructuredLine parsed exs =
     (let process = lookup_or [] (map_of parsed) ''process''; t = lookup_or [] (map_of parsed) ''text'' in
      if process = ''snapd'' \<and> str_contains t ''adjusting startup timeout by '' \<and> str_contains t ''(pessimistic estimate of ''
      then True
      else if HasPrefix t ''ansible-'' \<and> str_contains t '' Invoked with '' then True
      else matchesJSONExclude parsed exs)"

section \<open>The engine\<close>

record alertEngine =
  en_monitors :: "monitor list"
  en_processExcludes :: "regex list"
  en_jsonExcludes :: "jsonExclude list"
  en_notifier :: notificationClient
  en_iconURL :: string
  en_decisionCfg :: DecisionServiceConfig
  en_dedupCfg :: alert_dedup_config
  en_incidents :: incidentAggregator

record ('r, 'w) engine_state =
  es_store :: 'r
  es_net :: 'w
  es_deduper :: deduper
  es_metrics :: "telemetry option"
  es_alertLog :: "string list"

text \<open>
  What is fixed during a run: the server and the network, and the functions of the libraries: \<open>strconv.ParseFloat\<close>,
  \<open>unicode.ToLower\<close> and the rounding of \<open>float64\<close>.
\<close>

record ('r, 'w) surroundings =
  su_env :: "'r redis_env"
  su_henv :: "'w http_env"
  su_parse_float :: "string \<Rightarrow> rat option"
  su_ulower :: "nat \<Rightarrow> nat"
  su_fround :: "rat \<Rightarrow> rat"

text \<open>
  The circumstances of one pass through the loop: the decision of the flight of another worker that the call
  of the decision cache joined (None: it evaluates itself), the clocks, and for each request to the
  store what other clients do before it and its fate.
\<close>

record 'r circumstances =
  ci_joined :: "alertDecision option"
  ci_timestamp :: string
  ci_elapsed :: duration
  ci_observed :: instant
  ci_now :: instant
  ci_record :: "'r step_env"
  ci_release :: "'r step_env"
  ci_reserve :: "'r step_env"
  ci_forget :: "'r step_env"

definition bump :: "((64 word \<Rightarrow> 64 word) \<Rightarrow> telemetry \<Rightarrow> telemetry) \<Rightarrow> ('r, 'w) engine_state \<Rightarrow> ('r, 'w) engine_state" where
  "bump upd s = s\<lparr>es_metrics := incr upd (es_metrics s)\<rparr>"

definition is_excluded :: "alertEngine \<Rightarrow> excludes \<Rightarrow> monitor \<Rightarrow> string \<Rightarrow> bool" where
  "is_excluded e snapshot mon line =
     (let excludeLine =
        (case parsedLine line of
           Some parsed \<Rightarrow>
             if checkDynExcludesMulti (Some parsed) snapshot then True
             else if matchesProcessExclude (lookup_or [] (map_of parsed) ''process'') (en_processExcludes e) then True
             else isNonActionableStructuredLine parsed (en_jsonExcludes e)
         | None \<Rightarrow> checkDynExcludesLine line snapshot)
      in if \<not> excludeLine then contains_any line (m_excludes mon) else True)"

text \<open>The card, the message and the user name of an alert.\<close>

definition backtick :: string where
  "backtick = [byte_char 96]"

definition alert_message :: "parsed_line \<Rightarrow> string \<Rightarrow> tintwireCard \<times> string \<times> string" where
  "alert_message parsed line =
     (if parsed \<noteq> None then
        (logAlertCard parsed,
         ''**('' @ parsed_get parsed ''process'' @ '','' @ parsed_get parsed ''pid'' @ '')** '' @ backtick
           @ parsed_get parsed ''text'' @ backtick @ '' **('' @ parsed_get parsed ''host'' @ '')** **(''
           @ parsed_get parsed ''tstmp'' @ '')**'',
         ''clattermark - '' @ parsed_get parsed ''host'')
      else (rawLogAlertCard line, backtick @ line @ backtick, ''clattermark''))"

text \<open>The decision, evaluated or joined, with its counters.\<close>

definition get_decision ::
  "('r, 'w) surroundings \<Rightarrow> alertEngine \<Rightarrow> 'r circumstances \<Rightarrow> string \<Rightarrow> parsed_line \<Rightarrow> string \<Rightarrow> ('r, 'w) engine_state
     \<Rightarrow> alertDecision \<times> ('r, 'w) engine_state" where
  "get_decision su e ci line parsed msg s =
     (case ci_joined ci of
        Some d \<Rightarrow> (d, bump decisionCacheHits_update s)
      | None \<Rightarrow>
          (let (d, w) = shouldSendByDecisionService (su_parse_float su) (su_henv su) (ci_timestamp ci) (en_decisionCfg e) line parsed msg
                          (es_net s);
               s = bump decisionCacheMisses_update (s\<lparr>es_net := w\<rparr>);
               s = (if ds_Enabled (en_decisionCfg e)
                    then s\<lparr>es_metrics := map_option (observeDecision (su_fround su) (ad_Outcome d)
                             (dur_Seconds (su_fround su) (ci_elapsed ci))) (es_metrics s)\<rparr>
                    else s);
               s = (if ad_ServiceFailed d then bump decisionFailures_update s else s)
           in (d, s)))"

definition engine_Send ::
  "('r, 'w) surroundings \<Rightarrow> alertEngine \<Rightarrow> tintwireCard \<Rightarrow> string \<Rightarrow> string \<Rightarrow> ('r, 'w) engine_state
     \<Rightarrow> go_error option \<times> ('r, 'w) engine_state" where
  "engine_Send su e tc user msg s =
     (let (err, w) = Send (su_henv su) (en_notifier e) tc user [] msg (en_iconURL e) (es_net s)
      in (err, s\<lparr>es_net := w, es_alertLog := es_alertLog s @ [msg]\<rparr>))"

text \<open>An incident that is due: its notification, released again when it was not delivered.\<close>

definition notify_incident ::
  "('r, 'w) surroundings \<Rightarrow> alertEngine \<Rightarrow> 'r circumstances \<Rightarrow> compiledIncidentRule \<Rightarrow> IncidentUpdate \<Rightarrow> parsed_line
     \<Rightarrow> ('r, 'w) engine_state \<Rightarrow> ('r, 'w) engine_state" where
  "notify_incident su e ci rule update parsed s =
     (let (tc, msg) = incidentNotification rule update parsed (parsed_get parsed ''text'');
          (err, s) = engine_Send su e tc ''clattermark'' msg s
      in case err of
           None \<Rightarrow> s
         | Some _ \<Rightarrow>
             (let s = bump notificationFailures_update s; (f, net, ms) = ci_release ci
              in s\<lparr>es_store := Release (su_env su) net ms rule (Count update) (f (es_store s))\<rparr>))"

text \<open>An alert of its own: the deduplication, the notification, and the reservation given back when it was not
  delivered.\<close>

definition send_alert ::
  "('r, 'w) surroundings \<Rightarrow> alertEngine \<Rightarrow> 'r circumstances \<Rightarrow> string \<Rightarrow> alertDecision \<Rightarrow> tintwireCard \<Rightarrow> string \<Rightarrow> string
     \<Rightarrow> ('r, 'w) engine_state \<Rightarrow> ('r, 'w) engine_state" where
  "send_alert su e ci fingerprint decision tc user msg s =
     (let store = Some (keydb_dedup (su_env su));
          (f, net, ms) = ci_reserve ci;
          (allowed, d, st) =
            (if dedup_enabled (en_dedupCfg e)
             then Allow store net ms (ci_now ci) fingerprint (ad_TTLSeconds decision) (es_deduper s, f (es_store s))
             else (True, es_deduper s, es_store s));
          s = s\<lparr>es_deduper := d, es_store := st\<rparr>
      in if \<not> allowed then s
         else
           let (err, s) = engine_Send su e tc user msg s
           in case err of
                None \<Rightarrow> s
              | Some _ \<Rightarrow>
                  (let s = bump notificationFailures_update s; (g, net', ms') = ci_forget ci
                   in if dedup_enabled (en_dedupCfg e)
                      then (let (d, st) = Forget store net' ms' fingerprint (es_deduper s, g (es_store s))
                            in s\<lparr>es_deduper := d, es_store := st\<rparr>)
                      else s))"

text \<open>The body of the loop for a monitor that matches and does not exclude the line.\<close>

definition alert_line ::
  "('r, 'w) surroundings \<Rightarrow> alertEngine \<Rightarrow> 'r circumstances \<Rightarrow> string \<Rightarrow> ('r, 'w) engine_state \<Rightarrow> ('r, 'w) engine_state" where
  "alert_line su e ci line s =
     (let parsed = parsedLine line;
          (tc, msg, user) = alert_message parsed line;
          fingerprint = alertFingerprint (su_ulower su) line parsed;
          (decision, s) = get_decision su e ci line parsed msg s
      in if \<not> ad_Send decision then s
         else
           let tc = tc\<lparr>tc_Actions := alertFeedbackActions (en_decisionCfg e) decision parsed\<rparr>
           in (case Match (en_incidents e) line parsed of
                 None \<Rightarrow> send_alert su e ci fingerprint decision tc user msg s
               | Some rule \<Rightarrow>
                   let (f, net, ms) = ci_record ci in
                   (case Record (su_env su) net ms (ci_observed ci) (en_incidents e) rule parsed (parsed_get parsed ''text'')
                           (f (es_store s)) of
                      (Inl err, st) \<Rightarrow>
                        send_alert su e ci fingerprint decision tc user msg (bump keyDBFailures_update (s\<lparr>es_store := st\<rparr>))
                    | (Inr update, st) \<Rightarrow>
                        if \<not> Notify update then s\<lparr>es_store := st\<rparr>
                        else notify_incident su e ci rule update parsed (s\<lparr>es_store := st\<rparr>))))"

definition check_monitor ::
  "('r, 'w) surroundings \<Rightarrow> alertEngine \<Rightarrow> excludes \<Rightarrow> monitor \<Rightarrow> 'r circumstances \<Rightarrow> string \<Rightarrow> ('r, 'w) engine_state
     \<Rightarrow> ('r, 'w) engine_state" where
  "check_monitor su e snapshot mon ci line s =
     (if \<not> MatchString (m_search mon) line then s
      else if is_excluded e snapshot mon line then s
      else alert_line su e ci line s)"

fun check_monitors ::
  "('r, 'w) surroundings \<Rightarrow> alertEngine \<Rightarrow> excludes \<Rightarrow> (nat \<Rightarrow> 'r circumstances) \<Rightarrow> string \<Rightarrow> nat \<Rightarrow> monitor list
     \<Rightarrow> ('r, 'w) engine_state \<Rightarrow> ('r, 'w) engine_state" where
  "check_monitors su e snapshot crs line i [] s = s"
| "check_monitors su e snapshot crs line i (mon # mons) s =
     check_monitors su e snapshot crs line (Suc i) mons (check_monitor su e snapshot mon (crs i) line s)"

text \<open>\<open>snapshot\<close> is what the store of the dynamic excludes holds when the line is taken.\<close>

definition checkLine ::
  "('r, 'w) surroundings \<Rightarrow> alertEngine \<Rightarrow> excludes \<Rightarrow> (nat \<Rightarrow> 'r circumstances) \<Rightarrow> string \<Rightarrow> ('r, 'w) engine_state
     \<Rightarrow> ('r, 'w) engine_state" where
  "checkLine su e snapshot crs line s = check_monitors su e snapshot crs line 0 (en_monitors e) s"

end
