(* ===== verification/Engine_Alerts.thy ===== *)
theory Engine_Alerts
  imports Engine
begin

text \<open>
  Properties of the alert engine: what a line that is excluded does, why an alert goes out, that an alert goes out
  once for the time to live of its reservation, and that a failed delivery does not silence it.
\<close>

section \<open>What the parts of a pass leave alone\<close>

lemma bump_simps [simp]:
  "es_store (bump u s) = es_store s" "es_net (bump u s) = es_net s" "es_deduper (bump u s) = es_deduper s"
  "es_alertLog (bump u s) = es_alertLog s" "es_metrics (bump u s) = incr u (es_metrics s)"
  by (simp_all add: bump_def)

definition failures :: "('r, 'w) engine_state \<Rightarrow> 64 word option" where
  "failures s = map_option notificationFailures (es_metrics s)"

lemma failures_bump [simp]:
  "failures (bump keyDBFailures_update s) = failures s"
  "failures (bump decisionCacheHits_update s) = failures s"
  "failures (bump decisionCacheMisses_update s) = failures s"
  "failures (bump decisionFailures_update s) = failures s"
  "failures (bump notificationFailures_update s) = map_option (\<lambda>n. n + 1) (failures s)"
  by (cases "es_metrics s"; simp add: failures_def incr_def)+

lemma failures_upd [simp]:
  "failures (s\<lparr>es_store := x\<rparr>) = failures s" "failures (s\<lparr>es_net := w\<rparr>) = failures s"
  "failures (s\<lparr>es_deduper := d\<rparr>) = failures s" "failures (s\<lparr>es_alertLog := l\<rparr>) = failures s"
  by (simp_all add: failures_def)

lemma get_decision_keeps:
  assumes "get_decision su e ci line parsed msg s = (d, s')"
  shows "es_store s' = es_store s" "es_deduper s' = es_deduper s" "es_alertLog s' = es_alertLog s" "failures s' = failures s"
  using assms
  by (auto simp: get_decision_def Let_def failures_def incr_def bump_def observeDecision_def option.map_comp comp_def
      split: option.splits prod.splits if_splits)

lemma engine_Send_keeps:
  assumes "engine_Send su e tc user msg s = (err, s')"
  shows "es_store s' = es_store s" "es_deduper s' = es_deduper s" "es_alertLog s' = es_alertLog s @ [msg]"
    "failures s' = failures s"
  using assms by (auto simp: engine_Send_def Let_def failures_def split: prod.splits)

section \<open>What the store keeps\<close>

text \<open>A script keeps a predicate of the server's state.\<close>

definition keeps :: "('r \<Rightarrow> bool) \<Rightarrow> ('r, 'a) script \<Rightarrow> bool" where
  "keeps P m \<longleftrightarrow> (\<forall>st. P st \<longrightarrow> P (snd (m st)))"

named_theorems keeps_rules

lemma keeps_return [keeps_rules]: "keeps P (script_return a)"
  by (simp add: keeps_def script_return_def)

lemma keeps_tonumber [keeps_rules]: "keeps P (tonumber_arg s)"
  by (simp add: keeps_def tonumber_arg_def script_return_def script_fail_def split: option.splits)

lemma keeps_bind [keeps_rules]: "keeps P m \<Longrightarrow> (\<And>a. keeps P (f a)) \<Longrightarrow> keeps P (script_bind m f)"
  by (auto simp: keeps_def script_bind_def split: prod.splits sum.splits)

lemma keeps_if [keeps_rules]: "(b \<Longrightarrow> keeps P m) \<Longrightarrow> (\<not> b \<Longrightarrow> keeps P m') \<Longrightarrow> keeps P (if b then m else m')"
  by simp

lemma keeps_send: "keeps P m \<Longrightarrow> keeps P (send net m)"
  using send_invariant [of P m] by (auto simp: keeps_def)

context redis
begin

lemma keeps_call [keeps_rules]:
  "now \<le> t \<Longrightarrow> leaves_alone k c \<Longrightarrow> keeps (\<lambda>st. sees t (db st) k = Some x) (redis_call env now c)"
  using exec_keeps by (simp add: keeps_def redis_call_state)

lemma RecordIncident_keeps:
  assumes "now \<le> t" and "k \<noteq> incident_key name" and "k \<noteq> active_key" and "sees t (db st) k = Some x"
  shows "sees t (db (snd (RecordIncident env net now name title sample host process observed quiet every st))) k = Some x"
proof -
  have l: "leaves_alone k c" if "cmd_key c = incident_key name \<or> cmd_key c = active_key" for c
    using that assms(2,3) by (auto simp: leaves_alone_def)
  have "keeps (\<lambda>st. sees t (db st) k = Some x)
    (recordIncidentScript env now (incident_key name) active_key o' n' ti s h p r q)" for o' n' ti s h p r q
    unfolding recordIncidentScript_def recordIncidentBody_def Let_def
    by (intro keeps_rules keeps_call assms(1) l) simp_all
  from keeps_send [OF this, of net] assms(4) show ?thesis
    by (auto simp: keeps_def RecordIncident_def Let_def split: prod.splits sum.splits) (metis snd_conv)+
qed

lemma ReleaseIncidentNotification_keeps:
  assumes "now \<le> t" and "k \<noteq> incident_key name" and "sees t (db st) k = Some x"
  shows "sees t (db (snd (ReleaseIncidentNotification env net now name n st))) k = Some x"
proof -
  have l: "leaves_alone k c" if "cmd_key c = incident_key name" for c
    using that assms(2) by (auto simp: leaves_alone_def)
  have "keeps (\<lambda>st. sees t (db st) k = Some x) (releaseIncidentNotificationScript env now (incident_key name) i)" for i
    unfolding releaseIncidentNotificationScript_def by (intro keeps_rules keeps_call assms(1) l) simp_all
  from keeps_send [OF this, of net] assms(3) show ?thesis
    by (auto simp: keeps_def ReleaseIncidentNotification_def split: prod.splits sum.splits) (metis snd_conv)+
qed

end


text \<open>
  Others and the clock: the steps of other clients before each request keep a predicate \<open>P\<close> of the server's state,
  and no request is later than millisecond \<open>t\<close>.
\<close>

definition calm :: "('r \<Rightarrow> bool) \<Rightarrow> int \<Rightarrow> 'r circumstances \<Rightarrow> bool" where
  "calm P t ci \<longleftrightarrow>
     (\<forall>(f, net, ms) \<in> {ci_record ci, ci_release ci, ci_reserve ci, ci_forget ci}. ms \<le> t \<and> (\<forall>st. P st \<longrightarrow> P (f st)))"

lemma calmD:
  assumes "calm P t ci"
  shows "ci_record ci = (f, net, ms) \<Longrightarrow> ms \<le> t \<and> (P st \<longrightarrow> P (f st))"
    "ci_release ci = (f, net, ms) \<Longrightarrow> ms \<le> t \<and> (P st \<longrightarrow> P (f st))"
    "ci_reserve ci = (f, net, ms) \<Longrightarrow> ms \<le> t \<and> (P st \<longrightarrow> P (f st))"
    "ci_forget ci = (f, net, ms) \<Longrightarrow> ms \<le> t \<and> (P st \<longrightarrow> P (f st))"
  using assms by (auto simp: calm_def)

lemma dedup_key_incident: "dedup_key fp \<noteq> incident_key name" "dedup_key fp \<noteq> active_key"
  by (simp_all add: dedup_key_def incident_key_def active_key_def)

context redis
begin

lemmas dedup_refused = keydb_dedup_store.Allow_refused
  and dedup_keeps = keydb_dedup_store.Allow_keeps
  and dedup_grants = keydb_dedup_store.Allow_grants_held
  and dedup_earlier = keydb_dedup_store.held_earlier
  and dedup_forget_keeps = keydb_dedup_store.forget_keeps
  and dedup_forget_frees = keydb_dedup_store.forget_frees
  and dedup_reserve_free = keydb_dedup_store.reserve_free

lemma held_iff: "keydb_held db t st fp \<longleftrightarrow> (\<exists>x. ks t st (dedup_key fp) = Some x)"
  by (simp add: keydb_held_def reserved_at_def)

lemma held_Record:
  assumes "keydb_held db t st fp" and "ms \<le> t"
  shows "keydb_held db t (snd (Record env net ms observed a rule parsed sample st)) fp"
proof -
  obtain x where "ks t st (dedup_key fp) = Some x" using assms(1) by (auto simp: held_iff)
  note k = RecordIncident_keeps [OF assms(2) dedup_key_incident this]
  show ?thesis unfolding held_iff Record_def by (intro exI [of _ x]) (simp add: k split: prod.split)
qed

lemma held_Release:
  assumes "keydb_held db t st fp" and "ms \<le> t"
  shows "keydb_held db t (Release env net ms rule n st) fp"
proof -
  obtain x where "ks t st (dedup_key fp) = Some x" using assms(1) by (auto simp: held_iff)
  note k = ReleaseIncidentNotification_keeps [OF assms(2) dedup_key_incident(1) this]
  show ?thesis unfolding held_iff Release_def by (intro exI [of _ x] k)
qed

lemma reserve_answered:
  assumes "0 < ttl"
  shows "\<not> isl (fst (reserve (keydb_dedup env) delivered ms fp ttl st))"
proof (cases "keydb_held db ms st fp")
  case True
  then obtain x where "ks ms st (dedup_key fp) = Some x" by (auto simp: held_iff)
  from SETNX_once(3) [OF assms this] show ?thesis by (simp add: keydb_dedup_def ReserveDedup_def client_def)
next
  case False
  from dedup_reserve_free [OF refl assms this] show ?thesis by simp
qed

end


lemma Allow_defaultTTL: "Allow store q ms now fp secs (d, st) = (b, d', st') \<Longrightarrow> defaultTTL d' = defaultTTL d"
  by (auto simp: Allow_def Allow_local_def Let_def split: option.splits prod.splits sum.splits if_splits)

lemma Forget_defaultTTL: "Forget store q ms fp (d, st) = (d', st') \<Longrightarrow> defaultTTL d' = defaultTTL d"
  by (auto simp: Forget_def Let_def)

text \<open>The two outcomes of \<open>send_alert\<close> with deduplication: refused, or allowed and sent.\<close>

lemma send_alert_cases:
  assumes "dedup_enabled (en_dedupCfg e)" and "ci_reserve ci = (f, net, ms)" and "ci_forget ci = (g, net', ms')"
    and "Allow (Some (keydb_dedup (su_env su))) net ms (ci_now ci) fp (ad_TTLSeconds decision) (es_deduper s, f (es_store s))
           = (b, d, st)"
    and "engine_Send su e tc user msg (s\<lparr>es_deduper := d, es_store := st\<rparr>) = (err, s1)"
    and "Forget (Some (keydb_dedup (su_env su))) net' ms' fp (d, g st) = (d', st')"
  shows "\<not> b \<Longrightarrow> send_alert su e ci fp decision tc user msg s = s\<lparr>es_deduper := d, es_store := st\<rparr>"
    and "b \<Longrightarrow> err = None \<Longrightarrow> send_alert su e ci fp decision tc user msg s = s1"
    and "b \<Longrightarrow> err = Some x \<Longrightarrow> send_alert su e ci fp decision tc user msg s
           = (bump notificationFailures_update s1)\<lparr>es_deduper := d', es_store := st'\<rparr>"
  using assms engine_Send_keeps [OF assms(5)] by (simp_all add: send_alert_def Let_def)

context redis
begin

lemma held_send_alert:
  assumes held: "keydb_held db t (es_store s) fp" and calm: "calm (\<lambda>st. keydb_held db t st fp) t ci"
    and su: "su_env su = env" and en: "dedup_enabled (en_dedupCfg e)" and ttl: "0 < defaultTTL (es_deduper s)"
    and net: "fp' = fp \<Longrightarrow> fst (snd (ci_reserve ci)) = delivered"
    and s': "s' = send_alert su e ci fp' decision tc user msg s"
  shows "keydb_held db t (es_store s') fp \<and> defaultTTL (es_deduper s') = defaultTTL (es_deduper s)
    \<and> (fp' = fp \<longrightarrow> es_alertLog s' = es_alertLog s)"
proof -
  obtain f n ms where r: "ci_reserve ci = (f, n, ms)" by (metis prod.exhaust)
  obtain g n' ms' where c: "ci_forget ci = (g, n', ms')" by (metis prod.exhaust)
  obtain b d st where a: "Allow (Some (keydb_dedup (su_env su))) n ms (ci_now ci) fp' (ad_TTLSeconds decision)
      (es_deduper s, f (es_store s)) = (b, d, st)" by (metis prod.exhaust)
  obtain err s1 where sd: "engine_Send su e tc user msg (s\<lparr>es_deduper := d, es_store := st\<rparr>) = (err, s1)" by fastforce
  obtain d' st' where fo: "Forget (Some (keydb_dedup (su_env su))) n' ms' fp' (d, g st) = (d', st')" by fastforce
  note cs = send_alert_cases [where su = su, OF en r c a sd fo] and kp = engine_Send_keeps [OF sd]
  have ms: "ms \<le> t" "ms' \<le> t" and hf: "keydb_held db t (f (es_store s)) fp"
    using calmD(3) [OF calm r] calmD(4) [OF calm c] held by blast+
  have hst: "keydb_held db t st fp"
    using dedup_keeps [OF hf ms(1), of n "ci_now ci" fp' "ad_TTLSeconds decision" "es_deduper s"] a su by simp
  have td: "defaultTTL d = defaultTTL (es_deduper s)" "defaultTTL d' = defaultTTL (es_deduper s)"
    using Allow_defaultTTL [OF a] Forget_defaultTTL [OF fo] by simp_all
  have b: "\<not> b" if "fp' = fp"
  proof
    assume b
    then have "isl (fst (reserve (keydb_dedup env) n ms fp (decision_ttl (es_deduper s) (ad_TTLSeconds decision)) (f (es_store s))))"
      using dedup_refused [OF dedup_earlier [OF hf ms(1)]] a su that by simp
    then show False using reserve_answered [OF decision_ttl_pos [OF ttl]] net [OF that] r by simp
  qed
  show ?thesis
  proof (cases b)
    case False
    then have "s' = s\<lparr>es_deduper := d, es_store := st\<rparr>" using cs(1) s' by simp
    then show ?thesis using hst td by simp
  next
    case True
    then have ne: "fp' \<noteq> fp" using b by blast
    have "keydb_held db t (g st) fp" using calmD(4) [OF calm c] hst by blast
    from dedup_forget_keeps [OF this ms(2) ne] have "keydb_held db t st' fp"
      using fo su by (auto simp: Forget_def Let_def)
    with True ne cs(2,3) kp hst td show ?thesis by (cases err) (simp_all add: s')
  qed
qed

end


section \<open>A pass\<close>

abbreviation line_fingerprint :: "('r, 'w) surroundings \<Rightarrow> string \<Rightarrow> string" where
  "line_fingerprint su line \<equiv> alertFingerprint (su_ulower su) line (parsedLine line)"

text \<open>The message and the decision of a line.\<close>

definition line_message :: "string \<Rightarrow> string" where
  "line_message line = fst (snd (alert_message (parsedLine line) line))"

definition line_decision ::
  "('r, 'w) surroundings \<Rightarrow> alertEngine \<Rightarrow> 'r circumstances \<Rightarrow> string \<Rightarrow> ('r, 'w) engine_state
     \<Rightarrow> alertDecision \<times> ('r, 'w) engine_state" where
  "line_decision su e ci line s = get_decision su e ci line (parsedLine line) (line_message line) s"

text \<open>\<open>alert_line\<close> by cases: suppressed, an alert of its own, an incident that cannot be recorded, an event that
  is only counted, an incident that notifies.\<close>

lemma alert_line_cases:
  assumes "line_decision su e ci line s = (d, s1)" and "ci_record ci = (f, net, ms)"
  obtains (suppressed) "\<not> ad_Send d" "alert_line su e ci line s = s1"
  | (single) tc user where "ad_Send d" "Match (en_incidents e) line (parsedLine line) = None"
      "alert_line su e ci line s = send_alert su e ci (line_fingerprint su line) d tc user (line_message line) s1"
  | (unrecorded) rule err st tc user where "ad_Send d" "Match (en_incidents e) line (parsedLine line) = Some rule"
      "Record (su_env su) net ms (ci_observed ci) (en_incidents e) rule (parsedLine line)
         (parsed_get (parsedLine line) ''text'') (f (es_store s1)) = (Inl err, st)"
      "alert_line su e ci line s = send_alert su e ci (line_fingerprint su line) d tc user (line_message line)
         (bump keyDBFailures_update (s1\<lparr>es_store := st\<rparr>))"
  | (counted) rule upd st where "ad_Send d" "Match (en_incidents e) line (parsedLine line) = Some rule"
      "Record (su_env su) net ms (ci_observed ci) (en_incidents e) rule (parsedLine line)
         (parsed_get (parsedLine line) ''text'') (f (es_store s1)) = (Inr upd, st)"
      "\<not> Notify upd" "alert_line su e ci line s = s1\<lparr>es_store := st\<rparr>"
  | (notified) rule upd st where "ad_Send d" "Match (en_incidents e) line (parsedLine line) = Some rule"
      "Record (su_env su) net ms (ci_observed ci) (en_incidents e) rule (parsedLine line)
         (parsed_get (parsedLine line) ''text'') (f (es_store s1)) = (Inr upd, st)"
      "Notify upd"
      "alert_line su e ci line s = notify_incident su e ci rule upd (parsedLine line) (s1\<lparr>es_store := st\<rparr>)"
proof -
  obtain tc msg user where m: "alert_message (parsedLine line) line = (tc, msg, user)" by (metis prod.exhaust)
  then have msg: "msg = line_message line" by (simp add: line_message_def)
  have d: "get_decision su e ci line (parsedLine line) msg s = (d, s1)" using assms(1) by (simp add: line_decision_def msg)
  let ?tc = "tc\<lparr>tc_Actions := alertFeedbackActions (en_decisionCfg e) d (parsedLine line)\<rparr>"
  note a = alert_line_def [of su e ci line s, unfolded Let_def m prod.case d assms(2)]
  show thesis
  proof (cases "ad_Send d")
    case False
    then show thesis using suppressed by (simp add: a)
  next
    case send: True
    show thesis
    proof (cases "Match (en_incidents e) line (parsedLine line)")
      case None
      then show thesis using single [OF send None, of ?tc user] send by (simp add: a msg)
    next
      case (Some rule)
      obtain r st where r: "Record (su_env su) net ms (ci_observed ci) (en_incidents e) rule (parsedLine line)
         (parsed_get (parsedLine line) ''text'') (f (es_store s1)) = (r, st)" by fastforce
      show thesis
      proof (cases r)
        case (Inl err)
        then show thesis using unrecorded [OF send Some r [unfolded Inl], of ?tc user] send Some r by (simp add: a msg)
      next
        case (Inr upd)
        then show thesis
          using counted [OF send Some r [unfolded Inr]] notified [OF send Some r [unfolded Inr]] send Some r
          by (cases "Notify upd") (simp_all add: a)
      qed
    qed
  qed
qed


lemma notify_incident_keeps:
  assumes "ci_release ci = (f, net, ms)"
  shows "es_deduper (notify_incident su e ci rule upd parsed s) = es_deduper s"
    "es_alertLog (notify_incident su e ci rule upd parsed s)
       = es_alertLog s @ [snd (incidentNotification rule upd parsed (parsed_get parsed ''text''))]"
    "es_store (notify_incident su e ci rule upd parsed s)
       \<in> {es_store s, Release (su_env su) net ms rule (Count upd) (f (es_store s))}"
  using assms
  by (auto simp: notify_incident_def Let_def dest: engine_Send_keeps split: prod.splits option.splits)

context redis
begin

lemma held_alert_line:
  assumes held: "keydb_held db t (es_store s) fp" and calm: "calm (\<lambda>st. keydb_held db t st fp) t ci"
    and su: "su_env su = env" and en: "dedup_enabled (en_dedupCfg e)" and ttl: "0 < defaultTTL (es_deduper s)"
    and net: "line_fingerprint su line = fp \<Longrightarrow> fst (snd (ci_reserve ci)) = delivered"
    and s': "s' = alert_line su e ci line s"
  shows "keydb_held db t (es_store s') fp \<and> defaultTTL (es_deduper s') = defaultTTL (es_deduper s)
    \<and> (line_fingerprint su line = fp \<longrightarrow> Match (en_incidents e) line (parsedLine line) = None \<longrightarrow> es_alertLog s' = es_alertLog s)"
proof -
  obtain d s1 where d: "line_decision su e ci line s = (d, s1)" by fastforce
  obtain f n ms where r: "ci_record ci = (f, n, ms)" by (metis prod.exhaust)
  obtain g n' ms' where rl: "ci_release ci = (g, n', ms')" by (metis prod.exhaust)
  note k = get_decision_keeps [OF d [unfolded line_decision_def]]
  have h1: "keydb_held db t (es_store s1) fp" and t1: "0 < defaultTTL (es_deduper s1)" using held ttl k by simp_all
  have ms: "ms \<le> t" and hf: "keydb_held db t (f (es_store s1)) fp" using calmD(1) [OF calm r] h1 by blast+
  have rec: "keydb_held db t st fp"
    if "Record (su_env su) n ms (ci_observed ci) a rule p sample (f (es_store s1)) = (x, st)" for a rule p sample x st
    using held_Record [OF hf ms, of n "ci_observed ci" a rule p sample] that su by simp
  show ?thesis
  proof (cases rule: alert_line_cases [OF d r])
    case 1
    then show ?thesis using s' h1 k by simp
  next
    case (2 tc user)
    from held_send_alert [OF h1 calm su en t1 net s' [unfolded 2(3)]] show ?thesis using k by simp
  next
    case (3 rule err st tc user)
    have "keydb_held db t (es_store (bump keyDBFailures_update (s1\<lparr>es_store := st\<rparr>))) fp" using rec [OF 3(3)] by simp
    from held_send_alert [OF this calm su en _ net s' [unfolded 3(4)]] show ?thesis using k t1 3(2) by simp
  next
    case (4 rule upd st)
    then show ?thesis using s' rec [OF 4(3)] k by simp
  next
    case (5 rule upd st)
    note nk = notify_incident_keeps [OF rl, of su e rule upd "parsedLine line" "s1\<lparr>es_store := st\<rparr>"]
    have "keydb_held db t (g st) fp" and "ms' \<le> t" using calmD(2) [OF calm rl] rec [OF 5(3)] by blast+
    from held_Release [OF this, of n' rule "Count upd"] have "keydb_held db t (es_store s') fp"
      using nk(3) rec [OF 5(3)] su unfolding s' 5(5) by auto
    then show ?thesis using nk(1) k 5(2) unfolding s' 5(5) by simp
  qed
qed

lemma held_check_monitor:
  assumes held: "keydb_held db t (es_store s) fp" and calm: "calm (\<lambda>st. keydb_held db t st fp) t ci"
    and su: "su_env su = env" and en: "dedup_enabled (en_dedupCfg e)" and ttl: "0 < defaultTTL (es_deduper s)"
    and net: "line_fingerprint su line = fp \<Longrightarrow> fst (snd (ci_reserve ci)) = delivered"
    and s': "s' = check_monitor su e snap mon ci line s"
  shows "keydb_held db t (es_store s') fp \<and> defaultTTL (es_deduper s') = defaultTTL (es_deduper s)
    \<and> (line_fingerprint su line = fp \<longrightarrow> Match (en_incidents e) line (parsedLine line) = None \<longrightarrow> es_alertLog s' = es_alertLog s)"
proof (cases "MatchString (m_search mon) line \<and> \<not> is_excluded e snap mon line")
  case True
  then have "s' = alert_line su e ci line s" using s' by (simp add: check_monitor_def)
  from held_alert_line [OF held calm su en ttl net this] show ?thesis .
next
  case False
  then show ?thesis using s' held by (auto simp: check_monitor_def)
qed

end

section \<open>A history of passes\<close>

text \<open>A pass takes a line through one monitor; its alerts are what it appended to the alert log.\<close>

record 'r pass =
  ps_snapshot :: excludes
  ps_monitor :: monitor
  ps_circumstances :: "'r circumstances"
  ps_line :: string

definition run_pass :: "('r, 'w) surroundings \<Rightarrow> alertEngine \<Rightarrow> 'r pass \<Rightarrow> ('r, 'w) engine_state \<Rightarrow> ('r, 'w) engine_state" where
  "run_pass su e p s = check_monitor su e (ps_snapshot p) (ps_monitor p) (ps_circumstances p) (ps_line p) s"

fun pass_alerts ::
  "('r, 'w) surroundings \<Rightarrow> alertEngine \<Rightarrow> 'r pass list \<Rightarrow> ('r, 'w) engine_state \<Rightarrow> (string \<times> string list) list" where
  "pass_alerts su e [] s = []"
| "pass_alerts su e (p # ps) s =
     (let s' = run_pass su e p s
      in (ps_line p, drop (length (es_alertLog s)) (es_alertLog s')) # pass_alerts su e ps s')"


lemma delivery_failures: "map_option (\<lambda>n. n + 1) x = x \<Longrightarrow> x = (None :: 64 word option)"
  by (cases x) simp_all

context redis
begin

text \<open>An alert that went out holds its reservation.\<close>

lemma sent_alert_held:
  assumes su: "su_env su = env" and en: "dedup_enabled (en_dedupCfg e)" and ttl: "0 < defaultTTL (es_deduper s)"
    and net: "ci_reserve ci = (f, delivered, ms)" and no: "Match (en_incidents e) line (parsedLine line) = None"
    and s': "s' = check_monitor su e snap mon ci line s" and log: "es_alertLog s' \<noteq> es_alertLog s"
    and ok: "failures s' = failures s" "failures s \<noteq> None"
    and t: "t < ms + ttl_ms (decision_ttl (es_deduper s) (ad_TTLSeconds (fst (line_decision su e ci line s))))"
  shows "keydb_held db t (es_store s') (line_fingerprint su line) \<and> defaultTTL (es_deduper s') = defaultTTL (es_deduper s)"
proof -
  obtain d s1 where d: "line_decision su e ci line s = (d, s1)" by fastforce
  obtain f' n' ms' where r: "ci_record ci = (f', n', ms')" by (metis prod.exhaust)
  note k = get_decision_keeps [OF d [unfolded line_decision_def]]
  have s'1: "s' = alert_line su e ci line s" using s' log by (auto simp: check_monitor_def)
  then obtain tc user where sa: "s' = send_alert su e ci (line_fingerprint su line) d tc user (line_message line) s1"
    using log no k by (cases rule: alert_line_cases [OF d r]) auto
  obtain g n2 ms2 where c: "ci_forget ci = (g, n2, ms2)" by (metis prod.exhaust)
  obtain b d1 st where a: "Allow (Some (keydb_dedup (su_env su))) delivered ms (ci_now ci) (line_fingerprint su line)
      (ad_TTLSeconds d) (es_deduper s1, f (es_store s1)) = (b, d1, st)" by (metis prod.exhaust)
  obtain err s2 where sd: "engine_Send su e tc user (line_message line) (s1\<lparr>es_deduper := d1, es_store := st\<rparr>) = (err, s2)"
    by fastforce
  obtain d2 st2 where fo: "Forget (Some (keydb_dedup (su_env su))) n2 ms2 (line_fingerprint su line) (d1, g st) = (d2, st2)"
    by fastforce
  note cs = send_alert_cases [where su = su, OF en net c a sd fo, folded sa] and kp = engine_Send_keeps [OF sd]
  have b: b
  proof (rule ccontr)
    assume "\<not> b"
    from cs(1) [OF this] show False using log k by simp
  qed
  have "err = None"
  proof (cases err)
    case (Some x)
    have "failures s' = map_option (\<lambda>n. n + 1) (failures s)"
      using cs(3) [OF b Some] kp(4) k(4) by simp
    then show ?thesis using ok delivery_failures by metis
  qed simp
  then have "s' = s2" using cs(2) b by simp
  moreover have pos: "0 < decision_ttl (es_deduper s) (ad_TTLSeconds d)" by (rule decision_ttl_pos [OF ttl])
  have "keydb_held db t st (line_fingerprint su line)"
    using dedup_grants [OF a [unfolded su k(2) eqTrueI [OF b]] pos reserve_answered [OF pos]] t d by simp
  ultimately show ?thesis using kp Allow_defaultTTL [OF a] k by simp
qed

lemma pass_alerts_held:
  assumes "keydb_held db t (es_store s) fp" and "0 < defaultTTL (es_deduper s)" and su: "su_env su = env"
    and en: "dedup_enabled (en_dedupCfg e)"
    and "\<forall>q \<in> set qs. calm (\<lambda>st. keydb_held db t st fp) t (ps_circumstances q)
           \<and> (line_fingerprint su (ps_line q) = fp \<longrightarrow> fst (snd (ci_reserve (ps_circumstances q))) = delivered)"
  shows "\<forall>(line, alerts) \<in> set (pass_alerts su e qs s).
    line_fingerprint su line = fp \<longrightarrow> Match (en_incidents e) line (parsedLine line) = None \<longrightarrow> alerts = []"
  using assms(1,2,5)
proof (induction qs arbitrary: s)
  case (Cons q qs)
  let ?s' = "run_pass su e q s"
  have q: "keydb_held db t (es_store ?s') fp \<and> defaultTTL (es_deduper ?s') = defaultTTL (es_deduper s)
    \<and> (line_fingerprint su (ps_line q) = fp \<longrightarrow> Match (en_incidents e) (ps_line q) (parsedLine (ps_line q)) = None
         \<longrightarrow> es_alertLog ?s' = es_alertLog s)"
    by (rule held_check_monitor [OF Cons.prems(1) _ su en Cons.prems(2) _ run_pass_def]) (use Cons.prems(3) in auto)
  with Cons.IH [of ?s'] Cons.prems show ?case by (simp add: Let_def)
qed simp

end


text \<open>
  C2. An alert goes out once: after a pass sent an alert of its own and it was delivered, then, whatever lines go
  through whatever monitors until the time to live of the reservation has passed, no pass for a line
  with the same fingerprint sends an alert of its own, as long as the reservation requests for this
  fingerprint are answered and nobody outside forgets it.
\<close>

theorem alert_once_per_ttl:
  assumes "redis (su_env su) db" and "dedup_enabled (en_dedupCfg e)" and "0 < defaultTTL (es_deduper s)"
    and "ps_circumstances p = ci" and "ci_reserve ci = (f, delivered, ms)"
    and "Match (en_incidents e) (ps_line p) (parsedLine (ps_line p)) = None"
    and "es_alertLog (run_pass su e p s) \<noteq> es_alertLog s"
    and "failures (run_pass su e p s) = failures s" and "failures s \<noteq> None"
    and "t < ms + ttl_ms (decision_ttl (es_deduper s) (ad_TTLSeconds (fst (line_decision su e ci (ps_line p) s))))"
    and "\<forall>q \<in> set qs. calm (\<lambda>st. keydb_held db t st (line_fingerprint su (ps_line p))) t (ps_circumstances q)
           \<and> (line_fingerprint su (ps_line q) = line_fingerprint su (ps_line p)
                \<longrightarrow> fst (snd (ci_reserve (ps_circumstances q))) = delivered)"
  shows "\<forall>(line, alerts) \<in> set (pass_alerts su e qs (run_pass su e p s)).
    line_fingerprint su line = line_fingerprint su (ps_line p) \<longrightarrow> Match (en_incidents e) line (parsedLine line) = None
      \<longrightarrow> alerts = []"
proof -
  have r: "run_pass su e p s = check_monitor su e (ps_snapshot p) (ps_monitor p) ci (ps_line p) s"
    by (simp add: run_pass_def assms(4))
  note h = redis.sent_alert_held [OF assms(1) refl assms(2,3,5,6) r assms(7-10)]
  show ?thesis
    by (rule redis.pass_alerts_held [OF assms(1) conjunct1 [OF h] _ refl assms(2,11)]) (use h assms(3) in simp)
qed

context redis
begin

text \<open>A failed delivery gives the reservation back.\<close>

lemma failed_alert_free:
  assumes su: "su_env su = env" and en: "dedup_enabled (en_dedupCfg e)" 
    and net: "ci_forget ci = (g, delivered, ms)" and no: "Match (en_incidents e) line (parsedLine line) = None"
    and s': "s' = check_monitor su e snap mon ci line s" and fail: "failures s' \<noteq> failures s" and t: "ms \<le> t"
  shows "\<not> keydb_held db t (es_store s') (line_fingerprint su line)"
    and "MatchString (m_search mon) line" and "defaultTTL (es_deduper s') = defaultTTL (es_deduper s)"
proof -
  obtain d s1 where d: "line_decision su e ci line s = (d, s1)" by fastforce
  obtain f' n' ms' where r: "ci_record ci = (f', n', ms')" by (metis prod.exhaust)
  note k = get_decision_keeps [OF d [unfolded line_decision_def]]
  have m: "MatchString (m_search mon) line" and s'1: "s' = alert_line su e ci line s"
    using s' fail by (auto simp: check_monitor_def split: if_splits)
  then obtain tc user where sa: "s' = send_alert su e ci (line_fingerprint su line) d tc user (line_message line) s1"
    using fail no k by (cases rule: alert_line_cases [OF d r]) auto
  obtain f n2 ms2 where c: "ci_reserve ci = (f, n2, ms2)" by (metis prod.exhaust)
  obtain b d1 st where a: "Allow (Some (keydb_dedup (su_env su))) n2 ms2 (ci_now ci) (line_fingerprint su line)
      (ad_TTLSeconds d) (es_deduper s1, f (es_store s1)) = (b, d1, st)" by (metis prod.exhaust)
  obtain err s2 where sd: "engine_Send su e tc user (line_message line) (s1\<lparr>es_deduper := d1, es_store := st\<rparr>) = (err, s2)"
    by fastforce
  obtain d2 st2 where fo: "Forget (Some (keydb_dedup (su_env su))) delivered ms (line_fingerprint su line) (d1, g st) = (d2, st2)"
    by fastforce
  note cs = send_alert_cases [where su = su, OF en c net a sd fo, folded sa] and kp = engine_Send_keeps [OF sd]
  have b: b
  proof (rule ccontr)
    assume "\<not> b"
    from cs(1) [OF this] show False using fail k by simp
  qed
  moreover have "err \<noteq> None"
  proof
    assume "err = None"
    from cs(2) [OF b this] show False using fail k kp(4) by simp
  qed
  then obtain x where "err = Some x" by blast
  ultimately have s'2: "s' = (bump notificationFailures_update s2)\<lparr>es_deduper := d2, es_store := st2\<rparr>" using cs(3) by simp
  show "\<not> keydb_held db t (es_store s') (line_fingerprint su line)"
    using dedup_forget_frees [OF refl t, of "line_fingerprint su line" "g st"] fo su s'2 by (auto simp: Forget_def Let_def)
  show "MatchString (m_search mon) line" by (rule m)
  show "defaultTTL (es_deduper s') = defaultTTL (es_deduper s)"
    using s'2 Allow_defaultTTL [OF a] Forget_defaultTTL [OF fo] k by simp
qed

lemma free_alert_sent:
  assumes su: "su_env su = env" and en: "dedup_enabled (en_dedupCfg e)" and ttl: "0 < defaultTTL (es_deduper s)"
    and net: "ci_reserve ci = (f, delivered, ms)" and no: "Match (en_incidents e) line (parsedLine line) = None"
    and free: "\<not> keydb_held db ms (f (es_store s)) (line_fingerprint su line)"
    and m: "MatchString (m_search mon) line" "\<not> is_excluded e snap mon line" "ad_Send (fst (line_decision su e ci line s))"
  shows "es_alertLog (check_monitor su e snap mon ci line s) = es_alertLog s @ [line_message line]"
proof -
  let ?fp = "line_fingerprint su line"
  obtain d s1 where d: "line_decision su e ci line s = (d, s1)" by fastforce
  obtain f' n' ms' where r: "ci_record ci = (f', n', ms')" by (metis prod.exhaust)
  note k = get_decision_keeps [OF d [unfolded line_decision_def]]
  obtain tc user where sa: "check_monitor su e snap mon ci line s
      = send_alert su e ci ?fp d tc user (line_message line) s1"
    using no m d by (cases rule: alert_line_cases [OF d r]) (auto simp: check_monitor_def)
  obtain g n2 ms2 where c: "ci_forget ci = (g, n2, ms2)" by (metis prod.exhaust)
  obtain b d1 st where a: "Allow (Some (keydb_dedup (su_env su))) delivered ms (ci_now ci) ?fp
      (ad_TTLSeconds d) (es_deduper s1, f (es_store s1)) = (b, d1, st)" by (metis prod.exhaust)
  obtain err s2 where sd: "engine_Send su e tc user (line_message line) (s1\<lparr>es_deduper := d1, es_store := st\<rparr>) = (err, s2)"
    by fastforce
  obtain d2 st2 where fo: "Forget (Some (keydb_dedup (su_env su))) n2 ms2 ?fp (d1, g st) = (d2, st2)" by fastforce
  note cs = send_alert_cases [where su = su, OF en net c a sd fo, folded sa] and kp = engine_Send_keeps [OF sd]
  have "fst (reserve (keydb_dedup env) delivered ms ?fp (decision_ttl (es_deduper s) (ad_TTLSeconds d)) (f (es_store s))) = Inr True"
    by (rule dedup_reserve_free [OF refl decision_ttl_pos [OF ttl] free])
  then have b: b using a su k by (auto simp: Allow_def Let_def split: prod.splits sum.splits)
  show ?thesis using cs(2,3) [OF b] kp k by (cases err) simp_all
qed

end

text \<open>
  C11. A failed delivery does not silence the alert: when the notification of an alert of its own failed and the
  reservation could be given back, the next line with the same fingerprint that the decision service lets
  through alerts again.
\<close>

theorem failed_alert_goes_again:
  assumes "redis (su_env su) db" and "dedup_enabled (en_dedupCfg e)" and "0 < defaultTTL (es_deduper s)"
    and "ci_forget (ps_circumstances p) = (g, delivered, ms)"
    and "Match (en_incidents e) (ps_line p) (parsedLine (ps_line p)) = None"
    and "s' = run_pass su e p s" and "failures s' \<noteq> failures s"
    and "ci_reserve (ps_circumstances q) = (f, delivered, ms')" and "ms \<le> ms'"
    and "\<forall>st. \<not> keydb_held db ms' st (line_fingerprint su (ps_line q)) \<longrightarrow> \<not> keydb_held db ms' (f st) (line_fingerprint su (ps_line q))"
    and "line_fingerprint su (ps_line q) = line_fingerprint su (ps_line p)"
    and "Match (en_incidents e) (ps_line q) (parsedLine (ps_line q)) = None"
    and "MatchString (m_search (ps_monitor q)) (ps_line q)" and "\<not> is_excluded e (ps_snapshot q) (ps_monitor q) (ps_line q)"
    and "ad_Send (fst (line_decision su e (ps_circumstances q) (ps_line q) s'))"
  shows "es_alertLog (run_pass su e q s') = es_alertLog s' @ [line_message (ps_line q)]"
proof -
  note f = redis.failed_alert_free [OF assms(1) refl assms(2,4,5) assms(6) [unfolded run_pass_def] assms(7,9)]
  have "\<not> keydb_held db ms' (f (es_store s')) (line_fingerprint su (ps_line q))" using f(1) assms(10,11) by simp
  from redis.free_alert_sent [OF assms(1) refl assms(2) _ assms(8,12) this assms(13-15)] f(3) assms(3)
  show ?thesis by (simp add: run_pass_def)
qed


lemma send_alert_log:
  assumes "s' = send_alert su e ci fp d tc user msg s" and "ci_reserve ci = (f, net, ms)"
  shows "es_alertLog s' = es_alertLog s \<or> es_alertLog s' = es_alertLog s @ [msg]
    \<and> (dedup_enabled (en_dedupCfg e) \<longrightarrow> fst (Allow (Some (keydb_dedup (su_env su))) net ms (ci_now ci) fp (ad_TTLSeconds d)
         (es_deduper s, f (es_store s))))"
  using assms by (auto simp: send_alert_def Let_def dest!: engine_Send_keeps(3) split: prod.splits option.splits if_splits)

text \<open>
  C16. No alert without a reason: a pass appends at most one message to the alert log, and when it does, the search of the monitor
  matched, the line was not excluded and the decision was to send; the message is the line's own, with a reservation of its
  fingerprint when deduplication is on, or the notification of an incident whose update asks for it.
\<close>

theorem alert_has_reason:
  assumes "run_pass su e p s = s'" and "es_alertLog s' \<noteq> es_alertLog s" and "ps_line p = line" and "ps_circumstances p = ci"
    and "ci_reserve ci = (f, net, ms)" and "ci_record ci = (f', net', ms')"
  shows "MatchString (m_search (ps_monitor p)) line \<and> \<not> is_excluded e (ps_snapshot p) (ps_monitor p) line
    \<and> ad_Send (fst (line_decision su e ci line s))
    \<and> (\<exists>msg. es_alertLog s' = es_alertLog s @ [msg]
         \<and> (msg = line_message line
              \<and> (dedup_enabled (en_dedupCfg e) \<longrightarrow>
                  (\<exists>st. fst (Allow (Some (keydb_dedup (su_env su))) net ms (ci_now ci) (line_fingerprint su line)
                         (ad_TTLSeconds (fst (line_decision su e ci line s))) (es_deduper s, f st))))
            \<or> (\<exists>rule upd st. Match (en_incidents e) line (parsedLine line) = Some rule
                 \<and> fst (Record (su_env su) net' ms' (ci_observed ci) (en_incidents e) rule (parsedLine line)
                      (parsed_get (parsedLine line) ''text'') (f' (es_store s))) = Inr upd
                 \<and> Notify upd
                 \<and> msg = snd (incidentNotification rule upd (parsedLine line) (parsed_get (parsedLine line) ''text'')))))"
proof -
  obtain d s1 where d: "line_decision su e ci line s = (d, s1)" by fastforce
  obtain g n2 ms2 where rl: "ci_release ci = (g, n2, ms2)" by (metis prod.exhaust)
  note k = get_decision_keeps [OF d [unfolded line_decision_def]]
  have m: "MatchString (m_search (ps_monitor p)) line" "\<not> is_excluded e (ps_snapshot p) (ps_monitor p) line"
    and al: "s' = alert_line su e ci line s"
    using assms(1-4) by (auto simp: run_pass_def check_monitor_def split: if_splits)
  show ?thesis
  proof (cases rule: alert_line_cases [OF d assms(6)])
    case 1
    then show ?thesis using al assms(2) k by simp
  next
    case (2 tc user)
    from send_alert_log [OF al [unfolded 2(3)] assms(5)] show ?thesis
      using assms(2) k m 2(1) d by (intro conjI exI [of _ "line_message line"]) auto
  next
    case (3 rule err st tc user)
    from send_alert_log [OF al [unfolded 3(4)] assms(5)] show ?thesis
      using assms(2) k m 3(1) d by (intro conjI exI [of _ "line_message line"]) auto
  next
    case (4 rule upd st)
    then show ?thesis using al assms(2) k by simp
  next
    case (5 rule upd st)
    note n = notify_incident_keeps(2) [OF rl, of su e rule upd "parsedLine line" "s1\<lparr>es_store := st\<rparr>", folded 5(5), folded al]
    show ?thesis using m d 5(1) by (intro conjI exI disjI2 n 5(2,4)) (use n k 5(2-4) in auto)
  qed
qed

section \<open>Concrete passes\<close>

text \<open>What the network does to the failure counter.\<close>

lemma engine_Send_result:
  "engine_Send su e tc user msg s = (err, s') \<Longrightarrow>
     err = fst (Send (su_henv su) (en_notifier e) tc user [] msg (en_iconURL e) (es_net s))"
  by (auto simp: engine_Send_def Let_def split: prod.splits)

lemma send_alert_failures:
  assumes "\<And>tc u m w. fst (Send (su_henv su) (en_notifier e) tc u [] m (en_iconURL e) w) = None \<longleftrightarrow> good"
    and "dedup_enabled (en_dedupCfg e)" and "s' = send_alert su e ci fp d tc user msg s"
  shows "failures s' = (if good \<or> es_alertLog s' = es_alertLog s then failures s else map_option (\<lambda>n. n + 1) (failures s))"
proof -
  obtain f n ms where r: "ci_reserve ci = (f, n, ms)" by (metis prod.exhaust)
  obtain g n' ms' where c: "ci_forget ci = (g, n', ms')" by (metis prod.exhaust)
  obtain b d1 st where a: "Allow (Some (keydb_dedup (su_env su))) n ms (ci_now ci) fp (ad_TTLSeconds d)
      (es_deduper s, f (es_store s)) = (b, d1, st)" by (metis prod.exhaust)
  obtain er s1 where sd: "engine_Send su e tc user msg (s\<lparr>es_deduper := d1, es_store := st\<rparr>) = (er, s1)" by fastforce
  obtain d' st' where fo: "Forget (Some (keydb_dedup (su_env su))) n' ms' fp (d1, g st) = (d', st')" by fastforce
  have er: "er = None \<longleftrightarrow> good" using engine_Send_result [OF sd] assms(1) by simp
  from send_alert_cases [where su = su, OF assms(2) r c a sd fo, folded assms(3)] engine_Send_keeps [OF sd] er
  show ?thesis by (cases b; cases er) simp_all
qed

text \<open>An engine with one monitor, no decision service and no incidents; the store in memory.\<close>

definition disk_line :: string where "disk_line = ''disk''"

definition disk_monitor :: monitor where
  "disk_monitor = \<lparr>m_name = ''disk'', m_search = RChar (CHR ''d''), m_excludes = []\<rparr>"

definition disk_engine :: alertEngine where
  "disk_engine = \<lparr>en_monitors = [disk_monitor], en_processExcludes = [], en_jsonExcludes = [], en_notifier = sample_client,
     en_iconURL = [], en_decisionCfg = fail_closed\<lparr>ds_Enabled := False\<rparr>,
     en_dedupCfg = \<lparr>dedup_enabled = True, defaultTTLSeconds = 60\<rparr>,
     en_incidents = sample_aggregator\<lparr>ag_cfg := sample_incident_config\<lparr>ia_Enabled := False\<rparr>\<rparr>\<rparr>"

definition calm_step :: "int \<Rightarrow> mem circumstances" where
  "calm_step ms = \<lparr>ci_joined = None, ci_timestamp = [], ci_elapsed = 0, ci_observed = 0, ci_now = 0,
     ci_record = (\<lambda>st. st, delivered, ms), ci_release = (\<lambda>st. st, delivered, ms), ci_reserve = (\<lambda>st. st, delivered, ms),
     ci_forget = (\<lambda>st. st, delivered, ms)\<rparr>"

definition disk_pass :: "int \<Rightarrow> mem pass" where
  "disk_pass ms = \<lparr>ps_snapshot = [], ps_monitor = disk_monitor, ps_circumstances = calm_step ms, ps_line = disk_line\<rparr>"

definition disk_surroundings :: "unit http_env \<Rightarrow> (mem, unit) surroundings" where
  "disk_surroundings henv = \<lparr>su_env = mem_env, su_henv = henv, su_parse_float = (\<lambda>_. None), su_ulower = (\<lambda>c. c), su_fround = (\<lambda>x. x)\<rparr>"

definition disk_state :: "(mem, unit) engine_state" where
  "disk_state = \<lparr>es_store = mem_empty, es_net = (), es_deduper = newAlertDeduper (en_dedupCfg disk_engine),
     es_metrics = Some (newTelemetry 0), es_alertLog = []\<rparr>"

lemma disk_parsed: "parsedLine disk_line = None"
proof (cases "parseLine disk_line")
  case (Inr p)
  from parseLine_contains [OF this] show ?thesis by (simp add: disk_line_def)
qed (simp add: parsedLine_def)

lemma disk_pass_simps [simp]:
  "ps_line (disk_pass ms) = disk_line" "ps_circumstances (disk_pass ms) = calm_step ms"
  "ps_monitor (disk_pass ms) = disk_monitor" "ps_snapshot (disk_pass ms) = []"
  "ci_reserve (calm_step ms) = (\<lambda>st. st, delivered, ms)" "ci_forget (calm_step ms) = (\<lambda>st. st, delivered, ms)"
  "su_env (disk_surroundings henv) = mem_env" "su_henv (disk_surroundings henv) = henv"
  "dedup_enabled (en_dedupCfg disk_engine)" "en_notifier disk_engine = sample_client" "en_iconURL disk_engine = []"
  by (simp_all add: disk_pass_def calm_step_def disk_surroundings_def disk_engine_def)

lemma disk_facts:
  "MatchString (m_search disk_monitor) disk_line" "\<not> is_excluded disk_engine [] disk_monitor disk_line"
  "Match (en_incidents disk_engine) disk_line parsed = None" "0 < defaultTTL (es_deduper disk_state)"
  "\<not> keydb_held mem_view t mem_empty fp" "failures disk_state = Some 0" "calm P t (calm_step ms) = (ms \<le> t)"
  by (simp_all add: disk_monitor_def disk_line_def MatchString_def RChar_def decode_runes_ascii ascii_def byte_def
      is_excluded_def disk_parsed [unfolded disk_line_def] checkDynExcludesLine_def lookup_or_def Match_def disk_engine_def
      disk_state_def newAlertDeduper_ttl keydb_held_def reserved_at_def mem_empty_def sees_def mem_view_def mview_def
      failures_def newTelemetry_def calm_def calm_step_def)

lemma disk_decision: "fst (line_decision (disk_surroundings henv) disk_engine (calm_step ms) disk_line s) = mk_decision True False ''disabled''"
  by (simp add: line_decision_def get_decision_def calm_step_def shouldSendByDecisionService_def disk_engine_def fail_closed_def Let_def)


lemma pass_failures:
  assumes "\<And>tc u m w. fst (Send (su_henv su) (en_notifier e) tc u [] m (en_iconURL e) w) = None \<longleftrightarrow> good"
    and "dedup_enabled (en_dedupCfg e)" and "Match (en_incidents e) (ps_line p) (parsedLine (ps_line p)) = None"
    and "s' = run_pass su e p s"
  shows "failures s' = (if good \<or> es_alertLog s' = es_alertLog s then failures s else map_option (\<lambda>n. n + 1) (failures s))"
proof (cases "s' = s")
  case False
  obtain d s1 where d: "line_decision su e (ps_circumstances p) (ps_line p) s = (d, s1)" by fastforce
  obtain f n ms where r: "ci_record (ps_circumstances p) = (f, n, ms)" by (metis prod.exhaust)
  note k = get_decision_keeps [OF d [unfolded line_decision_def]]
  have s': "s' = alert_line su e (ps_circumstances p) (ps_line p) s"
    using assms(4) False by (auto simp: run_pass_def check_monitor_def split: if_splits)
  show ?thesis
  proof (cases rule: alert_line_cases [OF d r])
    case 1
    then show ?thesis using s' k by simp
  next
    case (2 tc user)
    from send_alert_failures [OF assms(1,2) s' [unfolded 2(3)]] show ?thesis using k by simp
  qed (use assms(3) in simp_all)
qed simp

lemma disk_first_alert:
  "es_alertLog (run_pass (disk_surroundings henv) disk_engine (disk_pass ms) disk_state) = [line_message disk_line]"
  using redis.free_alert_sent [OF mem.redis_axioms, of "disk_surroundings henv" disk_engine disk_state "calm_step ms"
      "\<lambda>st. st" ms disk_line disk_monitor "[]"]
  by (simp add: run_pass_def disk_facts disk_decision mk_decision_def disk_state_def [THEN arg_cong, of es_store]
      disk_state_def [THEN arg_cong, of es_alertLog])

lemma dead_network_Send: "fst (Send dead_network c tc u ch m i w) \<noteq> None"
proof -
  have p: "\<exists>x. postJSON dead_network c en au pl w = (Some x, w)" for en au pl w
    by (simp add: postJSON_def dead_network_def)
  have "\<exists>x. sendTintwire dead_network c tc w = (Some x, w)" for tc w
    using p by (simp add: sendTintwire_def split: sum.split prod.split)
  then obtain x where t: "sendTintwire dead_network c (tc\<lparr>tc_Channel := if ch = [] then nt_defaultChannel c else ch\<rparr>) w = (Some x, w)"
    by blast
  obtain y where y: "postJSON dead_network c (nt_mattermostURL c) [] (mattermostPayload_json
      \<lparr>mp_Username = u, mp_Channel = if ch = [] then nt_defaultChannel c else ch, mp_Text = m, mp_IconURL = i\<rparr>) w = (Some y, w)"
    using p by blast
  show ?thesis using t y by (cases "ch = []") (simp_all add: Send_def Let_def)
qed


lemma disk_ttl: "ttl_ms (decision_ttl (es_deduper disk_state) 0) = 60000"
  by (simp add: disk_state_def disk_engine_def newAlertDeduper_def decision_ttl_def dur_mul_def Second_def wrap64_small
      ttl_ms_def Millisecond_def quot64_def Let_def)

theorem alert_once_per_ttl_witness:
  "\<exists>s'. s' = run_pass (disk_surroundings good_network) disk_engine (disk_pass 0) disk_state
    \<and> es_alertLog s' = [line_message disk_line]
    \<and> pass_alerts (disk_surroundings good_network) disk_engine [disk_pass 59999] s' = [(disk_line, [])]"
proof -
  let ?su = "disk_surroundings good_network" and ?s' = "run_pass (disk_surroundings good_network) disk_engine (disk_pass 0) disk_state"
  note log = disk_first_alert [of good_network 0]
  have "failures ?s' = failures disk_state"
    using pass_failures [where su = ?su and e = disk_engine and p = "disk_pass 0" and good = True, OF _ _ _ refl]
    by (simp add: good_network_Send disk_facts)
  moreover have "59999 < 0 + ttl_ms (decision_ttl (es_deduper disk_state)
      (ad_TTLSeconds (fst (line_decision ?su disk_engine (calm_step 0) (ps_line (disk_pass 0)) disk_state))))"
    by (simp add: disk_decision mk_decision_def disk_ttl)
  ultimately have "\<forall>(line, alerts) \<in> set (pass_alerts ?su disk_engine [disk_pass 59999] ?s').
      line_fingerprint ?su line = line_fingerprint ?su (ps_line (disk_pass 0))
      \<longrightarrow> Match (en_incidents disk_engine) line (parsedLine line) = None \<longrightarrow> alerts = []"
    using mem.redis_axioms log
    by (intro alert_once_per_ttl [where f = "\<lambda>st. st" and ms = 0 and t = 59999 and s = disk_state and ci = "calm_step 0"])
      (simp_all add: disk_facts disk_state_def [THEN arg_cong, of es_alertLog])
  then show ?thesis using log by (simp add: Let_def disk_facts)
qed

theorem failed_alert_goes_again_witness:
  "\<exists>s'. s' = run_pass (disk_surroundings dead_network) disk_engine (disk_pass 0) disk_state
    \<and> failures s' = Some 1
    \<and> es_alertLog (run_pass (disk_surroundings dead_network) disk_engine (disk_pass 1) s')
        = [line_message disk_line, line_message disk_line]"
proof -
  let ?su = "disk_surroundings dead_network" and ?s' = "run_pass (disk_surroundings dead_network) disk_engine (disk_pass 0) disk_state"
  note log = disk_first_alert [of dead_network 0]
  have f: "failures ?s' = Some 1"
    using pass_failures [where su = ?su and e = disk_engine and p = "disk_pass 0" and good = False and s = disk_state, OF _ _ _ refl]
    by (simp add: dead_network_Send disk_facts log disk_state_def [THEN arg_cong, of es_alertLog])
  have "es_alertLog (run_pass ?su disk_engine (disk_pass 1) ?s') = es_alertLog ?s' @ [line_message (ps_line (disk_pass 1))]"
    using mem.redis_axioms f
    by (intro failed_alert_goes_again [where g = "\<lambda>st. st" and f = "\<lambda>st. st" and ms = 0 and ms' = 1 and s = disk_state and p = "disk_pass 0"])
      (simp_all add: disk_facts disk_decision mk_decision_def)
  then show ?thesis using log f by simp
qed


theorem alert_has_reason_witness:
  "es_alertLog (run_pass (disk_surroundings dead_network) disk_engine (disk_pass 0) disk_state) = [line_message disk_line]
   \<and> MatchString (m_search disk_monitor) disk_line"
proof -
  note log = disk_first_alert [of dead_network 0]
  have r: "ci_record (calm_step 0) = (\<lambda>st. st, delivered, 0)" by (simp add: calm_step_def)
  have "es_alertLog (run_pass (disk_surroundings dead_network) disk_engine (disk_pass 0) disk_state) \<noteq> es_alertLog disk_state"
    by (simp add: log disk_state_def [THEN arg_cong, of es_alertLog])
  from alert_has_reason [OF refl this refl refl _ r [folded disk_pass_simps(2) [of 0]], where f = "\<lambda>st. st" and net = delivered and ms = 0] log
  show ?thesis by simp
qed

end
