(* ===== verification/Engine_Mute.thy ===== *)
theory Engine_Mute
  imports Engine_Alerts Web Incident_Recovery
begin

text \<open>
  The exclusion of lines as a predicate, and its composition with the web server: a value that was muted through
  the API drops the lines that contain it.
\<close>

section \<open>The exclusion of a line\<close>

lemma contains_any_iff: "contains_any t xs \<longleftrightarrow> (\<exists>x \<in> set xs. sublist x t)"
  by (induction xs) (simp_all add: str_contains_sublist)

lemma checkDynExcludesMulti_iff:
  "checkDynExcludesMulti parsed m \<longleftrightarrow> (\<exists>(k, vs) \<in> set m. \<exists>v \<in> set vs. sublist v (parsed_get parsed k))"
  by (induction parsed m rule: checkDynExcludesMulti.induct) (simp_all add: contains_any_iff)

text \<open>A dynamic exclude of type \<open>k\<close> hits a parsed line by its field and any other line as text.\<close>

definition exclude_hits :: "string \<Rightarrow> string \<Rightarrow> string \<Rightarrow> bool" where
  "exclude_hits line k v =
     (case parsedLine line of Some p \<Rightarrow> sublist v (parsed_get (Some p) k) | None \<Rightarrow> k = ''text'' \<and> sublist v line)"

definition structured_noise :: "alertEngine \<Rightarrow> (string, string) gomap \<Rightarrow> bool" where
  "structured_noise e p \<longleftrightarrow>
     (parsed_get (Some p) ''process'' \<noteq> '''' \<and> (\<exists>re \<in> set (en_processExcludes e). MatchString re (parsed_get (Some p) ''process'')))
     \<or> isNonActionableStructuredLine p (en_jsonExcludes e)"

lemma is_excluded_iff:
  assumes "wf_map snapshot"
  shows "is_excluded e snapshot mon line \<longleftrightarrow>
     (\<exists>k vs v. map_of snapshot k = Some vs \<and> v \<in> set vs \<and> exclude_hits line k v)
     \<or> (\<exists>p. parsedLine line = Some p \<and> structured_noise e p)
     \<or> (\<exists>x \<in> set (m_excludes mon). sublist x line)"
proof -
  have m: "(k, vs) \<in> set snapshot \<longleftrightarrow> map_of snapshot k = Some vs" for k vs
    using assms by (simp add: wf_map_mem_iff)
  show ?thesis
  proof (cases "parsedLine line")
    case None
    then show ?thesis
      by (cases "map_of snapshot ''text''")
        (auto simp: is_excluded_def exclude_hits_def contains_any_iff checkDynExcludesLine_def lookup_or_def)
  next
    case (Some p)
    have "matchesProcessExclude x res \<longleftrightarrow> x \<noteq> '''' \<and> (\<exists>re \<in> set res. MatchString re x)" for x res
      by (simp add: matchesProcessExclude_def list_ex_iff)
    moreover have "checkDynExcludesMulti (Some p) snapshot
        \<longleftrightarrow> (\<exists>k vs v. map_of snapshot k = Some vs \<and> v \<in> set vs \<and> exclude_hits line k v)"
      using m by (auto simp: checkDynExcludesMulti_iff exclude_hits_def Some)
    ultimately show ?thesis
      by (simp add: is_excluded_def Some Let_def contains_any_iff structured_noise_def parsed_get_def) blast
  qed
qed

lemma check_monitors_excluded:
  "\<forall>mon \<in> set mons. MatchString (m_search mon) line \<longrightarrow> is_excluded e snapshot mon line \<Longrightarrow>
     check_monitors su e snapshot crs line i mons s = s"
  by (induction mons arbitrary: i) (simp_all add: check_monitor_def)

text \<open>
  What drops a line: when every monitor whose search matches the line is overruled, then the line has no effect at all:
  no request, no change in the store, no alert. A line is overruled exactly by a dynamic exclude contained in its field (in
  the whole line when it was not parsed), by a process exclude, by structured noise, or by an exclude of
  the monitor.
\<close>

theorem excluded_line_ignored:
  assumes "wf_map snapshot"
    and "\<forall>mon \<in> set (en_monitors e). MatchString (m_search mon) line \<longrightarrow>
       (\<exists>k vs v. map_of snapshot k = Some vs \<and> v \<in> set vs \<and> exclude_hits line k v)
       \<or> (\<exists>p. parsedLine line = Some p \<and> structured_noise e p)
       \<or> (\<exists>x \<in> set (m_excludes mon). sublist x line)"
  shows "checkLine su e snapshot crs line s = s"
  unfolding checkLine_def
  by (rule check_monitors_excluded) (use assms(2) in \<open>simp add: is_excluded_iff [OF assms(1)]\<close>)

section \<open>A value that was muted\<close>

lemma muted_member:
  assumes "update_excludes k v True (Some m0) = Inr (Some m, b)"
  obtains vs where "map_of m k = Some vs" "v \<in> set vs"
proof (cases "index_of v (lookup_or [] (map_of m0) k)")
  case None
  then have "m = AList.update k (lookup_or [] (map_of m0) k @ [v]) m0"
    using assms by (simp add: update_excludes_def Let_def del: index_of_None)
  then show thesis using that by simp
next
  case (Some i)
  then have "m = m0" and "v \<in> set (lookup_or [] (map_of m0) k)"
    using assms by (auto simp: update_excludes_def Let_def dest!: index_of_Some)
  then show thesis using that by (cases "map_of m0 k") (simp_all add: lookup_or_def)
qed

lemma muted_line:
  assumes "map_of snapshot k = Some vs" and "v \<in> set vs" and "exclude_hits line k v"
  shows "checkLine su e snapshot crs line s = s"
proof -
  have "(k, vs) \<in> set snapshot" using assms(1) by (rule map_of_SomeD)
  then have "is_excluded e snapshot mon line" for mon
    using assms by (auto simp: is_excluded_def exclude_hits_def checkDynExcludesMulti_iff checkDynExcludesLine_def
        contains_any_iff lookup_or_def Let_def split: option.splits)
  then show ?thesis unfolding checkLine_def by (intro check_monitors_excluded ballI impI)
qed

text \<open>
  C17. From the API to the alerts: after \<open>/api/mute\<close> answered 200 to a mute, every line that the muted value hits is dropped by the engine,
  for as long as the store of the process holds what the request left in it.
\<close>

theorem api_mute_silences:
  assumes "redis env db"
    and "api_ServeHTTP (Some (keydb_repo env)) tokens c r new_response ws = (w', ws')" and "final_status w' = 200"
    and "decode_body dec_apiRequest zero_apiRequest (requestBody r) None = Inr req" and "aq_Command req = ''mute''"
    and "exclude_hits line (aq_Type req) (aq_Value req)"
  shows "checkLine su e (ws_store ws') crs line s = s"
proof -
  obtain m0 b where "update_excludes (aq_Type req) (aq_Value req) True (Some m0) = Inr (Some (ws_store ws'), b)"
    using redis.api_applied_keydb [OF assms(1) assms(2) [unfolded keydb_repo_def]] assms(3-5) by auto
  then obtain vs where "map_of (ws_store ws') (aq_Type req) = Some vs" "aq_Value req \<in> set vs" by (rule muted_member)
  from muted_line [OF this assms(6)] show ?thesis .
qed


section \<open>A concrete mute\<close>

lemma json_decode_unmarshal: "json_unmarshal s = Some j \<Longrightarrow> json_decode s = Some j"
  by (auto simp: json_unmarshal_def json_decode_def split: option.splits prod.splits if_splits)

definition muter :: request where
  "muter = \<lparr>rmethod = ''POST'', remoteAddr = ''h:1'', formValue = (\<lambda>_. []), headerGet = (\<lambda>_. ''Bearer t''),
     requestBody = Marshal (JObj [(''command'', JStr ''mute''), (''type'', JStr ''text''), (''value'', JStr ''disk'')])\<rparr>"

definition mute_disk :: apiRequest where
  "mute_disk = \<lparr>aq_Command = ''mute'', aq_Type = ''text'', aq_Value = ''disk''\<rparr>"

lemma muter_body: "decode_body dec_apiRequest zero_apiRequest (requestBody muter) None = Inr mute_disk"
proof -
  have "json_unmarshal (requestBody muter) = Some (JObj [(''command'', JStr ''mute''), (''type'', JStr ''text''), (''value'', JStr ''disk'')])"
    unfolding muter_def request.simps Marshal_def
    by (subst json_unmarshal_print) (simp_all add: to_valid_id valid_utf8_ascii ascii_def byte_def)
  from json_decode_unmarshal [OF this] show ?thesis
    by (simp add: decode_body_def dec_struct_def dec_apiRequest_def zero_apiRequest_def mute_disk_def dec_string_def
        same_name_lower lower_word_def byte_def)
qed


lemma disk_update:
  "fst (UpdateDynExclude mem_env 0 (\<lambda>_. quiet_attempt) ''text'' ''disk'' True mem_empty) = Inr ([(''text'', [''disk''])], True)"
proof -
  have "map (\<lambda>_. quiet_attempt) [0..<maxRetries] = quiet_attempt # map (\<lambda>_. quiet_attempt) [1..<16]"
    by (simp add: maxRetries_def upt_rec)
  then show ?thesis
    by (simp add: UpdateDynExclude_def update_attempt_def quiet_attempt_def mem_eval update_body_def
        stored_excludes_def update_excludes_def exec_set_def excludes_key_def map_of_nil_def)
qed

lemma disk_hit: "exclude_hits disk_line ''text'' ''disk''"
  by (simp add: exclude_hits_def disk_parsed) (simp add: disk_line_def)

theorem excluded_line_ignored_witness:
  "checkLine (disk_surroundings good_network) disk_engine [(''text'', [''disk''])] (\<lambda>_. calm_step 0) disk_line disk_state = disk_state"
proof (rule excluded_line_ignored)
  show "wf_map [(''text'', [''disk''])]" by (simp add: wf_map_def)
  show "\<forall>mon \<in> set (en_monitors disk_engine). MatchString (m_search mon) disk_line \<longrightarrow>
      (\<exists>k vs v. map_of [(''text'', [''disk''])] k = Some vs \<and> v \<in> set vs \<and> exclude_hits disk_line k v)
      \<or> (\<exists>p. parsedLine disk_line = Some p \<and> structured_noise disk_engine p)
      \<or> (\<exists>x \<in> set (m_excludes mon). sublist x disk_line)"
    using disk_hit by auto
qed

theorem api_mute_silences_witness:
  "\<exists>w' ws'. api_ServeHTTP (Some (keydb_repo mem_env)) [''t''] sample_call muter new_response sample_state = (w', ws')
     \<and> final_status w' = 200
     \<and> checkLine (disk_surroundings good_network) disk_engine (ws_store ws') (\<lambda>_. calm_step 0) disk_line disk_state = disk_state"
proof -
  obtain w' ws' where a: "api_ServeHTTP (Some (keydb_repo mem_env)) [''t''] sample_call muter new_response sample_state = (w', ws')"
    by fastforce
  obtain st where u: "UpdateDynExclude mem_env 0 (\<lambda>_. quiet_attempt) ''text'' ''disk'' True mem_empty
      = (Inr ([(''text'', [''disk''])], True), st)"
    using disk_update by (metis prod.collapse)
  have auth: "authorized [''t''] muter" by (simp add: authorized_def muter_def CutPrefix_def)
  have valid: "validateDynamicExclude ''text'' ''disk'' = None"
    by (simp add: validateDynamicExclude_def allowedDynamicExcludeTypes_def maxDynamicExcludeValueBytes_def TrimSpace_word
        ascii_def byte_def is_space_def)
  have "final_status w' = 200"
    using a u auth valid
    by (auto simp: api_ServeHTTP_def limit_request_def sample_state_def sample_call_def muter_body mute_disk_def
        updateDynamicExclude_def keydb_repo_def Let_def muter_def [THEN arg_cong, of rmethod])
  moreover have "exclude_hits disk_line (aq_Type mute_disk) (aq_Value mute_disk)"
    using disk_hit by (simp add: mute_disk_def)
  ultimately show ?thesis
    using api_mute_silences [OF mem.redis_axioms a _ muter_body] a by (auto simp: mute_disk_def)
qed

end
