(* ===== verification/Pipeline.thy ===== *)
theory Pipeline
  imports Telemetry Config "HOL-Library.Multiset"
begin

text \<open>
  The alert pipeline of main: a goroutine for each file tails it and sends its lines into a bounded channel, workers
  take them from the channel, and the main goroutine closes the channel when all tails have stopped and
  waits for the workers. One step of the relation is at most one access of a goroutine to what the others see: the
  channel, the context or one of the metrics. So what the code does between two such accesses, as between a
  send and the store of the gauge, can be interleaved with steps of the others.
\<close>

section \<open>The state\<close>

text \<open>
  Where the loop of a tail stands: at its top; waiting for a line; with a line that it has not counted, that it has counted, that it
  offers without blocking, that found the channel full, that it blocks with; after a send, and then with the length of the channel that it will
  store; with a tail that stopped; sleeping before a restart; returned.
\<close>

datatype tail_state = Opening | Reading | Received string | Counted string | Offering string | Saturated string | Blocked string
  | Sent | Tail_sized nat | Stopped | Sleeping | Gone

text \<open>A line in the channel goes with the index of its tail, which the code does not store: it identifies the line in
  the properties.\<close>

type_synonym job = "nat \<times> string"

text \<open>
  A worker waits, took a job, has the length of the channel that it will store, has stored it, has counted the job and processes it, or
  has returned.
\<close>

datatype worker_state = Idle | Taken job | Sized job nat | Gauged job | Busy job | Exited

text \<open>
  Main starts the goroutines, serves, has marked the shutdown, waits for the tails, waits for the workers, or has finished, drained or not.
\<close>

datatype main_state = Starting | Serving | Quitting | Stopping | Draining | Finished bool

text \<open>
  The last four components are histories: the lines received from the tails, the jobs taken by a worker, the
  completed ones, and the lines that a tail held when it returned.
\<close>

record pipeline =
  pl_cancelled :: bool
  pl_tails :: "tail_state list"
  pl_jobs :: "job list"
  pl_closed :: bool
  pl_panic :: bool
  pl_workers :: "worker_state list"
  pl_main :: main_state
  pl_metrics :: telemetry
  hi_received :: "job list"
  hi_started :: "job list"
  hi_completed :: "job list"
  hi_dropped :: "job list"

definition start_pipeline :: "nat \<Rightarrow> nat \<Rightarrow> telemetry \<Rightarrow> pipeline" where
  "start_pipeline files workerCount m =
     \<lparr>pl_cancelled = False, pl_tails = replicate files Opening, pl_jobs = [], pl_closed = False, pl_panic = False,
      pl_workers = replicate workerCount Idle, pl_main = Starting,
      pl_metrics = m, hi_received = [], hi_started = [], hi_completed = [], hi_dropped = []\<rparr>"

section \<open>The operations\<close>

definition set_tail :: "nat \<Rightarrow> tail_state \<Rightarrow> pipeline \<Rightarrow> pipeline" where
  "set_tail i t p = p\<lparr>pl_tails := (pl_tails p)[i := t]\<rparr>"

definition set_worker :: "nat \<Rightarrow> worker_state \<Rightarrow> pipeline \<Rightarrow> pipeline" where
  "set_worker w x p = p\<lparr>pl_workers := (pl_workers p)[w := x]\<rparr>"

definition set_main :: "main_state \<Rightarrow> pipeline \<Rightarrow> pipeline" where
  "set_main s p = p\<lparr>pl_main := s\<rparr>"

text \<open>One access to the metrics.\<close>

definition change_metrics :: "(telemetry \<Rightarrow> telemetry) \<Rightarrow> pipeline \<Rightarrow> pipeline" where
  "change_metrics f p = p\<lparr>pl_metrics := f (pl_metrics p)\<rparr>"

text \<open>A line arrives; it is counted, and the clock is stored, before it is offered.\<close>

definition receive_line :: "nat \<Rightarrow> string \<Rightarrow> pipeline \<Rightarrow> pipeline" where
  "receive_line i l p = (set_tail i (Received l) p)\<lparr>hi_received := hi_received p @ [(i, l)]\<rparr>"

definition count_line :: "nat \<Rightarrow> string \<Rightarrow> pipeline \<Rightarrow> pipeline" where
  "count_line i l p = set_tail i (Counted l) (change_metrics (\<lambda>m. m\<lparr>linesRead := linesRead m + 1\<rparr>) p)"

definition stamp_line :: "nat \<Rightarrow> string \<Rightarrow> int \<Rightarrow> pipeline \<Rightarrow> pipeline" where
  "stamp_line i l now p = set_tail i (Offering l) (change_metrics (\<lambda>m. m\<lparr>lastLineUnix := now\<rparr>) p)"

text \<open>\<open>alertJobs <- line\<close>; a send on a closed channel panics.\<close>

definition send_job :: "nat \<Rightarrow> string \<Rightarrow> pipeline \<Rightarrow> pipeline" where
  "send_job i l p =
     (if pl_closed p then p\<lparr>pl_panic := True\<rparr>
      else (set_tail i Sent p)\<lparr>pl_jobs := pl_jobs p @ [(i, l)]\<rparr>)"

text \<open>
  \<open>queueDepth.Store(int64(len(alertJobs)))\<close>: the length is read in one step and stored in another.
\<close>

definition store_depth :: "nat \<Rightarrow> pipeline \<Rightarrow> pipeline" where
  "store_depth n p = change_metrics (\<lambda>m. m\<lparr>queueDepth := int n\<rparr>) p"

definition drop_line :: "nat \<Rightarrow> string \<Rightarrow> pipeline \<Rightarrow> pipeline" where
  "drop_line i l p = (set_tail i Gone p)\<lparr>hi_dropped := hi_dropped p @ [(i, l)]\<rparr>"

definition saturate :: "nat \<Rightarrow> string \<Rightarrow> pipeline \<Rightarrow> pipeline" where
  "saturate i l p = set_tail i (Blocked l) (change_metrics (\<lambda>m. m\<lparr>queueSaturations := queueSaturations m + 1\<rparr>) p)"

definition restart_tail :: "nat \<Rightarrow> pipeline \<Rightarrow> pipeline" where
  "restart_tail i p = set_tail i Sleeping (change_metrics (\<lambda>m. m\<lparr>tailRestarts := tailRestarts m + 1\<rparr>) p)"

text \<open>A worker receives a job; it stores the gauge and counts the job before it processes it.\<close>

definition take_job :: "nat \<Rightarrow> job \<Rightarrow> job list \<Rightarrow> pipeline \<Rightarrow> pipeline" where
  "take_job w j js p = (set_worker w (Taken j) p)\<lparr>pl_jobs := js, hi_started := hi_started p @ [j]\<rparr>"

definition count_job :: "nat \<Rightarrow> job \<Rightarrow> pipeline \<Rightarrow> pipeline" where
  "count_job w j p = set_worker w (Busy j) (change_metrics (\<lambda>m. m\<lparr>jobsStarted := jobsStarted m + 1\<rparr>) p)"

definition complete_job :: "nat \<Rightarrow> job \<Rightarrow> pipeline \<Rightarrow> pipeline" where
  "complete_job w j p =
     (set_worker w Idle (change_metrics (\<lambda>m. m\<lparr>jobsCompleted := jobsCompleted m + 1\<rparr>) p))\<lparr>hi_completed := hi_completed p @ [j]\<rparr>"

definition tail_at :: "pipeline \<Rightarrow> nat \<Rightarrow> tail_state \<Rightarrow> bool" where
  "tail_at p i t \<longleftrightarrow> i < length (pl_tails p) \<and> pl_tails p ! i = t"

definition worker_at :: "pipeline \<Rightarrow> nat \<Rightarrow> worker_state \<Rightarrow> bool" where
  "worker_at p w x \<longleftrightarrow> w < length (pl_workers p) \<and> pl_workers p ! w = x"

text \<open>
  The steps. A \<open>select\<close> takes any case that is ready and its \<open>default\<close> only when none is: a tail that may send and
  whose context is done does either. \<open>cap\<close> is the capacity of the channel.
\<close>

inductive pipeline_step :: "nat \<Rightarrow> pipeline \<Rightarrow> pipeline \<Rightarrow> bool" for cap where
  cancel: "pipeline_step cap p (p\<lparr>pl_cancelled := True\<rparr>)"
| tail_opens: "tail_at p i Opening \<Longrightarrow> \<not> pl_cancelled p \<Longrightarrow> pipeline_step cap p (set_tail i Reading p)"
| tail_fails: "tail_at p i Opening \<Longrightarrow> \<not> pl_cancelled p \<Longrightarrow> pipeline_step cap p (set_tail i Sleeping p)"
| tail_line: "tail_at p i Reading \<Longrightarrow> pipeline_step cap p (receive_line i l p)"
| tail_counts: "tail_at p i (Received l) \<Longrightarrow> pipeline_step cap p (count_line i l p)"
| tail_stamps: "tail_at p i (Counted l) \<Longrightarrow> pipeline_step cap p (stamp_line i l now p)"
| tail_stops: "tail_at p i Reading \<Longrightarrow> pipeline_step cap p (set_tail i Stopped p)"
| tail_reports: "tail_at p i Stopped \<Longrightarrow> pipeline_step cap p (restart_tail i p)"
| tail_wakes: "tail_at p i Sleeping \<Longrightarrow> pipeline_step cap p (set_tail i Opening p)"
| tail_returns: "tail_at p i t \<Longrightarrow> t \<in> {Opening, Reading, Sleeping} \<Longrightarrow> pl_cancelled p \<Longrightarrow>
    pipeline_step cap p (set_tail i Gone p)"
| tail_sends: "tail_at p i t \<Longrightarrow> t \<in> {Offering l, Blocked l} \<Longrightarrow> pl_closed p \<or> length (pl_jobs p) < cap \<Longrightarrow>
    pipeline_step cap p (send_job i l p)"
| tail_measures: "tail_at p i Sent \<Longrightarrow> pipeline_step cap p (set_tail i (Tail_sized (length (pl_jobs p))) p)"
| tail_gauges: "tail_at p i (Tail_sized n) \<Longrightarrow> pipeline_step cap p (set_tail i Reading (store_depth n p))"
| tail_full: "tail_at p i (Offering l) \<Longrightarrow> \<not> length (pl_jobs p) < cap \<Longrightarrow> \<not> pl_closed p \<Longrightarrow> \<not> pl_cancelled p \<Longrightarrow>
    pipeline_step cap p (set_tail i (Saturated l) p)"
| tail_saturates: "tail_at p i (Saturated l) \<Longrightarrow> pipeline_step cap p (saturate i l p)"
| tail_drops: "tail_at p i t \<Longrightarrow> t \<in> {Offering l, Blocked l} \<Longrightarrow> pl_cancelled p \<Longrightarrow> pipeline_step cap p (drop_line i l p)"
| worker_takes: "worker_at p w Idle \<Longrightarrow> pl_jobs p = j # js \<Longrightarrow> pipeline_step cap p (take_job w j js p)"
| worker_measures: "worker_at p w (Taken j) \<Longrightarrow> pipeline_step cap p (set_worker w (Sized j (length (pl_jobs p))) p)"
| worker_gauges: "worker_at p w (Sized j n) \<Longrightarrow> pipeline_step cap p (set_worker w (Gauged j) (store_depth n p))"
| worker_counts: "worker_at p w (Gauged j) \<Longrightarrow> pipeline_step cap p (count_job w j p)"
| worker_completes: "worker_at p w (Busy j) \<Longrightarrow> pipeline_step cap p (complete_job w j p)"
| worker_exits: "worker_at p w Idle \<Longrightarrow> pl_closed p \<Longrightarrow> pl_jobs p = [] \<Longrightarrow> pipeline_step cap p (set_worker w Exited p)"
| main_serves: "pl_main p = Starting \<Longrightarrow>
    pipeline_step cap p (set_main Serving (change_metrics (\<lambda>m. m\<lparr>ready := True\<rparr>) p))"
| main_quits: "pl_main p = Serving \<Longrightarrow> pl_cancelled p \<Longrightarrow>
    pipeline_step cap p (set_main Quitting (change_metrics (\<lambda>m. m\<lparr>shuttingDown := True\<rparr>) p))"
| main_stops: "pl_main p = Quitting \<Longrightarrow>
    pipeline_step cap p (set_main Stopping (change_metrics (\<lambda>m. m\<lparr>ready := False\<rparr>) p))"
| main_closes: "pl_main p = Stopping \<Longrightarrow> \<forall>t \<in> set (pl_tails p). t = Gone \<Longrightarrow>
    pipeline_step cap p (p\<lparr>pl_main := Draining, pl_closed := True\<rparr>)"
| main_drained: "pl_main p = Draining \<Longrightarrow> \<forall>w \<in> set (pl_workers p). w = Exited \<Longrightarrow>
    pipeline_step cap p (set_main (Finished True) p)"
| main_times_out: "pl_main p = Draining \<Longrightarrow> pipeline_step cap p (set_main (Finished False) p)"

inductive pipeline_reach :: "nat \<Rightarrow> nat \<Rightarrow> nat \<Rightarrow> telemetry \<Rightarrow> pipeline \<Rightarrow> bool" for cap files workerCount m where
  at_start: "pipeline_reach cap files workerCount m (start_pipeline files workerCount m)"
| at_step: "pipeline_reach cap files workerCount m p \<Longrightarrow> pipeline_step cap p p' \<Longrightarrow> pipeline_reach cap files workerCount m p'"

text \<open>The program's pipeline: the capacity and the number of workers come from the configuration.\<close>

definition config_reach :: "PipelineConfig \<Rightarrow> nat \<Rightarrow> telemetry \<Rightarrow> pipeline \<Rightarrow> bool" where
  "config_reach c files m =
     (let (workerCount, queueSize) = pipeline_values c in pipeline_reach (nat queueSize) files (nat workerCount) m)"

section \<open>Invariants\<close>

lemmas pipeline_ops = set_tail_def set_worker_def set_main_def change_metrics_def receive_line_def count_line_def stamp_line_def
  send_job_def store_depth_def drop_line_def saturate_def restart_tail_def take_job_def count_job_def complete_job_def tail_at_def worker_at_def

definition of_tail :: "nat \<Rightarrow> job list \<Rightarrow> job list" where
  "of_tail i js = filter (\<lambda>j. fst j = i) js"

lemma of_tail_simps [simp]:
  "of_tail i [] = []" "of_tail i (js @ ks) = of_tail i js @ of_tail i ks"
  "of_tail i ((k, l) # js) = (if k = i then (k, l) # of_tail i js else of_tail i js)"
  by (simp_all add: of_tail_def)

text \<open>The line that a tail holds, and the job that a worker has taken and not completed.\<close>

fun held_line :: "nat \<Rightarrow> tail_state \<Rightarrow> job list" where
  "held_line i (Received l) = [(i, l)]"
| "held_line i (Counted l) = [(i, l)]"
| "held_line i (Offering l) = [(i, l)]"
| "held_line i (Saturated l) = [(i, l)]"
| "held_line i (Blocked l) = [(i, l)]"
| "held_line i _ = []"

fun busy_job :: "worker_state \<Rightarrow> job multiset" where
  "busy_job (Taken j) = {#j#}"
| "busy_job (Sized j n) = {#j#}"
| "busy_job (Gauged j) = {#j#}"
| "busy_job (Busy j) = {#j#}"
| "busy_job _ = {#}"

text \<open>A line and a job that have not been counted yet.\<close>

fun uncounted_line :: "tail_state \<Rightarrow> nat" where
  "uncounted_line (Received l) = 1"
| "uncounted_line _ = 0"

fun uncounted_job :: "worker_state \<Rightarrow> nat" where
  "uncounted_job (Taken j) = 1"
| "uncounted_job (Sized j n) = 1"
| "uncounted_job (Gauged j) = 1"
| "uncounted_job _ = 0"

text \<open>Changing one element of a list changes a sum over it by the difference.\<close>

lemma sum_update:
  fixes f :: "'a \<Rightarrow> 'b :: comm_monoid_add"
  assumes "k < length xs"
  shows "(\<Sum>x \<leftarrow> xs[k := y]. f x) + f (xs ! k) = (\<Sum>x \<leftarrow> xs. f x) + f y"
  using assms
proof (induction xs arbitrary: k)
  case (Cons x xs)
  show ?case
  proof (cases k)
    case (Suc n)
    then show ?thesis using Cons by (simp add: add.assoc)
  qed (simp add: ac_simps)
qed simp

text \<open>
  Line by line: what a tail has received is what was started of it, what is in the channel, what it holds and what it dropped,
  in this order; only a tail that has returned dropped a line, and only one.
\<close>

definition inv_order :: "pipeline \<Rightarrow> bool" where
  "inv_order p \<longleftrightarrow> (\<forall>i < length (pl_tails p).
     of_tail i (hi_received p) = of_tail i (hi_started p @ pl_jobs p) @ held_line i (pl_tails p ! i) @ of_tail i (hi_dropped p)
     \<and> (pl_tails p ! i \<noteq> Gone \<longrightarrow> of_tail i (hi_dropped p) = [])
     \<and> length (of_tail i (hi_dropped p)) \<le> 1)"

definition inv_jobs :: "nat \<Rightarrow> pipeline \<Rightarrow> bool" where
  "inv_jobs cap p \<longleftrightarrow> length (pl_jobs p) \<le> cap \<and> mset (hi_started p) = mset (hi_completed p) + (\<Sum>w \<leftarrow> pl_workers p. busy_job w)"

definition inv_phase :: "pipeline \<Rightarrow> bool" where
  "inv_phase p \<longleftrightarrow> \<not> pl_panic p
     \<and> (pl_main p \<notin> {Starting, Serving} \<longrightarrow> pl_cancelled p)
     \<and> (hi_dropped p \<noteq> [] \<longrightarrow> pl_cancelled p)
     \<and> (pl_closed p \<longleftrightarrow> pl_main p \<in> {Draining, Finished True, Finished False})
     \<and> (pl_closed p \<longrightarrow> (\<forall>t \<in> set (pl_tails p). t = Gone))
     \<and> (Exited \<in> set (pl_workers p) \<longrightarrow> pl_closed p \<and> pl_jobs p = [])
     \<and> (pl_main p = Finished True \<longrightarrow> (\<forall>w \<in> set (pl_workers p). w = Exited))"

text \<open>The counters, up to what the goroutines have yet to count.\<close>

definition inv_counters :: "telemetry \<Rightarrow> pipeline \<Rightarrow> bool" where
  "inv_counters m p \<longleftrightarrow>
     linesRead (pl_metrics p) + of_nat (\<Sum>t \<leftarrow> pl_tails p. uncounted_line t) = linesRead m + of_nat (length (hi_received p))
     \<and> jobsStarted (pl_metrics p) + of_nat (\<Sum>w \<leftarrow> pl_workers p. uncounted_job w) = jobsStarted m + of_nat (length (hi_started p))
     \<and> jobsCompleted (pl_metrics p) = jobsCompleted m + of_nat (length (hi_completed p))"

text \<open>The gauge is some length that the channel had, though it may be an old one.\<close>

definition inv_gauge :: "nat \<Rightarrow> pipeline \<Rightarrow> bool" where
  "inv_gauge cap p \<longleftrightarrow> 0 \<le> queueDepth (pl_metrics p) \<and> queueDepth (pl_metrics p) \<le> int cap
     \<and> (\<forall>n. Tail_sized n \<in> set (pl_tails p) \<longrightarrow> n \<le> cap) \<and> (\<forall>j n. Sized j n \<in> set (pl_workers p) \<longrightarrow> n \<le> cap)"

lemma in_set_update: "y \<in> set (xs[i := x]) \<Longrightarrow> y = x \<or> y \<in> set xs"
  using set_update_subset_insert by fastforce

lemma sum_update_same:
  fixes f :: "'a \<Rightarrow> nat"
  shows "k < length xs \<Longrightarrow> f (xs ! k) = f y \<Longrightarrow> (\<Sum>x \<leftarrow> xs[k := y]. f x) = (\<Sum>x \<leftarrow> xs. f x)"
  using sum_update [of k xs f y] by simp

lemma sum_update_up:
  fixes f :: "'a \<Rightarrow> nat"
  shows "k < length xs \<Longrightarrow> f (xs ! k) = 0 \<Longrightarrow> f y = 1 \<Longrightarrow> (\<Sum>x \<leftarrow> xs[k := y]. f x) = Suc (\<Sum>x \<leftarrow> xs. f x)"
  using sum_update [of k xs f y] by simp

lemma sum_update_down:
  fixes f :: "'a \<Rightarrow> nat"
  shows "k < length xs \<Longrightarrow> f (xs ! k) = 1 \<Longrightarrow> f y = 0 \<Longrightarrow> (\<Sum>x \<leftarrow> xs. f x) = Suc (\<Sum>x \<leftarrow> xs[k := y]. f x)"
  using sum_update [of k xs f y] by simp

lemma step_counters: "pipeline_step cap p p' \<Longrightarrow> inv_counters m p \<Longrightarrow> inv_counters m p'"
proof (induction rule: pipeline_step.induct)
  case (tail_line p i l)
  then show ?case by (simp add: inv_counters_def pipeline_ops sum_update_up)
next
  case (tail_counts p i l)
  then show ?case using sum_update_down [of i "pl_tails p" uncounted_line "Counted l"]
    by (simp add: inv_counters_def pipeline_ops add.assoc)
next
  case (worker_takes p w j js)
  then show ?case by (simp add: inv_counters_def pipeline_ops sum_update_up)
next
  case (worker_counts p w j)
  then show ?case using sum_update_down [of w "pl_workers p" uncounted_job "Busy j"]
    by (simp add: inv_counters_def pipeline_ops add.assoc)
qed (auto simp: inv_counters_def pipeline_ops sum_update_same)

lemma step_gauge:
  assumes "pipeline_step cap p p'" "inv_gauge cap p" "inv_jobs cap p"
  shows "inv_gauge cap p'"
  using assms by (induction rule: pipeline_step.induct) (auto simp: inv_gauge_def inv_jobs_def pipeline_ops dest!: in_set_update nth_mem)

lemma phase_open: "inv_phase p \<Longrightarrow> tail_at p i t \<Longrightarrow> t \<noteq> Gone \<Longrightarrow> \<not> pl_closed p"
  by (auto simp: inv_phase_def tail_at_def)

lemma phase_main:
  assumes "inv_phase p"
  shows "\<not> pl_closed p \<Longrightarrow> pl_main p \<in> {Starting, Serving, Quitting, Stopping} \<and> Exited \<notin> set (pl_workers p)"
    "worker_at p w x \<Longrightarrow> x \<noteq> Exited \<Longrightarrow> pl_main p \<noteq> Finished True"
  using assms by (cases "pl_main p"; auto simp: inv_phase_def worker_at_def)+

text \<open>A step of a tail that has not returned keeps the channel open.\<close>

lemma phase_tail_step:
  assumes "inv_phase p" and "tail_at p i t" and "t \<noteq> Gone" and "pl_closed p' = pl_closed p" and "pl_panic p' = pl_panic p"
    and "pl_main p' = pl_main p" and "pl_cancelled p' = pl_cancelled p" and "pl_workers p' = pl_workers p"
    and "hi_dropped p' \<noteq> [] \<longrightarrow> hi_dropped p \<noteq> [] \<or> pl_cancelled p"
  shows "inv_phase p'"
  using assms phase_main(1) [OF assms(1) phase_open [OF assms(1-3)]] phase_open [OF assms(1-3)] by (auto simp: inv_phase_def)

lemma phase_worker_step:
  assumes "inv_phase p" and "worker_at p w x" and "x \<noteq> Exited" and "pl_closed p' = pl_closed p" and "pl_panic p' = pl_panic p"
    and "pl_main p' = pl_main p" and "pl_cancelled p' = pl_cancelled p" and "pl_workers p' = (pl_workers p)[w := y]"
    and "hi_dropped p' = hi_dropped p" and "pl_tails p' = pl_tails p" and "pl_jobs p = [] \<longrightarrow> pl_jobs p' = []"
    and "y = Exited \<longrightarrow> pl_closed p \<and> pl_jobs p = []"
  shows "inv_phase p'"
  using assms phase_main(2) [OF assms(1-3)] in_set_update [of Exited "pl_workers p" w y]
  by (auto simp: inv_phase_def)

text \<open>The invariants do not speak of the metrics.\<close>

lemma change_metrics_simps [simp]:
  "inv_phase (change_metrics f p) = inv_phase p" "inv_order (change_metrics f p) = inv_order p"
  "inv_jobs cap (change_metrics f p) = inv_jobs cap p" "tail_at (change_metrics f p) = tail_at p" "worker_at (change_metrics f p) = worker_at p"
  by (simp_all add: fun_eq_iff inv_phase_def inv_order_def inv_jobs_def change_metrics_def tail_at_def worker_at_def)

lemma phase_set_tail: "inv_phase p \<Longrightarrow> tail_at p i t \<Longrightarrow> t \<noteq> Gone \<Longrightarrow> inv_phase (set_tail i t' p)"
  by (rule phase_tail_step) (auto simp: set_tail_def)

lemma phase_set_worker:
  "inv_phase p \<Longrightarrow> worker_at p w x \<Longrightarrow> x \<noteq> Exited \<Longrightarrow> y \<noteq> Exited \<or> pl_closed p \<and> pl_jobs p = [] \<Longrightarrow> inv_phase (set_worker w y p)"
  by (rule phase_worker_step) (auto simp add: set_worker_def)

text \<open>The operations that only move a goroutine and change a metric.\<close>

lemmas plain_ops = count_line_def stamp_line_def saturate_def restart_tail_def store_depth_def count_job_def

lemma step_phase:
  assumes "pipeline_step cap p p'" and inv: "inv_phase p"
  shows "inv_phase p'"
  using assms(1)
proof (cases rule: pipeline_step.cases)
  case (tail_line i l)
  show ?thesis by (rule phase_tail_step [OF inv tail_line(2)]) (simp_all add: tail_line(1) pipeline_ops)
next
  case (tail_sends i t l)
  have t: "t \<noteq> Gone" using tail_sends(3) by auto
  then have "\<not> pl_closed p" using phase_open [OF inv tail_sends(2)] by simp
  then show ?thesis by (intro phase_tail_step [OF inv tail_sends(2) t]) (simp_all add: tail_sends(1) pipeline_ops)
next
  case (tail_drops i t l)
  show ?thesis by (rule phase_tail_step [OF inv tail_drops(2)]) (use tail_drops(3,4) in \<open>auto simp: tail_drops(1) pipeline_ops\<close>)
next
  case (worker_takes w j js)
  show ?thesis by (rule phase_worker_step [OF inv worker_takes(2), of _ "Taken j"]) (simp_all add: worker_takes(1,3) pipeline_ops)
next
  case (worker_completes w j)
  show ?thesis by (rule phase_worker_step [OF inv worker_completes(2), of _ Idle]) (simp_all add: worker_completes(1) pipeline_ops)
next
  case main_serves
  then show ?thesis using inv by (auto simp: inv_phase_def pipeline_ops)
next
  case main_quits
  then show ?thesis using inv by (auto simp: inv_phase_def pipeline_ops)
next
  case main_stops
  then show ?thesis using inv by (auto simp: inv_phase_def pipeline_ops)
next
  case main_closes
  then show ?thesis using inv by (auto simp: inv_phase_def)
next
  case main_drained
  then show ?thesis using inv by (auto simp: inv_phase_def pipeline_ops)
next
  case main_times_out
  then show ?thesis using inv by (auto simp: inv_phase_def pipeline_ops)
next
  case cancel
  then show ?thesis using inv by (auto simp: inv_phase_def)
qed (use inv in \<open>auto simp: plain_ops intro: phase_set_tail phase_set_worker\<close>)

lemma step_jobs: "pipeline_step cap p p' \<Longrightarrow> inv_jobs cap p \<Longrightarrow> inv_phase p \<Longrightarrow> inv_jobs cap p'"
proof (induction rule: pipeline_step.induct)
  case (tail_sends p i t l)
  then show ?case by (auto simp: inv_jobs_def inv_phase_def pipeline_ops)
next
  case (worker_takes p w j js)
  then show ?case using sum_update [of w "pl_workers p" busy_job "Taken j"] by (simp add: inv_jobs_def pipeline_ops)
next
  case (worker_measures p w j)
  then show ?case using sum_update [of w "pl_workers p" busy_job "Sized j (length (pl_jobs p))"] by (simp add: inv_jobs_def pipeline_ops)
next
  case (worker_gauges p w j n)
  then show ?case using sum_update [of w "pl_workers p" busy_job "Gauged j"] by (simp add: inv_jobs_def pipeline_ops)
next
  case (worker_counts p w j)
  then show ?case using sum_update [of w "pl_workers p" busy_job "Busy j"] by (simp add: inv_jobs_def pipeline_ops)
next
  case (worker_completes p w j)
  then show ?case using sum_update [of w "pl_workers p" busy_job Idle] by (simp add: inv_jobs_def pipeline_ops)
next
  case (worker_exits p w)
  then show ?case using sum_update [of w "pl_workers p" busy_job Exited] by (simp add: inv_jobs_def pipeline_ops)
qed (simp_all add: inv_jobs_def pipeline_ops)

text \<open>A step of tail \<open>i\<close> that leaves the others' lines alone.\<close>

lemma order_tail_step:
  assumes "inv_order p" and "i < length (pl_tails p)" and "pl_tails p' = (pl_tails p)[i := t]"
    and "\<And>k. k \<noteq> i \<Longrightarrow> of_tail k (hi_received p') = of_tail k (hi_received p)
      \<and> of_tail k (hi_started p' @ pl_jobs p') = of_tail k (hi_started p @ pl_jobs p) \<and> of_tail k (hi_dropped p') = of_tail k (hi_dropped p)"
    and "of_tail i (hi_received p') = of_tail i (hi_started p' @ pl_jobs p') @ held_line i t @ of_tail i (hi_dropped p')
      \<and> (t \<noteq> Gone \<longrightarrow> of_tail i (hi_dropped p') = []) \<and> length (of_tail i (hi_dropped p')) \<le> 1"
  shows "inv_order p'"
  unfolding inv_order_def
proof (intro allI impI)
  fix k
  assume k: "k < length (pl_tails p')"
  show "of_tail k (hi_received p') = of_tail k (hi_started p' @ pl_jobs p') @ held_line k (pl_tails p' ! k) @ of_tail k (hi_dropped p')
      \<and> (pl_tails p' ! k \<noteq> Gone \<longrightarrow> of_tail k (hi_dropped p') = []) \<and> length (of_tail k (hi_dropped p')) \<le> 1"
  proof (cases "k = i")
    case True
    then show ?thesis using assms(2,3,5) by simp
  next
    case False
    then show ?thesis using assms(1,3) assms(4) [OF False] k by (simp add: inv_order_def)
  qed
qed

lemma inv_orderD:
  assumes "inv_order p" and "tail_at p i t"
  shows "i < length (pl_tails p)"
    and "of_tail i (hi_received p) = of_tail i (hi_started p @ pl_jobs p) @ held_line i t @ of_tail i (hi_dropped p)"
    and "t \<noteq> Gone \<Longrightarrow> of_tail i (hi_dropped p) = []"
  using assms by (auto simp: inv_order_def tail_at_def)

text \<open>A step that moves no line: the tail still holds what it held.\<close>

lemma order_set_tail:
  assumes inv: "inv_order p" and at: "tail_at p i t" and "t \<noteq> Gone" and "held_line i t' = held_line i t"
  shows "inv_order (set_tail i t' p)"
  by (rule order_tail_step [OF inv inv_orderD(1) [OF inv at], of _ t']) (use assms inv_orderD(2,3) [OF inv at] in \<open>simp_all add: set_tail_def\<close>)

lemma order_others [simp]: "inv_order (set_worker w x p) = inv_order p" "inv_order (set_main s p) = inv_order p"
  by (simp_all add: inv_order_def set_worker_def set_main_def)

lemma step_order:
  assumes "pipeline_step cap p p'" and inv: "inv_order p" and phase: "inv_phase p"
  shows "inv_order p'"
  using assms(1)
proof (cases rule: pipeline_step.cases)
  case (tail_line i l)
  note d = inv_orderD [OF inv tail_line(2)]
  show ?thesis by (rule order_tail_step [OF inv d(1), of _ "Received l"]) (use d in \<open>simp_all add: tail_line(1) pipeline_ops\<close>)
next
  case (tail_sends i t l)
  note d = inv_orderD [OF inv tail_sends(2)]
  have t: "t \<noteq> Gone" "held_line i t = [(i, l)]" using tail_sends(3) by auto
  note o = phase_open [OF phase tail_sends(2) t(1)]
  show ?thesis by (rule order_tail_step [OF inv d(1), of _ Sent])
    (use d(2,3) t o in \<open>simp_all add: tail_sends(1) send_job_def set_tail_def\<close>)
next
  case (tail_drops i t l)
  note d = inv_orderD [OF inv tail_drops(2)]
  have t: "t \<noteq> Gone" "held_line i t = [(i, l)]" using tail_drops(3) by auto
  show ?thesis by (rule order_tail_step [OF inv d(1), of _ Gone])
    (use d(2,3) t in \<open>simp_all add: tail_drops(1) drop_line_def set_tail_def\<close>)
next
  case (worker_takes w j js)
  then show ?thesis using inv by (cases j) (simp add: inv_order_def pipeline_ops)
next
  case (worker_completes w j)
  then show ?thesis using inv by (simp add: inv_order_def pipeline_ops)
next
  case cancel
  then show ?thesis using inv by (simp add: inv_order_def)
next
  case main_closes
  then show ?thesis using inv by (simp add: inv_order_def)
qed (use inv in \<open>auto simp: plain_ops intro: order_set_tail\<close>)

lemma sum_list_replicate_0 [simp]: "sum_list (replicate n (0 :: 'a :: comm_monoid_add)) = 0"
  by (induction n) simp_all

lemma reach_invariants:
  assumes "pipeline_reach cap files workerCount m p"
  shows "inv_order p \<and> inv_jobs cap p \<and> inv_phase p \<and> inv_counters m p
    \<and> length (pl_tails p) = files \<and> length (pl_workers p) = workerCount"
  using assms
proof induction
  case at_start
  show ?case
    by (simp add: start_pipeline_def inv_order_def inv_jobs_def inv_phase_def inv_counters_def)
next
  case (at_step p p')
  have "length (pl_tails p') = length (pl_tails p) \<and> length (pl_workers p') = length (pl_workers p)"
    using at_step.hyps(2) by cases (simp_all add: pipeline_ops)
  with at_step show ?case using step_order step_jobs step_phase step_counters by auto
qed

lemma reach_gauge:
  assumes "pipeline_reach cap files workerCount m p" and "queueDepth m = 0"
  shows "inv_gauge cap p"
  using assms
proof induction
  case at_start
  then show ?case by (auto simp: inv_gauge_def start_pipeline_def)
next
  case (at_step p p')
  then show ?case using step_gauge reach_invariants by blast
qed

lemma pipeline_values_pos:
  "pipeline_values c = (workerCount, queueSize) \<Longrightarrow> 0 < workerCount \<and> 0 < queueSize"
  by (auto simp: pipeline_values_def Let_def split: if_splits)

text \<open>The steps that are left when the tails have stopped.\<close>

fun worker_weight :: "worker_state \<Rightarrow> nat" where
  "worker_weight Idle = 1"
| "worker_weight (Taken j) = 5"
| "worker_weight (Sized j n) = 4"
| "worker_weight (Gauged j) = 3"
| "worker_weight (Busy j) = 2"
| "worker_weight Exited = 0"

definition drain_weight :: "pipeline \<Rightarrow> nat" where
  "drain_weight p = 5 * length (pl_jobs p) + (\<Sum>w \<leftarrow> pl_workers p. worker_weight w)"

lemma weight_bound: "(\<Sum>w \<leftarrow> ws. worker_weight w) \<le> 5 * length ws"
proof -
  have "worker_weight w \<le> 5" for w by (cases w) simp_all
  then show ?thesis using sum_list_mono [of ws worker_weight "\<lambda>_. 5"] by (simp add: sum_list_triv mult.commute)
qed

lemma draining:
  assumes "inv_phase p" and "pl_main p = Draining"
  shows "pl_closed p" "\<forall>t \<in> set (pl_tails p). t = Gone" "pl_cancelled p" "tail_at p i t \<Longrightarrow> t = Gone"
  using assms by (auto simp: inv_phase_def tail_at_def)

lemma drain_step_less:
  assumes "pipeline_step cap p p'" and "inv_phase p" and "pl_main p = Draining" and "pl_main p' = Draining"
  shows "p' = p \<or> drain_weight p' < drain_weight p"
  using assms(1)
proof cases
  case cancel
  then show ?thesis using draining(3) [OF assms(2,3)] by simp
next
  case (worker_takes w j js)
  then show ?thesis using sum_update [of w "pl_workers p" worker_weight "Taken j"] by (simp add: drain_weight_def pipeline_ops)
next
  case (worker_measures w j)
  then show ?thesis using sum_update [of w "pl_workers p" worker_weight "Sized j (length (pl_jobs p))"]
    by (simp add: drain_weight_def pipeline_ops)
next
  case (worker_gauges w j n)
  then show ?thesis using sum_update [of w "pl_workers p" worker_weight "Gauged j"] by (simp add: drain_weight_def pipeline_ops)
next
  case (worker_counts w j)
  then show ?thesis using sum_update [of w "pl_workers p" worker_weight "Busy j"] by (simp add: drain_weight_def pipeline_ops)
next
  case (worker_completes w j)
  then show ?thesis using sum_update [of w "pl_workers p" worker_weight Idle] by (simp add: drain_weight_def pipeline_ops)
next
  case (worker_exits w)
  then show ?thesis using sum_update [of w "pl_workers p" worker_weight Exited] by (simp add: drain_weight_def pipeline_ops)
qed (use draining(4) [OF assms(2,3)] assms(3,4) in \<open>auto simp: set_main_def\<close>)

text \<open>A step that moves a worker is a step to another state.\<close>

lemma worker_moved:
  assumes "worker_at p k w" and "pl_workers p' = (pl_workers p)[k := x]" and "x \<noteq> w"
  shows "p' \<noteq> p"
proof
  assume "p' = p"
  then have "pl_workers p ! k = (pl_workers p)[k := x] ! k" using assms(2) by metis
  also have "\<dots> = x" using assms(1) by (simp add: worker_at_def)
  finally show False using assms(1,3) by (simp add: worker_at_def)
qed

lemma drain_step_exists:
  assumes "inv_phase p" and "pl_main p = Draining" and "w \<in> set (pl_workers p)" and "w \<noteq> Exited"
  shows "\<exists>p'. pipeline_step cap p p' \<and> pl_main p' = Draining \<and> p' \<noteq> p"
proof -
  obtain k where k: "worker_at p k w" using assms(3) by (auto simp: worker_at_def in_set_conv_nth)
  have moved: ?thesis if "pipeline_step cap p p'" "pl_workers p' = (pl_workers p)[k := x]" "x \<noteq> w" "pl_main p' = pl_main p" for p' x
    using that assms(2) worker_moved [OF k that(2,3)] by auto
  show ?thesis
  proof (cases w)
    case Idle
    show ?thesis
    proof (cases "pl_jobs p")
      case Nil
      show ?thesis by (rule moved [OF worker_exits [OF k [unfolded Idle] draining(1) [OF assms(1,2)] Nil], of Exited])
        (simp_all add: Idle pipeline_ops)
    next
      case (Cons j js)
      show ?thesis by (rule moved [OF worker_takes [OF k [unfolded Idle] Cons], of "Taken j"]) (simp_all add: Idle pipeline_ops)
    qed
  next
    case (Taken j)
    show ?thesis by (rule moved [OF worker_measures [OF k [unfolded Taken]], of "Sized j (length (pl_jobs p))"]) (simp_all add: Taken pipeline_ops)
  next
    case (Sized j n)
    show ?thesis by (rule moved [OF worker_gauges [OF k [unfolded Sized]], of "Gauged j"]) (simp_all add: Sized pipeline_ops)
  next
    case (Gauged j)
    show ?thesis by (rule moved [OF worker_counts [OF k [unfolded Gauged]], of "Busy j"]) (simp_all add: Gauged pipeline_ops)
  next
    case (Busy j)
    show ?thesis by (rule moved [OF worker_completes [OF k [unfolded Busy]], of Idle]) (simp_all add: Busy pipeline_ops)
  qed (use assms(4) in simp)
qed

lemma drains:
  assumes "inv_phase p" and "pl_main p = Draining"
  shows "\<exists>p'. rtranclp (pipeline_step cap) p p' \<and> pl_main p' = Finished True"
  using assms
proof (induction "drain_weight p" arbitrary: p rule: less_induct)
  case less
  show ?case
  proof (cases "\<forall>w \<in> set (pl_workers p). w = Exited")
    case True
    from main_drained [OF less.prems(2) True, of cap] show ?thesis
      by (intro exI [of _ "set_main (Finished True) p"]) (simp add: r_into_rtranclp set_main_def)
  next
    case False
    then obtain p1 where p1: "pipeline_step cap p p1" "pl_main p1 = Draining" "p1 \<noteq> p"
      using drain_step_exists [OF less.prems] by blast
    have "drain_weight p1 < drain_weight p" using drain_step_less [OF p1(1) less.prems p1(2)] p1(3) by simp
    from less.hyps [OF this step_phase [OF p1(1) less.prems(1)] p1(2)] p1(1) show ?thesis
      by (meson converse_rtranclp_into_rtranclp)
  qed
qed


section \<open>Properties\<close>

lemma config_reachD:
  assumes "config_reach c files m p"
  obtains workerCount queueSize where "pipeline_values c = (int workerCount, int queueSize)" "0 < workerCount" "0 < queueSize"
    "pipeline_reach queueSize files workerCount m p"
proof -
  obtain w q where v: "pipeline_values c = (w, q)" by fastforce
  with pipeline_values_pos [OF v] assms that [of "nat w" "nat q"] show thesis by (simp add: config_reach_def)
qed

text \<open>
  C4. The lines of a file are neither lost, doubled nor reordered: the lines read from it are, in their order, those that a worker has
  started, those in the channel, the one that its goroutine holds and the one that it dropped; it drops at most one, when
  the shutdown interrupts it.
\<close>

theorem lines_in_order:
  assumes "config_reach c files m p" and "i < files"
  shows "of_tail i (hi_received p) = of_tail i (hi_started p) @ of_tail i (pl_jobs p) @ held_line i (pl_tails p ! i) @ of_tail i (hi_dropped p)
    \<and> length (of_tail i (hi_dropped p)) \<le> 1
    \<and> (hi_dropped p \<noteq> [] \<longrightarrow> pl_cancelled p)"
proof -
  obtain w q where "pipeline_reach q files w m p" using config_reachD [OF assms(1)] by metis
  from reach_invariants [OF this] assms(2) show ?thesis by (simp add: inv_order_def inv_phase_def)
qed

text \<open>
  C21. The channel stays within its capacity, nothing is sent on it after it was closed, and every job that was taken is being
  processed by one worker or was completed once. The counters that the metrics export are, up to the lines and jobs that a
  goroutine has yet to count, the numbers of lines received and jobs taken and completed (modulo 2^64); the gauge of the
  channel's depth, which may be stale, stays between zero and the capacity.
\<close>

theorem pipeline_accounting:
  assumes "config_reach c files m p" and "queueDepth m = 0"
  shows "int (length (pl_jobs p)) \<le> snd (pipeline_values c) \<and> \<not> pl_panic p
    \<and> mset (hi_started p) = mset (hi_completed p) + (\<Sum>w \<leftarrow> pl_workers p. busy_job w)
    \<and> 0 \<le> queueDepth (pl_metrics p) \<and> queueDepth (pl_metrics p) \<le> snd (pipeline_values c)
    \<and> linesRead (pl_metrics p) + of_nat (\<Sum>t \<leftarrow> pl_tails p. uncounted_line t) = linesRead m + of_nat (length (hi_received p))
    \<and> jobsStarted (pl_metrics p) + of_nat (\<Sum>w \<leftarrow> pl_workers p. uncounted_job w) = jobsStarted m + of_nat (length (hi_started p))
    \<and> jobsCompleted (pl_metrics p) = jobsCompleted m + of_nat (length (hi_completed p))"
proof -
  obtain w q where v: "pipeline_values c = (int w, int q)" and "pipeline_reach q files w m p" using config_reachD [OF assms(1)] by metis
  from reach_invariants [OF this(2)] reach_gauge [OF this(2) assms(2)] v show ?thesis
    by (simp add: inv_jobs_def inv_phase_def inv_counters_def inv_gauge_def)
qed

text \<open>
  C14. A drained shutdown has processed what was read: when main finds the pipeline drained, every line that was read from a file
  has been processed, but for at most one per file, which its goroutine held when the shutdown began.
\<close>

theorem drained_all_processed:
  assumes "config_reach c files m p" and "pl_main p = Finished True"
  shows "mset (hi_started p) = mset (hi_completed p)
    \<and> (\<forall>i < files. of_tail i (hi_received p) = of_tail i (hi_started p) @ of_tail i (hi_dropped p)
         \<and> length (of_tail i (hi_dropped p)) \<le> 1)"
proof -
  obtain w q where w: "0 < w" and r: "pipeline_reach q files w m p" using config_reachD [OF assms(1)] by metis
  note inv = reach_invariants [OF r]
  have ex: "\<forall>x \<in> set (pl_workers p). x = Exited" and gone: "\<forall>t \<in> set (pl_tails p). t = Gone"
    using inv assms(2) by (auto simp: inv_phase_def)
  have "pl_workers p \<noteq> []" using inv w by auto
  then have "Exited \<in> set (pl_workers p)" using ex by (metis last_in_set)
  then have jobs: "pl_jobs p = []" using inv by (simp add: inv_phase_def)
  have "(\<Sum>x \<leftarrow> ws. busy_job x) = {#}" if "\<forall>x \<in> set ws. x = Exited" for ws using that by (induction ws) simp_all
  then have "mset (hi_started p) = mset (hi_completed p)" using inv ex by (simp add: inv_jobs_def)
  moreover have "held_line i (pl_tails p ! i) = []" if "i < files" for i
    using bspec [OF gone nth_mem, of i] inv that by simp
  ultimately show ?thesis using inv jobs by (simp add: inv_order_def)
qed

text \<open>
  C13. The shutdown comes to its end: once the channel is closed, the workers can always bring the pipeline to the state that main
  calls drained, and until main leaves this phase every step brings them closer, so at most
  \<open>5 (queue_size + workers)\<close> steps are left whatever the scheduler does.
\<close>

theorem shutdown_drains:
  assumes "config_reach c files m p" and "pl_main p = Draining"
  shows "(\<exists>p'. rtranclp (pipeline_step (nat (snd (pipeline_values c)))) p p' \<and> pl_main p' = Finished True)
    \<and> (\<forall>p'. pipeline_step (nat (snd (pipeline_values c))) p p' \<longrightarrow> pl_main p' = Draining
          \<longrightarrow> p' = p \<or> drain_weight p' < drain_weight p)
    \<and> int (drain_weight p) \<le> 5 * (snd (pipeline_values c) + fst (pipeline_values c))"
proof -
  obtain w q where v: "pipeline_values c = (int w, int q)" and r: "pipeline_reach q files w m p" using config_reachD [OF assms(1)] by metis
  note inv = reach_invariants [OF r]
  have ph: "inv_phase p" using inv by blast
  have "drain_weight p \<le> 5 * q + 5 * w"
    using inv weight_bound [of "pl_workers p"] by (simp add: drain_weight_def inv_jobs_def)
  then show ?thesis using drains [OF ph assms(2)] drain_step_less [OF _ ph assms(2)] v by auto
qed

text \<open>A run: one file, one worker, a channel for one line; the shutdown comes when the channel holds a line.\<close>

definition small_config :: PipelineConfig where
  "small_config = \<lparr>pl_Workers = 1, pl_QueueSize = 1\<rparr>"

text \<open>The line is in the channel, and its length has been read but not stored.\<close>

definition measured_pipeline :: pipeline where
  "measured_pipeline = set_tail 0 (Tail_sized 1) (send_job 0 ''a'' (stamp_line 0 ''a'' 7 (count_line 0 ''a'' (receive_line 0 ''a''
     (set_tail 0 Reading (start_pipeline 1 1 (newTelemetry 0)))))))"

definition full_pipeline :: pipeline where
  "full_pipeline = set_tail 0 Reading (store_depth 1 measured_pipeline)"

definition draining_pipeline :: pipeline where
  "draining_pipeline =
     (set_main Stopping (change_metrics (\<lambda>m. m\<lparr>ready := False\<rparr>) (set_main Quitting (change_metrics (\<lambda>m. m\<lparr>shuttingDown := True\<rparr>)
       (set_main Serving (change_metrics (\<lambda>m. m\<lparr>ready := True\<rparr>) (set_tail 0 Gone (full_pipeline\<lparr>pl_cancelled := True\<rparr>))))))))
     \<lparr>pl_main := Draining, pl_closed := True\<rparr>"

text \<open>A worker takes a job and completes it.\<close>

definition worked :: "nat \<Rightarrow> job \<Rightarrow> pipeline \<Rightarrow> pipeline" where
  "worked w j p =
     (let p = take_job w j [] p in complete_job w j (count_job w j (set_worker w (Gauged j) (store_depth 0 (set_worker w (Sized j 0) p)))))"

lemma measured_reach: "pipeline_reach 1 1 1 (newTelemetry 0) measured_pipeline"
proof -
  let ?p = "send_job 0 ''a'' (stamp_line 0 ''a'' 7 (count_line 0 ''a'' (receive_line 0 ''a''
     (set_tail 0 Reading (start_pipeline 1 1 (newTelemetry 0))))))"
  have "pipeline_reach 1 1 1 (newTelemetry 0) ?p"
    by (rule at_step [OF at_step [OF at_step [OF at_step [OF at_step [OF at_start tail_opens] tail_line] tail_counts] tail_stamps]
          tail_sends [where t = "Offering ''a''"]]) (simp_all add: pipeline_ops start_pipeline_def)
  from at_step [OF this tail_measures [of _ 0]] show ?thesis
    by (simp add: measured_pipeline_def) (simp add: pipeline_ops start_pipeline_def)
qed

lemma full_reach: "pipeline_reach 1 1 1 (newTelemetry 0) full_pipeline"
  unfolding full_pipeline_def
  by (rule at_step [OF measured_reach tail_gauges]) (simp add: measured_pipeline_def pipeline_ops start_pipeline_def)

lemma draining_reach: "pipeline_reach 1 1 1 (newTelemetry 0) draining_pipeline"
  unfolding draining_pipeline_def
  by (rule at_step [OF at_step [OF at_step [OF at_step [OF at_step [OF at_step [OF full_reach cancel] tail_returns [where t = Reading]]
        main_serves] main_quits] main_stops] main_closes])
    (simp_all add: full_pipeline_def measured_pipeline_def pipeline_ops start_pipeline_def)

lemma worked_reach:
  assumes "pipeline_reach cap files n m p" and "worker_at p w Idle" and "pl_jobs p = [j]"
  shows "pipeline_reach cap files n m (worked w j p)"
proof -
  let ?p = "take_job w j [] p"
  have "pipeline_reach cap files n m ?p" using assms by (blast intro: at_step worker_takes)
  moreover have "pipeline_step cap ?p (set_worker w (Sized j 0) ?p)"
    using worker_measures [of ?p w j cap] assms(2) by (simp add: pipeline_ops)
  ultimately have "pipeline_reach cap files n m (set_worker w (Sized j 0) ?p)" by (rule at_step)
  then show ?thesis
    unfolding worked_def Let_def
    by (elim at_step [OF at_step [OF at_step [OF _ worker_gauges] worker_counts] worker_completes])
      (use assms(2) in \<open>simp_all add: pipeline_ops\<close>)
qed

lemma small_values: "pipeline_values small_config = (1, 1)"
  by (simp add: small_config_def pipeline_values_def)

lemma small_reach: "config_reach small_config 1 (newTelemetry 0) p = pipeline_reach 1 1 1 (newTelemetry 0) p"
  by (simp add: config_reach_def small_values)

text \<open>
  The gauge can be stale for as long as no line arrives: the tail read the length of the channel after its send, the worker emptied the channel and
  stored zero, and then the tail stores one.
\<close>

theorem gauge_stays_stale:
  "\<exists>p. config_reach small_config 1 (newTelemetry 0) p \<and> pl_tails p = [Reading] \<and> pl_workers p = [Idle] \<and> pl_jobs p = []
     \<and> queueDepth (pl_metrics p) = 1"
proof -
  let ?p = "set_tail 0 Reading (store_depth 1 (worked 0 (0, ''a'') measured_pipeline))"
  have "pipeline_reach 1 1 1 (newTelemetry 0) (worked 0 (0, ''a'') measured_pipeline)"
    by (rule worked_reach [OF measured_reach]) (simp_all add: measured_pipeline_def pipeline_ops start_pipeline_def)
  then have "pipeline_reach 1 1 1 (newTelemetry 0) ?p"
    by (rule at_step [OF _ tail_gauges]) (simp add: worked_def measured_pipeline_def pipeline_ops start_pipeline_def)
  moreover have "pl_tails ?p = [Reading] \<and> pl_workers ?p = [Idle] \<and> pl_jobs ?p = [] \<and> queueDepth (pl_metrics ?p) = 1"
    by (simp add: worked_def measured_pipeline_def pipeline_ops start_pipeline_def)
  ultimately show ?thesis unfolding small_reach by blast
qed

theorem lines_in_order_witness:
  "of_tail 0 (hi_received full_pipeline) = [(0, ''a'')] \<and> of_tail 0 (pl_jobs full_pipeline) = [(0, ''a'')]"
  using lines_in_order [OF full_reach [folded small_reach], of 0]
  by (simp add: full_pipeline_def measured_pipeline_def pipeline_ops start_pipeline_def)

theorem pipeline_accounting_witness:
  "int (length (pl_jobs full_pipeline)) \<le> 1 \<and> linesRead (pl_metrics full_pipeline) = 1 \<and> queueDepth (pl_metrics full_pipeline) \<le> 1"
  using pipeline_accounting [OF full_reach [folded small_reach]]
  by (simp add: small_values) (simp add: full_pipeline_def measured_pipeline_def pipeline_ops start_pipeline_def newTelemetry_def)

text \<open>The worker takes the last line, completes it and returns; main finds the pipeline drained.\<close>

definition drained_pipeline :: pipeline where
  "drained_pipeline = set_main (Finished True) (set_worker 0 Exited (worked 0 (0, ''a'') draining_pipeline))"

lemmas run_simps = drained_pipeline_def worked_def draining_pipeline_def full_pipeline_def measured_pipeline_def start_pipeline_def pipeline_ops

lemma drained_reach: "pipeline_reach 1 1 1 (newTelemetry 0) drained_pipeline"
proof -
  have "pipeline_reach 1 1 1 (newTelemetry 0) (worked 0 (0, ''a'') draining_pipeline)"
    by (rule worked_reach [OF draining_reach]) (simp_all add: run_simps)
  then show ?thesis
    unfolding drained_pipeline_def by (elim at_step [OF at_step [OF _ worker_exits] main_drained]) (simp_all add: run_simps)
qed

theorem drained_all_processed_witness:
  "pl_main drained_pipeline = Finished True \<and> mset (hi_started drained_pipeline) = mset (hi_completed drained_pipeline)
   \<and> hi_completed drained_pipeline = [(0, ''a'')]"
proof -
  have f: "pl_main drained_pipeline = Finished True" by (simp add: drained_pipeline_def set_main_def)
  have c: "hi_completed drained_pipeline = [(0, ''a'')]" by (simp add: run_simps)
  from drained_all_processed [OF drained_reach [folded small_reach] f] f c show ?thesis by blast
qed

theorem shutdown_drains_witness:
  "pl_main draining_pipeline = Draining \<and> (\<exists>p'. rtranclp (pipeline_step 1) draining_pipeline p' \<and> pl_main p' = Finished True)"
proof -
  have "pl_main draining_pipeline = Draining" by (simp add: draining_pipeline_def)
  from shutdown_drains [OF draining_reach [folded small_reach] this] this show ?thesis by (simp add: small_values)
qed

end
