(* ===== verification/Daemon.thy ===== *)
theory Daemon
  imports Incident Excludes_Snapshot Pipeline
begin

text \<open>
  The loops and the start-up of main.go around the pipeline: the watchdog for files that stop growing, the check for the virtual IP
  address that makes an instance the active one, the offsets at which a tail is opened again, the gauge of the outbox, the log files
  that are opened again on SIGHUP, the excludes that a start restores from the snapshot, and the time the
  shutdown waits for the workers.
\<close>

section \<open>The active instance\<close>

text \<open>\<open>net.InterfaceAddrs\<close> answers with an error or with addresses; those that are an \<open>*net.IPNet\<close> print as an IP address.\<close>

definition hasVIP :: "string option list result \<Rightarrow> string \<Rightarrow> bool" where
  "hasVIP addrs vip = (case addrs of Inl e \<Rightarrow> False | Inr as \<Rightarrow> list_ex (\<lambda>a. a = Some vip) as)"

text \<open>The function that main gives to the incident aggregator.\<close>

definition incidentsActive :: "Config \<Rightarrow> string option list result \<Rightarrow> bool" where
  "incidentsActive cfg addrs = hasVIP addrs (sa_VIP (cf_StaleAlert cfg))"

section \<open>The watchdog\<close>

text \<open>What one tick finds: the addresses, the time of the last modification of the file, the clock.\<close>

record watch_tick =
  wt_addrs :: "string option list result"
  wt_modTime :: "instant result"
  wt_now :: instant

record 'w watch_state =
  wa_alerted :: bool
  wa_net :: 'w
  wa_metrics :: "telemetry option"
  wa_alertLog :: "string list"

definition stale_threshold :: "StaleAlertConfig \<Rightarrow> duration" where
  "stale_threshold cfg = dur_mul (sa_ThresholdMinutes cfg) Minute"

definition stale_message :: "string \<Rightarrow> StaleAlertConfig \<Rightarrow> string" where
  "stale_message path cfg =
     '':warning: No new logs in '' @ [byte_char 96] @ path @ [byte_char 96] @ '' for >'' @ Itoa (sa_ThresholdMinutes cfg)
       @ '' minutes '' @ em_dash @ '' log pipeline may be broken''"

definition stale_card :: "string \<Rightarrow> StaleAlertConfig \<Rightarrow> tintwireCard" where
  "stale_card path cfg =
     \<lparr>tc_Version = 1, tc_Channel = [], tc_Title = ''Log pipeline stale'',
      tc_Summary = ''No new logs for more than '' @ Itoa (sa_ThresholdMinutes cfg) @ '' minutes'', tc_Severity = ''critical'',
      tc_Source = ''clattermark'', tc_Fields = [\<lparr>tf_Label = ''Path'', tf_Value = path\<rparr>], tc_Actions = []\<rparr>"

definition watch_step ::
  "'w http_env \<Rightarrow> string \<Rightarrow> StaleAlertConfig \<Rightarrow> notificationClient \<Rightarrow> string \<Rightarrow> watch_tick \<Rightarrow> 'w watch_state \<Rightarrow> 'w watch_state" where
  "watch_step henv path cfg notifier iconURL tick s =
     (if \<not> hasVIP (wt_addrs tick) (sa_VIP cfg) then s\<lparr>wa_alerted := False\<rparr>
      else case wt_modTime tick of
        Inl e \<Rightarrow> s
      | Inr modified \<Rightarrow>
          if time_Sub (wt_now tick) modified > stale_threshold cfg then
            (if \<not> wa_alerted s then
               (let msg = stale_message path cfg;
                    (err, w) = Send henv notifier (stale_card path cfg) ''clattermark'' [] msg iconURL (wa_net s)
                in s\<lparr>wa_alertLog := wa_alertLog s @ [msg], wa_net := w, wa_alerted := True,
                     wa_metrics := (if err = None then wa_metrics s else incr notificationFailures_update (wa_metrics s))\<rparr>)
             else s)
          else s\<lparr>wa_alerted := False\<rparr>)"

definition watchFileActivity ::
  "'w http_env \<Rightarrow> string \<Rightarrow> StaleAlertConfig \<Rightarrow> notificationClient \<Rightarrow> string \<Rightarrow> watch_tick list \<Rightarrow> 'w watch_state \<Rightarrow> 'w watch_state" where
  "watchFileActivity henv path cfg notifier iconURL ticks s =
     (if sa_VIP cfg = '''' \<or> sa_ThresholdMinutes cfg = 0 then s
      else fold (watch_step henv path cfg notifier iconURL) ticks (s\<lparr>wa_alerted := False\<rparr>))"

section \<open>The offsets of a tail\<close>

text \<open>
  One round of a tail's loop: \<open>Stat\<close> failed, \<open>TailFile\<close> failed on a file of this size, or the tail ran and stopped; then \<open>Tell\<close>
  gave the offset where it stood, or failed. The state is \<open>offsetInitialized\<close> and \<open>nextOffset\<close>.
\<close>

datatype tail_round = Stat_failed | Open_failed int | Tailed int "int option"

definition seek_offset :: "bool \<Rightarrow> int \<Rightarrow> int \<Rightarrow> int" where
  "seek_offset initialized nextOffset fileSize =
     (if \<not> initialized then fileSize else if nextOffset > fileSize then 0 else nextOffset)"

text \<open>The offsets at which the tail is opened, each with the size of the file at that time.\<close>

fun tail_seeks :: "bool \<Rightarrow> int \<Rightarrow> tail_round list \<Rightarrow> (int \<times> int) list" where
  "tail_seeks initialized nextOffset [] = []"
| "tail_seeks initialized nextOffset (Stat_failed # rs) = tail_seeks initialized nextOffset rs"
| "tail_seeks initialized nextOffset (Open_failed fileSize # rs) = tail_seeks True (seek_offset initialized nextOffset fileSize) rs"
| "tail_seeks initialized nextOffset (Tailed fileSize tell # rs) =
     (let nextOffset = seek_offset initialized nextOffset fileSize
      in (nextOffset, fileSize) # tail_seeks True (case tell of None \<Rightarrow> nextOffset | Some offset \<Rightarrow> offset) rs)"

text \<open>A tail that stopped is reported before it is opened again: the alert log, the notification, the counters.\<close>

definition tail_stopped_message :: "string \<Rightarrow> string" where
  "tail_stopped_message monFile =
     '':warning: Log tail stopped for '' @ [byte_char 96] @ monFile @ [byte_char 96] @ ''; retrying in 5 seconds''"

definition tail_stopped_card :: "string \<Rightarrow> tintwireCard" where
  "tail_stopped_card monFile =
     \<lparr>tc_Version = 1, tc_Channel = [], tc_Title = ''Log tail stopped'',
      tc_Summary = ''Log monitoring stopped unexpectedly and will be restarted'', tc_Severity = ''critical'',
      tc_Source = ''clattermark'', tc_Fields = [\<lparr>tf_Label = ''Path'', tf_Value = monFile\<rparr>], tc_Actions = []\<rparr>"

definition report_tail_stopped ::
  "'w http_env \<Rightarrow> notificationClient \<Rightarrow> string \<Rightarrow> string \<Rightarrow> 'w \<times> telemetry \<times> string list \<Rightarrow> 'w \<times> telemetry \<times> string list" where
  "report_tail_stopped henv notifier iconURL monFile s =
     (let (w, m, alog) = s; msg = tail_stopped_message monFile;
          m = m\<lparr>tailRestarts := tailRestarts m + 1\<rparr>;
          (err, w) = Send henv notifier (tail_stopped_card monFile) ''clattermark'' [] msg iconURL w
      in (w, if err = None then m else m\<lparr>notificationFailures := notificationFailures m + 1\<rparr>, alog @ [msg]))"

section \<open>The gauge of the outbox\<close>

text \<open>One sample, with the circumstances of its request; nothing is sampled without metrics.\<close>

definition sample_outbox :: "'r redis_env \<Rightarrow> 'r step_env \<Rightarrow> 'r \<times> telemetry \<Rightarrow> 'r \<times> telemetry" where
  "sample_outbox env c s =
     (let (st, m) = s; (f, net, ms) = c
      in case QueueLength env net ms recovery_outbox_key (f st) of
           (Inl e, st') \<Rightarrow> (st', m\<lparr>keyDBFailures := keyDBFailures m + 1\<rparr>)
         | (Inr n, st') \<Rightarrow> (st', m\<lparr>incidentOutboxDepth := n\<rparr>))"

definition sampleOutboxDepth :: "'r redis_env \<Rightarrow> 'r step_env \<Rightarrow> 'r step_env list \<Rightarrow> 'r \<times> telemetry \<Rightarrow> 'r \<times> telemetry" where
  "sampleOutboxDepth env first ticks s = fold (sample_outbox env) (first # ticks) s"

section \<open>The log files\<close>

text \<open>An open file is a descriptor; the two logs and the descriptors that they write to.\<close>

record log_files =
  lf_open :: "nat set"
  lf_log :: nat
  lf_alert :: nat
  lf_logOutput :: nat
  lf_alertOutput :: nat

definition reopenLogFiles :: "nat result \<Rightarrow> nat result \<Rightarrow> log_files \<Rightarrow> go_error option \<times> log_files" where
  "reopenLogFiles openLog openAlert s =
     (case openLog of
        Inl err \<Rightarrow> (Some (ErrWrap ''reopen main log'' err), s)
      | Inr newLog \<Rightarrow>
          (let s = s\<lparr>lf_open := insert newLog (lf_open s)\<rparr>
           in case openAlert of
                Inl err \<Rightarrow> (Some (ErrWrap ''reopen alert log'' err), s\<lparr>lf_open := lf_open s - {newLog}\<rparr>)
              | Inr newAlert \<Rightarrow>
                  (None, s\<lparr>lf_logOutput := newLog, lf_alertOutput := newAlert, lf_log := newLog, lf_alert := newAlert,
                     lf_open := insert newAlert (lf_open s) - {lf_log s} - {lf_alert s}\<rparr>)))"

section \<open>Start and shutdown\<close>

text \<open>What the server answered and what the snapshot file says; \<open>net\<close> and \<open>ms\<close> are of the request that restores the excludes.\<close>

definition restore_excludes ::
  "'r redis_env \<Rightarrow> net \<Rightarrow> int \<Rightarrow> excludes \<Rightarrow> excludes result \<Rightarrow> 'r \<Rightarrow> excludes \<times> 'r" where
  "restore_excludes env net ms dynamicExcludes snapshot st =
     (case snapshot of
        Inl err \<Rightarrow> (dynamicExcludes, st)
      | Inr snapshotExcludes \<Rightarrow>
          if length dynamicExcludes = 0 \<and> 0 < length snapshotExcludes
          then (snapshotExcludes, snd (SetDynExcludes env net ms snapshotExcludes st))
          else (dynamicExcludes, st))"

definition drain_timeout :: "DecisionServiceConfig \<Rightarrow> duration" where
  "drain_timeout cfg =
     (let drainTimeout = 30 * Second
      in if ds_Enabled cfg \<and> wrap64 (decisionTimeout cfg + 5 * Second) > drainTimeout
         then wrap64 (decisionTimeout cfg + 5 * Second) else drainTimeout)"


section \<open>The watchdog: properties\<close>

definition stale_tick :: "StaleAlertConfig \<Rightarrow> watch_tick \<Rightarrow> bool" where
  "stale_tick cfg tick \<longleftrightarrow> hasVIP (wt_addrs tick) (sa_VIP cfg)
     \<and> (case wt_modTime tick of Inl e \<Rightarrow> False | Inr modified \<Rightarrow> time_Sub (wt_now tick) modified > stale_threshold cfg)"

definition calm_tick :: "StaleAlertConfig \<Rightarrow> watch_tick \<Rightarrow> bool" where
  "calm_tick cfg tick \<longleftrightarrow> \<not> hasVIP (wt_addrs tick) (sa_VIP cfg)
     \<or> (case wt_modTime tick of Inl e \<Rightarrow> False | Inr modified \<Rightarrow> \<not> time_Sub (wt_now tick) modified > stale_threshold cfg)"

text \<open>At tick \<open>n\<close> the file has been stale since some tick, with no calm tick in between.\<close>

definition stale_since :: "StaleAlertConfig \<Rightarrow> watch_tick list \<Rightarrow> nat \<Rightarrow> bool" where
  "stale_since cfg ticks n \<longleftrightarrow> (\<exists>j < n. stale_tick cfg (ticks ! j) \<and> (\<forall>k. j < k \<and> k < n \<longrightarrow> \<not> calm_tick cfg (ticks ! k)))"

definition episode_starts :: "StaleAlertConfig \<Rightarrow> watch_tick list \<Rightarrow> nat set" where
  "episode_starts cfg ticks = {n. n < length ticks \<and> stale_tick cfg (ticks ! n) \<and> \<not> stale_since cfg ticks n}"

lemma stale_not_calm: "stale_tick cfg t \<Longrightarrow> \<not> calm_tick cfg t"
  by (auto simp: stale_tick_def calm_tick_def split: sum.splits)

lemma watch_step_alerts:
  "wa_alerted (watch_step henv path cfg nt icon t s) = (stale_tick cfg t \<or> (wa_alerted s \<and> \<not> calm_tick cfg t))"
  "wa_alertLog (watch_step henv path cfg nt icon t s)
     = wa_alertLog s @ (if stale_tick cfg t \<and> \<not> wa_alerted s then [stale_message path cfg] else [])"
  by (auto simp: watch_step_def stale_tick_def calm_tick_def Let_def split: sum.splits prod.splits)

lemma stale_since_snoc: "n \<le> length ts \<Longrightarrow> stale_since cfg (ts @ [t]) n = stale_since cfg ts n"
  unfolding stale_since_def by (intro ex_cong1) (auto simp: nth_append)

lemma stale_since_Suc:
  "stale_since cfg (ts @ [t]) (Suc (length ts)) \<longleftrightarrow> stale_tick cfg t \<or> (stale_since cfg ts (length ts) \<and> \<not> calm_tick cfg t)"
proof
  assume "stale_since cfg (ts @ [t]) (Suc (length ts))"
  then obtain j where j: "j < Suc (length ts)" "stale_tick cfg ((ts @ [t]) ! j)"
    "\<forall>k. j < k \<and> k < Suc (length ts) \<longrightarrow> \<not> calm_tick cfg ((ts @ [t]) ! k)" unfolding stale_since_def by blast
  show "stale_tick cfg t \<or> (stale_since cfg ts (length ts) \<and> \<not> calm_tick cfg t)"
  proof (cases "j = length ts")
    case True
    then show ?thesis using j(2) by simp
  next
    case False
    then have jl: "j < length ts" using j(1) by simp
    have "\<not> calm_tick cfg (ts ! k)" if "j < k" "k < length ts" for k
      using j(3) [rule_format, of k] that by (simp add: nth_append)
    then have "stale_since cfg ts (length ts)" using j(2) jl by (auto simp: stale_since_def nth_append)
    moreover have "\<not> calm_tick cfg t" using j(3) [rule_format, of "length ts"] jl by simp
    ultimately show ?thesis by blast
  qed
next
  assume "stale_tick cfg t \<or> (stale_since cfg ts (length ts) \<and> \<not> calm_tick cfg t)"
  then show "stale_since cfg (ts @ [t]) (Suc (length ts))"
  proof
    assume "stale_tick cfg t"
    then show ?thesis unfolding stale_since_def by (intro exI [of _ "length ts"]) (auto simp: less_Suc_eq)
  next
    assume a: "stale_since cfg ts (length ts) \<and> \<not> calm_tick cfg t"
    then obtain j where j: "j < length ts" "stale_tick cfg (ts ! j)" "\<forall>k. j < k \<and> k < length ts \<longrightarrow> \<not> calm_tick cfg (ts ! k)"
      unfolding stale_since_def by blast
    have "\<not> calm_tick cfg ((ts @ [t]) ! k)" if "j < k" "k < Suc (length ts)" for k
      using j(3) a that by (cases "k = length ts") (auto simp: nth_append)
    with j show ?thesis unfolding stale_since_def by (intro exI [of _ j]) (auto simp: nth_append)
  qed
qed

lemma episode_starts_snoc:
  "episode_starts cfg (ts @ [t]) =
     episode_starts cfg ts \<union> (if stale_tick cfg t \<and> \<not> stale_since cfg ts (length ts) then {length ts} else {})"
  by (auto simp: episode_starts_def nth_append stale_since_snoc less_Suc_eq)

lemma finite_episodes: "finite (episode_starts cfg ts)" "length ts \<notin> episode_starts cfg ts"
  by (simp_all add: episode_starts_def)

lemma watch_fold:
  assumes "\<not> wa_alerted s"
  shows "wa_alertLog (fold (watch_step henv path cfg nt icon) ts s)
      = wa_alertLog s @ replicate (card (episode_starts cfg ts)) (stale_message path cfg)
    \<and> wa_alerted (fold (watch_step henv path cfg nt icon) ts s) = stale_since cfg ts (length ts)"
proof (induction ts rule: rev_induct)
  case Nil
  then show ?case using assms by (simp add: episode_starts_def stale_since_def)
next
  case (snoc t ts)
  then show ?case
    using stale_not_calm [of cfg t]
    by (auto simp: watch_step_alerts episode_starts_snoc stale_since_Suc finite_episodes replicate_append_same)
qed

text \<open>
  C24. One alert for each time that a file goes stale: the watchdog appends to the alert log exactly one message for each tick at which the
  file became stale on the active instance; while it stays stale, even across ticks whose \<open>Stat\<close> fails, there is no
  further one, and after a tick that finds it growing again or the address gone the next stale tick alerts
  again.
\<close>

theorem watchdog_alerts_once:
  "wa_alertLog (watchFileActivity henv path cfg notifier iconURL ticks s)
   = wa_alertLog s @ (if sa_VIP cfg = '''' \<or> sa_ThresholdMinutes cfg = 0 then []
       else replicate (card (episode_starts cfg ticks)) (stale_message path cfg))"
  using watch_fold [of "s\<lparr>wa_alerted := False\<rparr>" henv path cfg notifier iconURL ticks] by (simp add: watchFileActivity_def)


section \<open>Offsets, log files, start: properties\<close>

definition round_ok :: "tail_round \<Rightarrow> bool" where
  "round_ok r = (case r of Stat_failed \<Rightarrow> True | Open_failed n \<Rightarrow> 0 \<le> n | Tailed n tell \<Rightarrow> 0 \<le> n \<and> (\<forall>t. tell = Some t \<longrightarrow> 0 \<le> t))"

lemma tail_seeks_within:
  "list_all round_ok rs \<Longrightarrow> (initialized \<longrightarrow> 0 \<le> off) \<Longrightarrow> \<forall>(seek, fileSize) \<in> set (tail_seeks initialized off rs). 0 \<le> seek \<and> seek \<le> fileSize"
proof (induction initialized off rs rule: tail_seeks.induct)
  case (4 initialized nextOffset fileSize tell rs)
  let ?o = "seek_offset initialized nextOffset fileSize"
  have o: "0 \<le> ?o" "?o \<le> fileSize" using 4 by (auto simp: seek_offset_def round_ok_def)
  have "0 \<le> (case tell of None \<Rightarrow> ?o | Some offset \<Rightarrow> offset)" using 4 o by (auto simp: round_ok_def split: option.splits)
  with 4 o show ?case by (simp add: Let_def)
qed (auto simp: seek_offset_def round_ok_def)

text \<open>
  Where a tail starts to read: always within the file; the first time at its end, so nothing that was there before is alerted
  on; after a stop at the offset where it stood when the file has not become shorter, so no line is read twice or skipped, and
  at the start of a file that was truncated or replaced.
\<close>

theorem tail_offsets:
  assumes "list_all round_ok rounds"
  shows "(\<forall>(seek, fileSize) \<in> set (tail_seeks False 0 rounds). 0 \<le> seek \<and> seek \<le> fileSize)
    \<and> (\<forall>fileSize tell. hd (tail_seeks False 0 (Tailed fileSize tell # rounds)) = (fileSize, fileSize))
    \<and> (\<forall>initialized off n m tell. hd (tl (tail_seeks initialized off (Tailed n (Some m) # Tailed k tell # rounds)))
         = (if m \<le> k then m else 0, k))"
  using tail_seeks_within [OF assms, of False 0] by (simp add: seek_offset_def Let_def)

theorem tail_offsets_witness:
  "tail_seeks False 0 [Stat_failed, Tailed 10 (Some 25), Open_failed 30, Tailed 30 (Some 40), Tailed 5 None] = [(10, 10), (25, 30), (0, 5)]
   \<and> (\<forall>(seek, fileSize) \<in> set [(10, 10), (25, 30), (0, 5 :: int)]. 0 \<le> seek \<and> seek \<le> fileSize)"
proof -
  have r: "tail_seeks False 0 [Stat_failed, Tailed 10 (Some 25), Open_failed 30, Tailed 30 (Some 40), Tailed 5 None] = [(10, 10), (25, 30), (0, 5)]"
    by (simp add: seek_offset_def)
  have "list_all round_ok [Stat_failed, Tailed 10 (Some 25), Open_failed 30, Tailed 30 (Some 40), Tailed 5 None]"
    by (simp add: round_ok_def)
  from tail_offsets [OF this, of 0] show ?thesis unfolding r by blast
qed

text \<open>The process has exactly its two logs open and writes to them.\<close>

definition log_files_ok :: "log_files \<Rightarrow> bool" where
  "log_files_ok s \<longleftrightarrow> lf_open s = {lf_log s, lf_alert s} \<and> lf_log s \<noteq> lf_alert s
     \<and> lf_logOutput s = lf_log s \<and> lf_alertOutput s = lf_alert s"

text \<open>
  Opening the logs again is all or nothing and leaks no descriptor: on success both logs are the new files, on an error both are the old
  ones, and in each case exactly the two logs stay open and the process writes to them.
\<close>

theorem reopenLogFiles_all_or_nothing:
  assumes "log_files_ok s" and "\<forall>d. openLog = Inr d \<longrightarrow> d \<notin> lf_open s"
    and "\<forall>d. openAlert = Inr d \<longrightarrow> d \<notin> lf_open s \<and> openLog \<noteq> Inr d" and "reopenLogFiles openLog openAlert s = (err, s')"
  shows "log_files_ok s' \<and> (case (openLog, openAlert) of
      (Inr l, Inr a) \<Rightarrow> err = None \<and> lf_log s' = l \<and> lf_alert s' = a
    | _ \<Rightarrow> err \<noteq> None \<and> s' = s)"
proof (cases openLog)
  case (Inl e)
  then show ?thesis using assms(1,4) by (auto simp: reopenLogFiles_def)
next
  case l: (Inr l)
  show ?thesis
  proof (cases openAlert)
    case (Inl e)
    then have "s' = s\<lparr>lf_open := insert l (lf_open s) - {l}\<rparr>" "err \<noteq> None" using l assms(4) by (auto simp: reopenLogFiles_def Let_def)
    then show ?thesis using l Inl assms(1,2) by (simp add: log_files_ok_def)
  next
    case (Inr a)
    have "lf_open s = {lf_log s, lf_alert s}" using assms(1) by (simp add: log_files_ok_def)
    moreover have "l \<notin> lf_open s" "a \<notin> lf_open s" "l \<noteq> a" using assms(2,3) l Inr by auto
    ultimately have o: "insert a (insert l (lf_open s)) - {lf_log s} - {lf_alert s} = {l, a}" by blast
    have "s\<lparr>lf_logOutput := l, lf_alertOutput := a, lf_log := l, lf_alert := a, lf_open := {l, a}\<rparr> = s'" and "err = None"
      using assms(4) unfolding reopenLogFiles_def l Inr sum.case Let_def by (simp_all add: o)
    then show ?thesis using l Inr \<open>l \<noteq> a\<close> by (auto simp: log_files_ok_def)
  qed
qed

theorem reopenLogFiles_all_or_nothing_witness:
  "reopenLogFiles (Inr 5) (Inl ErrNotExist) \<lparr>lf_open = {3, 4}, lf_log = 3, lf_alert = 4, lf_logOutput = 3, lf_alertOutput = 4\<rparr>
     = (Some (ErrWrap ''reopen alert log'' ErrNotExist),
        \<lparr>lf_open = {3, 4}, lf_log = 3, lf_alert = 4, lf_logOutput = 3, lf_alertOutput = 4\<rparr>)"
proof -
  let ?s = "\<lparr>lf_open = {3, 4}, lf_log = 3, lf_alert = 4, lf_logOutput = 3, lf_alertOutput = 4\<rparr>"
  obtain err s' where r: "reopenLogFiles (Inr 5) (Inl ErrNotExist) ?s = (err, s')" by fastforce
  have "log_files_ok ?s" by (simp add: log_files_ok_def)
  from reopenLogFiles_all_or_nothing [OF this _ _ r] r show ?thesis by (simp add: reopenLogFiles_def)
qed

lemma SetDynExcludes_current:
  assumes "redis env db" and "wf_map m" and "valid_map m"
  shows "current_excludes (sees ms (db (snd (SetDynExcludes env delivered ms m st)))) = Some (canon_map m)"
proof -
  have "sees ms (db (snd (SetDynExcludes env delivered ms m st)))
      = (sees ms (db st))(excludes_key \<mapsto> (RStr (Marshal (map_to_json m)), None))"
    using redis.call_state [OF assms(1), of ms "SET excludes_key (Marshal (map_to_json m)) None" st]
    by (simp add: SetDynExcludes_def client_def bad_expire_def deadline_def)
  then show ?thesis
    using stored_excludes_Marshal [OF assms(2,3)]
    by (simp add: current_excludes_def stored_at_def str_at_def map_of_nil_def)
qed

text \<open>
  What a start makes of the snapshot: excludes that the server holds always win and the server is left alone; when the server has
  none and the snapshot has some, the process starts with those of the snapshot and puts them back into the
  server, where every client then reads the same map.
\<close>

theorem start_restores_excludes:
  assumes "redis env db" and "wf_map snapshot" and "valid_map snapshot"
    and "restore_excludes env delivered ms loaded (Inr snapshot) st = (store, st')"
  shows "if loaded \<noteq> [] \<or> snapshot = [] then store = loaded \<and> st' = st
    else store = snapshot \<and> (\<exists>m. current_excludes (sees ms (db st')) = Some m \<and> same_map m store)"
  using assms(4) SetDynExcludes_current [OF assms(1-3), of ms st] same_canon_map [of snapshot]
  by (auto simp: restore_excludes_def)

theorem start_restores_excludes_witness:
  "\<exists>st' m. restore_excludes mem_env delivered 0 [] (Inr [(''host'', [''a''])]) mem_empty = ([(''host'', [''a''])], st')
     \<and> current_excludes (sees 0 (mem_view st')) = Some m \<and> same_map m [(''host'', [''a''])]"
proof -
  obtain store st' where r: "restore_excludes mem_env delivered 0 [] (Inr [(''host'', [''a''])]) mem_empty = (store, st')" by fastforce
  have v: "valid_map [(''host'', [''a''])]" by (rule valid_ascii_map) (simp add: ascii_def byte_def)
  have w: "wf_map [(''host'', [''a''])]" by (simp add: wf_map_def)
  from start_restores_excludes [OF mem.redis_axioms w v r] r show ?thesis by auto
qed


text \<open>
  The incident sweep runs only on the instance that holds the virtual IP address of the stale alert. An interface never has an empty
  address, so without a configured address no sweep ever closes a quiet incident or publishes a recovery.
\<close>

theorem no_vip_no_recoveries:
  assumes "sa_VIP (cf_StaleAlert cfg) = ''''" and "\<forall>tick \<in> set ticks. \<exists>addrs. sw_active tick = Some (incidentsActive cfg addrs)
      \<and> (\<forall>as. addrs = Inr as \<longrightarrow> Some [] \<notin> set as)"
  shows "incident_sweeps env henv a ticks s = s"
proof -
  have "sweep_tick env henv a tick s = s" if "tick \<in> set ticks" for tick
    using assms that by (fastforce simp: sweep_tick_def incidentsActive_def hasVIP_def list_ex_iff split: sum.splits)
  then show ?thesis by (induction ticks) simp_all
qed

theorem no_vip_no_recoveries_witness:
  "incident_sweeps mem_env good_network sample_aggregator
     [\<lparr>sw_active = Some (incidentsActive zero_Config (Inr [Some ''10.0.0.1'', None])), sw_now = 0,
       sw_close = (\<lambda>_. (\<lambda>st. st, delivered, 0)), sw_peek = (\<lambda>st. st, delivered, 0), sw_drop = (\<lambda>st. st, delivered, 0)\<rparr>]
     (queue_server, (), None) = (queue_server, (), None)"
  by (rule no_vip_no_recoveries [of zero_Config]) (auto simp: zero_Config_def intro!: exI [of _ "Inr [Some ''10.0.0.1'', None]"])

text \<open>
  The shutdown waits at least 30 seconds and, unless the configured timeout is so long that it overflows, at least five
  seconds longer than a request to the decision service may take.
\<close>

theorem drain_timeout_bounds:
  assumes "ds_TimeoutSeconds cfg \<le> 9223372031"
  shows "30 * Second \<le> drain_timeout cfg \<and> (ds_Enabled cfg \<longrightarrow> decisionTimeout cfg + 5 * Second \<le> drain_timeout cfg)"
proof -
  have "decisionTimeout cfg = (if ds_TimeoutSeconds cfg \<le> 0 then 3 * Second else ds_TimeoutSeconds cfg * Second)"
    using assms by (simp add: decisionTimeout_def dur_mul_def Second_def wrap64_small)
  moreover from this have "wrap64 (decisionTimeout cfg + 5 * Second) = decisionTimeout cfg + 5 * Second"
    using assms by (intro wrap64_small) (auto simp: Second_def)
  ultimately show ?thesis by (auto simp: drain_timeout_def Let_def Second_def)
qed

theorem drain_timeout_bounds_witness: "30 * Second \<le> drain_timeout fail_closed"
  using drain_timeout_bounds [of fail_closed] by (simp add: fail_closed_def)

end
