(* ===== verification/Startup.thy ===== *)
theory Startup
  imports Daemon Web Engine
begin

text \<open>
  The start and the end of main.go's \<open>main\<close>, as the composition of the components: the configuration is read,
  the monitors and the incident rules are compiled, the dynamic excludes are loaded from the server or restored from the
  snapshot, and the engine, the web server and the pipeline get their parts; at the end the excludes are saved and
  the connection to the server is closed when the workers have drained.
\<close>

section \<open>Start\<close>

text \<open>
  What the start finds: \<open>strconv.ParseFloat\<close>, \<open>regexp.Compile\<close> and \<open>strconv.Quote\<close>, the environment variable of the
  secrets, the fates of the three reads and of the first snapshot, and the circumstances of the requests to the server.
\<close>

record 'r start_env =
  se_parse_float :: "string \<Rightarrow> rat option"
  se_compile :: "string \<Rightarrow> regex result"
  se_quote :: "string \<Rightarrow> string"
  se_secrets_file :: "string option"
  se_config_fate :: "go_error option"
  se_secrets_fate :: "go_error option"
  se_snapshot_fate :: "go_error option"
  se_snapshot_io :: snapshot_io
  se_load :: "nat \<Rightarrow> 'r step_env"
  se_restore :: "'r step_env"

text \<open>The connection to the server: the options of the client library that \<open>New\<close> sets, and whether the client is open.\<close>

record keydb_client =
  kdb_Addr :: string
  kdb_Password :: string
  kdb_DB :: int
  kdb_open :: bool

definition keydb_New :: "string \<Rightarrow> string \<Rightarrow> keydb_client" where
  "keydb_New host password = \<lparr>kdb_Addr = host, kdb_Password = password, kdb_DB = 0, kdb_open = True\<rparr>"

text \<open>What \<open>main\<close> puts together.\<close>

record clattermark =
  cm_keydb :: keydb_client
  cm_engine :: alertEngine
  cm_excludes :: excludes
  cm_deduper :: deduper
  cm_web :: "http_server \<times> requestLimiter"
  cm_isActive :: "string option list result \<Rightarrow> bool"
  cm_workerCount :: int
  cm_queueSize :: int

definition start_notifier :: "Config \<Rightarrow> notificationClient" where
  "start_notifier cfg =
     (newNotificationClient (nc_PrimaryURL (cf_Notifications cfg)) (nc_SecondaryURL (cf_Notifications cfg)))
       \<lparr>nt_defaultChannel := nc_Channel (cf_Notifications cfg)\<rparr>"

text \<open>
  \<open>main\<close> up to the pipeline; an error is the argument of \<open>log.Fatal\<close>. The store of the excludes is its value here
  (\<open>Dynamic_Excludes\<close> has its arrays), and what the goroutines do that \<open>main\<close> starts on the way (the
  snapshotter, the refresher, the sweep, the gauge) is in the theories of their components.
\<close>

definition start_main ::
  "'r redis_env \<Rightarrow> 'r start_env \<Rightarrow> string \<Rightarrow> string \<Rightarrow> files \<Rightarrow> 'r \<Rightarrow> clattermark result \<times> files \<times> 'r" where
  "start_main env se configPath snapshotPath fs st =
     (case readConfig (se_parse_float se) (se_secrets_file se) (se_config_fate se) (se_secrets_fate se) fs configPath of
        Inl err \<Rightarrow> (Inl err, fs, st)
      | Inr cfg \<Rightarrow>
     (case compileMonitors (se_compile se) (se_quote se) (cf_Monitors cfg) of
        Inl err \<Rightarrow> (Inl err, fs, st)
      | Inr monitors \<Rightarrow>
     (let notifier = start_notifier cfg; iconURL = nc_IconURL (cf_Notifications cfg);
          deduper = newAlertDeduper (cf_AlertDedup cfg)
      in case newIncidentAggregator (se_compile se) (se_quote se) (cf_IncidentAggregation cfg) True (Some notifier) iconURL of
        Inl err \<Rightarrow> (Inl err, fs, st)
      | Inr incidents \<Rightarrow>
     (case loadDynamicExcludes (GetDynExcludes env) 5 Second (se_load se) st of
        (Inl err, delays, st1) \<Rightarrow> (Inl err, fs, st1)
      | (Inr dynamicExcludes, delays, st1) \<Rightarrow>
          (let (before, net, ms) = se_restore se;
               (excludes, st2) = restore_excludes env net ms dynamicExcludes
                 (readDynamicExcludesSnapshot (se_snapshot_fate se) snapshotPath fs) (before st1);
               (saved, fs1) = SnapshotToFile (se_snapshot_io se) snapshotPath excludes fs;
               web = newWebServer (wc_ListenAddress (cf_Web cfg)) (wc_Tokens (cf_Web cfg)) (wc_APITokens (cf_Web cfg)) True;
               engine = \<lparr>en_monitors = monitors, en_processExcludes = compileProcessExcludes (se_compile se) (pc_Excludes (cf_Processes cfg)),
                 en_jsonExcludes = compileJSONExcludes (se_compile se) (cf_JSONExcludes cfg), en_notifier = notifier,
                 en_iconURL = iconURL, en_decisionCfg = cf_DecisionService cfg, en_dedupCfg = cf_AlertDedup cfg,
                 en_incidents = incidents\<rparr>;
               (workerCount, queueSize) = pipeline_values (cf_Pipeline cfg)
           in (Inr \<lparr>cm_keydb = keydb_New (kc_Host (cf_KeyDB cfg)) (kc_Password (cf_KeyDB cfg)), cm_engine = engine, cm_excludes = excludes, cm_deduper = deduper, cm_web = web,
                 cm_isActive = incidentsActive cfg, cm_workerCount = workerCount, cm_queueSize = queueSize\<rparr>, fs1, st2))))))"

text \<open>
  The web server runs beside the pipeline: what \<open>ListenAndServe\<close> returned, \<open>errServerClosed\<close> after an orderly shutdown, reaches the
  goroutine that waits for it; the process goes on, but is no longer ready.
\<close>

definition startWeb_error :: "go_error \<Rightarrow> go_error \<Rightarrow> go_error option" where
  "startWeb_error errServerClosed err = (if err = errServerClosed then None else Some err)"

definition web_server_stopped :: "go_error option \<Rightarrow> telemetry \<Rightarrow> telemetry" where
  "web_server_stopped err m = (case err of None \<Rightarrow> m | Some e \<Rightarrow> m\<lparr>ready := False\<rparr>)"

section \<open>End\<close>

text \<open>After the drain: the last snapshot, and whether the connection to the server is closed.\<close>

definition finish_main :: "snapshot_io \<Rightarrow> string \<Rightarrow> excludes \<Rightarrow> bool \<Rightarrow> files \<Rightarrow> bool \<times> files" where
  "finish_main io snapshotPath excludes didDrain fs =
     (let (saved, fs1) = SnapshotToFile io snapshotPath excludes fs in (didDrain, fs1))"

section \<open>Properties\<close>

definition engine_ok :: "'r start_env \<Rightarrow> Config \<Rightarrow> alertEngine \<Rightarrow> bool" where
  "engine_ok se cfg e \<longleftrightarrow>
     map m_name (en_monitors e) = sort_Strings (map fst (cf_Monitors cfg))
     \<and> list_all (\<lambda>m. let c = lookup_or zero_MonitorConfig (map_of (cf_Monitors cfg)) (m_name m)
          in TrimSpace (mc_Search c) \<noteq> '''' \<and> se_compile se (mc_Search c) = Inr (m_search m) \<and> m_excludes m = mc_Excludes c) (en_monitors e)
     \<and> nt_defaultChannel (en_notifier e) = nc_Channel (cf_Notifications cfg)
     \<and> en_decisionCfg e = cf_DecisionService cfg \<and> en_dedupCfg e = cf_AlertDedup cfg"

definition incidents_ok :: "'r start_env \<Rightarrow> Config \<Rightarrow> notificationClient \<Rightarrow> incidentAggregator \<Rightarrow> bool" where
  "incidents_ok se cfg notifier a \<longleftrightarrow> ag_cfg a = cf_IncidentAggregation cfg \<and> ag_notifier a = Some notifier
     \<and> (if ia_Enabled (ag_cfg a)
        then 0 < ia_QuietSeconds (ag_cfg a) \<and> 0 < ia_ReminderEvery (ag_cfg a) \<and> map cr_rule (ag_rules a) = ia_Rules (ag_cfg a)
          \<and> distinct (map ir_Name (ia_Rules (ag_cfg a))) \<and> list_all (valid_rule (se_compile se)) (ag_rules a)
        else ag_rules a = [])"

lemma canon_map_idem: "canon_map (canon_map m) = canon_map m"
proof -
  have "map fst (canon_map m) = sort_Strings (map fst m)" by (simp add: canon_map_def comp_def)
  moreover have "sort_Strings (sort_Strings xs) = sort_Strings xs" for xs by (simp add: sort_Strings_def sorted_sort_id)
  moreover have "map_of (canon_map m) = map_of m" using same_canon_map by (simp add: same_map_def)
  ultimately show ?thesis by (simp add: canon_map_def)
qed

lemma valid_canon_map:
  assumes "valid_map m"
  shows "valid_map (canon_map m)"
proof -
  have "valid_utf8 k \<and> (\<forall>v \<in> set (lookup_or [] (map_of m) k). valid_utf8 v)" if "k \<in> fst ` set m" for k
    using assms that by (cases "map_of m k") (auto simp: valid_map_def lookup_or_def map_of_eq_None_iff dest!: map_of_SomeD)
  then show ?thesis by (auto simp: valid_map_def canon_map_def)
qed

lemma newIncidentAggregator_ok:
  assumes "newIncidentAggregator compile quote cfg has_store notifier iconURL = Inr a"
  shows "ag_cfg a = cfg \<and> ag_notifier a = notifier \<and> (if ia_Enabled cfg
    then 0 < ia_QuietSeconds cfg \<and> 0 < ia_ReminderEvery cfg \<and> map cr_rule (ag_rules a) = ia_Rules cfg
      \<and> distinct (map ir_Name (ia_Rules cfg)) \<and> list_all (valid_rule compile) (ag_rules a)
    else ag_rules a = [])"
  using assms compile_rules_ok [of compile quote "{}" "ia_Rules cfg"]
  by (auto simp: newIncidentAggregator_def Let_def split: if_splits sum.splits)

definition read_start_config :: "'r start_env \<Rightarrow> files \<Rightarrow> string \<Rightarrow> Config result" where
  "read_start_config se fs path =
     readConfig (se_parse_float se) (se_secrets_file se) (se_config_fate se) (se_secrets_fate se) fs path"

lemma start_main_total:
  assumes "read_start_config se fs configPath = Inr cfg"
    and "compileMonitors (se_compile se) (se_quote se) (cf_Monitors cfg) = Inr monitors"
    and "newIncidentAggregator (se_compile se) (se_quote se) (cf_IncidentAggregation cfg) True (Some (start_notifier cfg))
      (nc_IconURL (cf_Notifications cfg)) = Inr incidents"
    and "loadDynamicExcludes (GetDynExcludes env) 5 Second (se_load se) st = (Inr dyn, delays, st1)"
  shows "\<exists>cm fs' st'. start_main env se configPath snapshotPath fs st = (Inr cm, fs', st')"
  using assms by (simp add: start_main_def read_start_config_def Let_def split: prod.splits)

lemma start_main_Inr:
  assumes "start_main env se configPath snapshotPath fs st = (Inr cm, fs', st')"
  obtains cfg incidents dyn delays st1 before net ms where "read_start_config se fs configPath = Inr cfg"
    "compileMonitors (se_compile se) (se_quote se) (cf_Monitors cfg) = Inr (en_monitors (cm_engine cm))"
    "newIncidentAggregator (se_compile se) (se_quote se) (cf_IncidentAggregation cfg) True (Some (en_notifier (cm_engine cm)))
       (nc_IconURL (cf_Notifications cfg)) = Inr (en_incidents (cm_engine cm))"
    "loadDynamicExcludes (GetDynExcludes env) 5 Second (se_load se) st = (Inr dyn, delays, st1)"
    "se_restore se = (before, net, ms)"
    "restore_excludes env net ms dyn (readDynamicExcludesSnapshot (se_snapshot_fate se) snapshotPath fs) (before st1)
       = (cm_excludes cm, st')"
    "fs' = snd (SnapshotToFile (se_snapshot_io se) snapshotPath (cm_excludes cm) fs)"
    "cm_deduper cm = newAlertDeduper (cf_AlertDedup cfg)" "(cm_workerCount cm, cm_queueSize cm) = pipeline_values (cf_Pipeline cfg)"
    "nt_defaultChannel (en_notifier (cm_engine cm)) = nc_Channel (cf_Notifications cfg)"
    "en_decisionCfg (cm_engine cm) = cf_DecisionService cfg" "en_dedupCfg (cm_engine cm) = cf_AlertDedup cfg"
  using assms
  by (auto simp: start_main_def read_start_config_def start_notifier_def Let_def split: sum.splits prod.splits)

lemma start_main_keydb:
  assumes "start_main env se configPath snapshotPath fs st = (Inr cm, fs', st')" "read_start_config se fs configPath = Inr cfg"
  shows "cm_keydb cm = keydb_New (kc_Host (cf_KeyDB cfg)) (kc_Password (cf_KeyDB cfg))"
  using assms by (auto simp: start_main_def read_start_config_def Let_def split: sum.splits prod.splits)

text \<open>
  C37. How the engine, the incidents, the connection, the pipeline and the deduplication of a process that starts agree with its
  configuration, and what ends a start: the engine has one compiled monitor for each configured one in the order of their names, the incident aggregator shares the
  engine's notifier with the configured channel and, when it is enabled, has its rules compiled with distinct names, a positive quiet time
  and a positive reminder interval; the connection is open to the configured server; there is at least one worker, room for at least one line in the channel, and a
  positive time to live. Otherwise the process ends with the error of the configuration, a monitor, a rule or the
  server, and the snapshot file is as it was.
\<close>

theorem start_main_well_formed:
  assumes "start_main env se configPath snapshotPath fs st = (r, fs', st')"
  shows "case r of
      Inr cm \<Rightarrow> \<exists>cfg. read_start_config se fs configPath = Inr cfg \<and> engine_ok se cfg (cm_engine cm)
        \<and> incidents_ok se cfg (en_notifier (cm_engine cm)) (en_incidents (cm_engine cm))
        \<and> kdb_Addr (cm_keydb cm) = kc_Host (cf_KeyDB cfg) \<and> kdb_Password (cm_keydb cm) = kc_Password (cf_KeyDB cfg)
        \<and> kdb_open (cm_keydb cm) \<and> 0 < cm_workerCount cm \<and> 0 < cm_queueSize cm \<and> 0 < defaultTTL (cm_deduper cm)
    | Inl err \<Rightarrow> fs' = fs \<and> (read_start_config se fs configPath = Inl err
        \<or> (\<exists>cfg. read_start_config se fs configPath = Inr cfg
            \<and> (compileMonitors (se_compile se) (se_quote se) (cf_Monitors cfg) = Inl err
               \<or> newIncidentAggregator (se_compile se) (se_quote se) (cf_IncidentAggregation cfg) True (Some (start_notifier cfg))
                   (nc_IconURL (cf_Notifications cfg)) = Inl err
               \<or> fst (loadDynamicExcludes (GetDynExcludes env) 5 Second (se_load se) st) = Inl err)))"
proof (cases r)
  case (Inl err)
  then show ?thesis using assms
    by (auto simp: start_main_def read_start_config_def Let_def split: sum.splits prod.splits)
next
  case (Inr cm)
  from start_main_Inr [OF assms [unfolded Inr]] obtain cfg where
    c: "read_start_config se fs configPath = Inr cfg"
      "compileMonitors (se_compile se) (se_quote se) (cf_Monitors cfg) = Inr (en_monitors (cm_engine cm))"
      "newIncidentAggregator (se_compile se) (se_quote se) (cf_IncidentAggregation cfg) True (Some (en_notifier (cm_engine cm)))
         (nc_IconURL (cf_Notifications cfg)) = Inr (en_incidents (cm_engine cm))"
      "cm_deduper cm = newAlertDeduper (cf_AlertDedup cfg)" "pipeline_values (cf_Pipeline cfg) = (cm_workerCount cm, cm_queueSize cm)"
      "nt_defaultChannel (en_notifier (cm_engine cm)) = nc_Channel (cf_Notifications cfg)"
      "en_decisionCfg (cm_engine cm) = cf_DecisionService cfg" "en_dedupCfg (cm_engine cm) = cf_AlertDedup cfg" by metis
  have "engine_ok se cfg (cm_engine cm)"
    using c(2,6-8) by (simp add: engine_ok_def compileMonitors_def compile_monitors_ok list_all_iff)
  moreover have "incidents_ok se cfg (en_notifier (cm_engine cm)) (en_incidents (cm_engine cm))"
    using newIncidentAggregator_ok [OF c(3)] by (simp add: incidents_ok_def)
  moreover have "0 < defaultTTL (cm_deduper cm)" unfolding c(4) by (simp add: newAlertDeduper_ttl)
  ultimately show ?thesis unfolding Inr using c(1) pipeline_values_pos [OF c(5)] start_main_keydb [OF assms [unfolded Inr] c(1)]
    by (auto simp: keydb_New_def)
qed

text \<open>
  C35. A stop and a start lose no exclude: what the store held when the process ended, and was saved, is what the next
  process starts with when the server has lost its data, and it is put back into the server for every other client.
\<close>

theorem stop_then_start:
  assumes "redis env db" and "wf_map excludes" and "valid_map excludes" and "excludes \<noteq> []"
    and "fst (SnapshotToFile io snapshotPath excludes fs0) = Inr ()" and "finish_main io snapshotPath excludes didDrain fs0 = (disconnected, fs)"
    and "se_snapshot_fate se = None" and "se_restore se = (before, delivered, ms)"
    and "fst (loadDynamicExcludes (GetDynExcludes env) 5 Second (se_load se) st) = Inr []"
    and "start_main env se configPath snapshotPath fs st = (Inr cm, fs', st')"
  shows "same_map (cm_excludes cm) excludes
    \<and> (\<exists>m. current_excludes (sees ms (db st')) = Some m \<and> same_map m excludes)
    \<and> readDynamicExcludesSnapshot None snapshotPath fs' = Inr (cm_excludes cm)"
proof -
  have onfile: "fs (filepath_Clean snapshotPath) = Some (MarshalIndent (snapshot_json excludes))"
    using SnapshotToFile_saved [OF assms(5)] assms(6) by (auto simp: finish_main_def split: prod.splits)
  have snap: "readDynamicExcludesSnapshot None snapshotPath fs = Inr (canon_map excludes)"
    using onfile assms(2,3) by (rule readDynamicExcludesSnapshot_file)
  from start_main_Inr [OF assms(10)] obtain dyn delays st1 b net ms' where
    s: "loadDynamicExcludes (GetDynExcludes env) 5 Second (se_load se) st = (Inr dyn, delays, st1)"
      "se_restore se = (b, net, ms')"
      "restore_excludes env net ms' dyn (readDynamicExcludesSnapshot (se_snapshot_fate se) snapshotPath fs) (b st1) = (cm_excludes cm, st')"
      "fs' = snd (SnapshotToFile (se_snapshot_io se) snapshotPath (cm_excludes cm) fs)" by metis
  have wf: "wf_map (canon_map excludes)" "valid_map (canon_map excludes)" "same_map (canon_map excludes) excludes"
    using assms(2,3) by (simp_all add: wf_canon_map same_canon_map valid_canon_map)
  have "canon_map excludes \<noteq> []" using assms(4) by (auto simp: canon_map_def sort_Strings_def dest: arg_cong [of _ _ length])
  then have r: "cm_excludes cm = canon_map excludes" "st' = snd (SetDynExcludes env delivered ms (canon_map excludes) (before st1))"
    using s assms(7-9) snap by (auto simp: restore_excludes_def)
  have "fs' (filepath_Clean snapshotPath) = Some (MarshalIndent (snapshot_json (if tick_ok snapshotPath (se_snapshot_io se)
      then canon_map excludes else excludes)))"
    unfolding s(4) r(1) SnapshotToFile_file using onfile by simp
  then have "readDynamicExcludesSnapshot None snapshotPath fs' = Inr (canon_map excludes)"
    using readDynamicExcludesSnapshot_file [of fs' snapshotPath "canon_map excludes"]
      readDynamicExcludesSnapshot_file [of fs' snapshotPath excludes] wf(1,2) assms(2,3)
    by (simp add: canon_map_idem split: if_splits)
  then show ?thesis
    using wf(3) r SetDynExcludes_current [OF assms(1) wf(1,2), of ms "before st1"] by (simp add: canon_map_idem)
qed


text \<open>A start from an empty configuration and an empty server.\<close>

definition plain_start :: "mem start_env" where
  "plain_start = \<lparr>se_parse_float = (\<lambda>_. None), se_compile = (\<lambda>_. Inr REmpty), se_quote = id, se_secrets_file = Some ''/s'',
     se_config_fate = None, se_secrets_fate = None, se_snapshot_fate = None,
     se_snapshot_io = \<lparr>mkdir_fate = None, write_fate = Written, rename_fate = None\<rparr>,
     se_load = (\<lambda>_. (\<lambda>st. st, delivered, 0)), se_restore = (\<lambda>st. st, delivered, 0)\<rparr>"

lemma plain_load:
  "fst (loadDynamicExcludes (GetDynExcludes mem_env) 5 Second (se_load plain_start) mem_empty) = Inr []"
proof -
  have "fst (GetDynExcludes mem_env delivered 0 mem_empty) = Inr []"
    by (simp add: GetDynExcludes_def client_def client_once_def redis_call_def mem_eval reply_string_def)
  then obtain st where "GetDynExcludes mem_env delivered 0 mem_empty = (Inr [], st)" by (metis prod.collapse)
  then show ?thesis by (simp add: loadDynamicExcludes_def plain_start_def numeral_eq_Suc)
qed

lemma plain_start_main:
  assumes "fs ''/c'' = Some ''null''" and "fs ''/s'' = None"
  obtains cm fs' st' where "start_main mem_env plain_start ''/c'' ''/d'' fs mem_empty = (Inr cm, fs', st')"
proof -
  have "json_unmarshal ''null'' = Some JNull"
    using json_unmarshal_print [of JNull False 0] by simp
  then have "unmarshal_struct (dec_Config (\<lambda>_. None)) zero_Config ''null'' = Some zero_Config"
    by (simp add: unmarshal_struct_def dec_struct_def)
  then have c: "readConfig (\<lambda>_. None) (Some ''/s'') None None fs ''/c'' = Inr zero_Config"
    using assms by (simp add: readConfig_def applySecretsFile_def os_ReadFile_def)
  obtain ds st1 where l: "loadDynamicExcludes (GetDynExcludes mem_env) 5 Second (se_load plain_start) mem_empty = (Inr [], ds, st1)"
    using plain_load by (metis prod.collapse)
  have m: "compileMonitors (se_compile plain_start) (se_quote plain_start) (cf_Monitors zero_Config) = Inr []"
    by (simp add: compileMonitors_def zero_Config_def sort_Strings_def)
  have a: "\<exists>a. newIncidentAggregator (se_compile plain_start) (se_quote plain_start) (cf_IncidentAggregation zero_Config) True
      (Some (start_notifier zero_Config)) (nc_IconURL (cf_Notifications zero_Config)) = Inr a"
    by (simp add: newIncidentAggregator_def zero_Config_def)
  have "\<exists>cm fs' st'. start_main mem_env plain_start ''/c'' ''/d'' fs mem_empty = (Inr cm, fs', st')"
    using start_main_total [of plain_start fs "''/c''" zero_Config _ _ mem_env mem_empty, OF _ m _ l] a c
    by (auto simp: plain_start_def read_start_config_def)
  with that show thesis by blast
qed

theorem start_main_well_formed_witness:
  "\<exists>cm fs' st'. start_main mem_env plain_start ''/c'' ''/d'' [''/c'' \<mapsto> ''null''] mem_empty = (Inr cm, fs', st')
     \<and> 0 < cm_workerCount cm \<and> 0 < defaultTTL (cm_deduper cm)"
proof -
  obtain cm fs' st' where s: "start_main mem_env plain_start ''/c'' ''/d'' [''/c'' \<mapsto> ''null''] mem_empty = (Inr cm, fs', st')"
    by (rule plain_start_main [of "[''/c'' \<mapsto> ''null'']"]) simp_all
  from start_main_well_formed [OF s] s show ?thesis by auto
qed

theorem stop_then_start_witness:
  "\<exists>disconnected fs cm fs' st' m. finish_main (se_snapshot_io plain_start) ''/d'' [(''host'', [''a''])] True [''/c'' \<mapsto> ''null''] = (disconnected, fs)
     \<and> start_main mem_env plain_start ''/c'' ''/d'' fs mem_empty = (Inr cm, fs', st')
     \<and> same_map (cm_excludes cm) [(''host'', [''a''])]
     \<and> current_excludes (sees 0 (mem_view st')) = Some m \<and> same_map m [(''host'', [''a''])]"
proof -
  let ?m = "[(''host'', [''a''])]" and ?fs = "[''/c'' \<mapsto> ''null''] :: files"
  have v: "wf_map ?m" "valid_map ?m" "?m \<noteq> []" by (simp_all add: wf_map_def valid_ascii_map ascii_def byte_def)
  have cl: "filepath_Clean ''/d'' = ''/d''" by (simp add: filepath_Clean_def clean_push_def)
  have saved: "SnapshotToFile (se_snapshot_io plain_start) ''/d'' ?m ?fs
      = (Inr (), ?fs(''/d'' \<mapsto> MarshalIndent (snapshot_json ?m)))"
    by (simp add: SnapshotToFile_def writeDynamicExcludesSnapshot_def os_WriteFile_def os_Rename_def Let_def cl plain_start_def)
  obtain d fs where f: "finish_main (se_snapshot_io plain_start) ''/d'' ?m True ?fs = (d, fs)" by fastforce
  then have "fs = ?fs(''/d'' \<mapsto> MarshalIndent (snapshot_json ?m))" by (simp add: finish_main_def saved)
  then obtain cm fs' st' where s: "start_main mem_env plain_start ''/c'' ''/d'' fs mem_empty = (Inr cm, fs', st')"
    using plain_start_main [of fs] by auto
  have "fst (SnapshotToFile (se_snapshot_io plain_start) ''/d'' ?m ?fs) = Inr ()" by (simp add: saved)
  moreover have "se_snapshot_fate plain_start = None" "se_restore plain_start = (\<lambda>st. st, delivered, 0)" by (simp_all add: plain_start_def)
  ultimately show ?thesis using stop_then_start [OF mem.redis_axioms v _ f _ _ plain_load s] f s by blast
qed

end
