(* ===== verification/Process.thy ===== *)
theory Process
  imports Startup
begin

text \<open>
  The process around \<open>start_main\<close> and \<open>finish_main\<close>: the beginning of main.go's \<open>main\<close> (the state directory, the PID file and the two
  logs), the goroutine that opens the logs again on \<open>SIGHUP\<close>, and the end with its deferred calls. The connection to the
  server (keydb.go, \<open>New\<close> and \<open>Close\<close>) and the orderly shutdown of the web server (web.go, \<open>shutdownWeb\<close>) are values here.
\<close>

section \<open>Paths of the state directory\<close>

text \<open>\<open>filepath.Join\<close> drops empty elements at the front.\<close>

definition filepath_Join :: "string list \<Rightarrow> string" where
  "filepath_Join elem =
     (case dropWhile (\<lambda>e. e = '''') elem of [] \<Rightarrow> '''' | es \<Rightarrow> filepath_Clean (str_join ''/'' es))"

text \<open>The flags: the values given on the command line, if any.\<close>

record main_flags =
  fl_config :: "string option"
  fl_stateDir :: "string option"

definition flag_value :: "string \<Rightarrow> string option \<Rightarrow> string" where
  "flag_value value v = (case v of None \<Rightarrow> value | Some s \<Rightarrow> s)"

record main_paths =
  mp_config :: string
  mp_stateDir :: string
  mp_pidFile :: string
  mp_log :: string
  mp_alert :: string
  mp_snapshot :: string

definition main_paths_of :: "main_flags \<Rightarrow> main_paths" where
  "main_paths_of fl =
     (let stateDir = flag_value ''/var/lib/clattermark'' (fl_stateDir fl)
      in \<lparr>mp_config = flag_value ''/etc/clattermark/config.json'' (fl_config fl), mp_stateDir = stateDir,
          mp_pidFile = filepath_Join [stateDir, ''clattermark.pid''], mp_log = filepath_Join [stateDir, ''clattermark.log''],
          mp_alert = filepath_Join [stateDir, ''alerts.log''], mp_snapshot = filepath_Join [stateDir, ''dyn_excludes.json'']\<rparr>)"

section \<open>The PID file and the logs\<close>

text \<open>What \<open>MkdirAll\<close>, the write of the PID file and the two \<open>OpenFile\<close>s find; an opened log is a descriptor.\<close>

record open_env =
  oe_mkdir :: "go_error option"
  oe_pid :: int
  oe_pid_fate :: write_fate
  oe_log :: "nat result"
  oe_alert :: "nat result"

text \<open>With \<open>O_CREATE\<close> and \<open>O_APPEND\<close> a file is created when it is missing, and keeps its contents.\<close>

definition os_OpenAppend :: "nat result \<Rightarrow> string \<Rightarrow> files \<Rightarrow> nat result \<times> files" where
  "os_OpenAppend fate path fs =
     (case fate of
        Inl err \<Rightarrow> (Inl err, fs)
      | Inr d \<Rightarrow> (Inr d, if fs path = None then fs(path \<mapsto> '''') else fs))"

definition os_Remove :: "go_error option \<Rightarrow> string \<Rightarrow> files \<Rightarrow> files" where
  "os_Remove fate path fs = (case fate of Some err \<Rightarrow> fs | None \<Rightarrow> fs(path := None))"

text \<open>
  The result has whether the removal of the PID file is deferred, and the logs; an error is the argument of
  \<open>log.Fatal\<close>, which ends the process without its deferred calls.
\<close>

definition open_process :: "open_env \<Rightarrow> main_paths \<Rightarrow> files \<Rightarrow> (bool \<times> log_files) result \<times> files" where
  "open_process oe mp fs =
     (case oe_mkdir oe of
        Some err \<Rightarrow> (Inl err, fs)
      | None \<Rightarrow>
     (let (pid, fs1) = os_WriteFile (oe_pid_fate oe) (mp_pidFile mp) (Itoa (oe_pid oe)) fs;
          deferred = (case pid of Inl err \<Rightarrow> False | Inr _ \<Rightarrow> True)
      in case os_OpenAppend (oe_log oe) (mp_log mp) fs1 of
        (Inl err, fs2) \<Rightarrow> (Inl err, fs2)
      | (Inr logFile, fs2) \<Rightarrow>
     (case os_OpenAppend (oe_alert oe) (mp_alert mp) fs2 of
        (Inl err, fs3) \<Rightarrow> (Inl err, fs3)
      | (Inr alertFile, fs3) \<Rightarrow>
          (Inr (deferred, \<lparr>lf_open = {logFile, alertFile}, lf_log = logFile, lf_alert = alertFile,
             lf_logOutput = logFile, lf_alertOutput = alertFile\<rparr>), fs3))))"

text \<open>
  The goroutine for \<open>SIGHUP\<close>: each signal opens the logs again, with these answers. When the context is done the goroutine ends, and its
  deferred \<open>signal.Stop\<close> gives the signal back its default action, which ends the process (None).
\<close>

datatype hup_event = Hangup "nat result" "nat result" | Context_done

fun hup_loop :: "bool \<Rightarrow> hup_event list \<Rightarrow> log_files \<Rightarrow> log_files option" where
  "hup_loop notified [] s = Some s"
| "hup_loop notified (Context_done # es) s = hup_loop False es s"
| "hup_loop True (Hangup openLog openAlert # es) s = hup_loop True es (snd (reopenLogFiles openLog openAlert s))"
| "hup_loop False (Hangup openLog openAlert # es) s = None"

section \<open>The ends of the connection and of the web server\<close>

definition keydb_Close :: "go_error option \<Rightarrow> keydb_client \<Rightarrow> go_error option \<times> keydb_client" where
  "keydb_Close fate k = (fate, k\<lparr>kdb_open := False\<rparr>)"

text \<open>
  A listening server, with the time that each request in progress still takes. \<open>Shutdown\<close> stops listening and waits for these
  requests until the deadline of its context.
\<close>

record web_listener =
  wl_listening :: bool
  wl_active :: "duration list"

definition server_Shutdown :: "duration \<Rightarrow> web_listener \<Rightarrow> go_error option \<times> web_listener" where
  "server_Shutdown limit w =
     (let rest = filter (\<lambda>d. limit < d) (wl_active w)
      in (if rest = [] then None else Some ErrDeadlineExceeded,
          w\<lparr>wl_listening := False, wl_active := map (\<lambda>d. d - limit) rest\<rparr>))"

definition shutdownWeb :: "web_listener \<Rightarrow> duration \<Rightarrow> go_error option \<times> web_listener" where
  "shutdownWeb server timeout = server_Shutdown timeout server"

section \<open>The process\<close>

record process =
  ps_paths :: main_paths
  ps_pid_deferred :: bool
  ps_logs :: log_files
  ps_parts :: clattermark

definition start_process ::
  "'r redis_env \<Rightarrow> open_env \<Rightarrow> 'r start_env \<Rightarrow> main_flags \<Rightarrow> files \<Rightarrow> 'r \<Rightarrow> process result \<times> files \<times> 'r" where
  "start_process env oe se fl fs st =
     (let mp = main_paths_of fl
      in case open_process oe mp fs of
        (Inl err, fs1) \<Rightarrow> (Inl err, fs1, st)
      | (Inr (deferred, logs), fs1) \<Rightarrow>
     (case start_main env se (mp_config mp) (mp_snapshot mp) fs1 st of
        (Inl err, fs2, st') \<Rightarrow> (Inl err, fs2, st')
      | (Inr cm, fs2, st') \<Rightarrow>
          (Inr \<lparr>ps_paths = mp, ps_pid_deferred = deferred, ps_logs = logs, ps_parts = cm\<rparr>, fs2, st')))"

text \<open>After the drain, with the excludes that the store holds then; the deferred calls come last.\<close>

record end_env =
  ee_snapshot_io :: snapshot_io
  ee_web :: web_listener
  ee_close :: "go_error option"
  ee_remove :: "go_error option"

definition end_process ::
  "end_env \<Rightarrow> excludes \<Rightarrow> bool \<Rightarrow> process \<Rightarrow> files \<Rightarrow> web_listener \<times> keydb_client \<times> files" where
  "end_process ee excludes didDrain p fs =
     (let (disconnect, fs1) = finish_main (ee_snapshot_io ee) (mp_snapshot (ps_paths p)) excludes didDrain fs;
          (err, web) = shutdownWeb (ee_web ee) (5 * Second);
          k = cm_keydb (ps_parts p); k = (if disconnect then snd (keydb_Close (ee_close ee) k) else k)
      in (web, k, if ps_pid_deferred p then os_Remove (ee_remove ee) (mp_pidFile (ps_paths p)) fs1 else fs1))"

section \<open>Properties\<close>

subsection \<open>The logs\<close>

text \<open>Every descriptor that a signal opens is a new one.\<close>

definition fresh_logs :: "nat result \<Rightarrow> nat result \<Rightarrow> log_files \<Rightarrow> bool" where
  "fresh_logs openLog openAlert s \<longleftrightarrow> (case openLog of Inl err \<Rightarrow> True | Inr d \<Rightarrow> d \<notin> lf_open s)
     \<and> (case openAlert of Inl err \<Rightarrow> True | Inr d \<Rightarrow> d \<notin> lf_open s \<and> openLog \<noteq> Inr d)"

fun hup_fresh :: "hup_event list \<Rightarrow> log_files \<Rightarrow> bool" where
  "hup_fresh [] s = True"
| "hup_fresh (Context_done # es) s = hup_fresh es s"
| "hup_fresh (Hangup openLog openAlert # es) s
     = (fresh_logs openLog openAlert s \<and> hup_fresh es (snd (reopenLogFiles openLog openAlert s)))"

text \<open>The logs of the last signal that opened both.\<close>

fun last_logs :: "hup_event list \<Rightarrow> nat \<times> nat \<Rightarrow> nat \<times> nat" where
  "last_logs [] p = p"
| "last_logs (Hangup (Inr l) (Inr a) # es) p = last_logs es (l, a)"
| "last_logs (e # es) p = last_logs es p"

text \<open>A signal comes after the context is done.\<close>

fun late_hangup :: "hup_event list \<Rightarrow> bool" where
  "late_hangup [] = False"
| "late_hangup (Context_done # es) = (\<exists>e \<in> set es. e \<noteq> Context_done)"
| "late_hangup (e # es) = late_hangup es"

lemma hup_loop_stopped: "hup_loop False es s = (if \<exists>e \<in> set es. e \<noteq> Context_done then None else Some s)"
proof (induction es)
  case (Cons e es)
  then show ?case by (cases e) auto
qed simp

lemma last_logs_done: "\<forall>e \<in> set es. e = Context_done \<Longrightarrow> last_logs es p = p"
  by (induction es) auto

lemma reopenLogFiles_ok:
  assumes "log_files_ok s" "fresh_logs openLog openAlert s"
  shows "log_files_ok (snd (reopenLogFiles openLog openAlert s))"
    "last_logs (Hangup openLog openAlert # es) (lf_log s, lf_alert s)
      = last_logs es (lf_log (snd (reopenLogFiles openLog openAlert s)), lf_alert (snd (reopenLogFiles openLog openAlert s)))"
proof -
  obtain err s' where r: "reopenLogFiles openLog openAlert s = (err, s')" by fastforce
  have f: "\<forall>d. openLog = Inr d \<longrightarrow> d \<notin> lf_open s"
    "\<forall>d. openAlert = Inr d \<longrightarrow> d \<notin> lf_open s \<and> openLog \<noteq> Inr d"
    using assms(2) by (auto simp: fresh_logs_def)
  have "log_files_ok s' \<and> (case (openLog, openAlert) of
      (Inr l, Inr a) \<Rightarrow> err = None \<and> lf_log s' = l \<and> lf_alert s' = a | _ \<Rightarrow> err \<noteq> None \<and> s' = s)"
    using reopenLogFiles_all_or_nothing [OF assms(1) f r] .
  then show "log_files_ok (snd (reopenLogFiles openLog openAlert s))"
    "last_logs (Hangup openLog openAlert # es) (lf_log s, lf_alert s)
      = last_logs es (lf_log (snd (reopenLogFiles openLog openAlert s)), lf_alert (snd (reopenLogFiles openLog openAlert s)))"
    unfolding r by (cases openLog; cases openAlert; simp)+
qed

text \<open>
  C25. The logs over a run: whatever signals come and whatever fails when the logs are opened again, the process has exactly its two logs open,
  writes to them, and they are those of the last signal that could open both. But a signal after the context is done, which is
  while the pipeline drains, ends the process at once.
\<close>

theorem log_rotation:
  assumes "log_files_ok s" and "hup_fresh es s"
  shows "case hup_loop True es s of
      None \<Rightarrow> late_hangup es
    | Some s' \<Rightarrow> \<not> late_hangup es \<and> log_files_ok s' \<and> (lf_log s', lf_alert s') = last_logs es (lf_log s, lf_alert s)"
  using assms
proof (induction es arbitrary: s)
  case (Cons e es)
  show ?case
  proof (cases e)
    case (Hangup openLog openAlert)
    then have f: "fresh_logs openLog openAlert s" "hup_fresh es (snd (reopenLogFiles openLog openAlert s))"
      using Cons.prems(2) by simp_all
    note ok = reopenLogFiles_ok [OF Cons.prems(1) f(1)]
    show ?thesis
      using Cons.IH [OF ok(1) f(2)] unfolding Hangup ok(2) hup_loop.simps late_hangup.simps .
  next
    case Context_done
    then show ?thesis using Cons.prems(1) by (auto simp: hup_loop_stopped last_logs_done)
  qed
qed simp

theorem log_rotation_witness:
  "\<exists>s. hup_loop True [Hangup (Inr 5) (Inr 6), Hangup (Inr 7) (Inl ErrNotExist), Context_done]
       \<lparr>lf_open = {3, 4}, lf_log = 3, lf_alert = 4, lf_logOutput = 3, lf_alertOutput = 4\<rparr> = Some s
     \<and> log_files_ok s \<and> (lf_log s, lf_alert s) = (5, 6)"
proof -
  let ?es = "[Hangup (Inr 5) (Inr 6), Hangup (Inr 7) (Inl ErrNotExist), Context_done]"
    and ?s = "\<lparr>lf_open = {3, 4}, lf_log = 3, lf_alert = 4, lf_logOutput = 3, lf_alertOutput = 4\<rparr>"
  have "log_files_ok ?s" by (simp add: log_files_ok_def)
  moreover have "hup_fresh ?es ?s" by (simp add: fresh_logs_def reopenLogFiles_def)
  ultimately show ?thesis using log_rotation [of ?s ?es] by (simp split: option.splits)
qed

subsection \<open>The PID file\<close>

text \<open>The last element of a path survives \<open>Clean\<close>, unless it is \<open>.\<close> or \<open>..\<close>.\<close>

definition file_name :: "string \<Rightarrow> bool" where
  "file_name n \<longleftrightarrow> n \<notin> {'''', ''.'', ''..''} \<and> CHR ''/'' \<notin> set n"

definition in_dir :: "string \<Rightarrow> string \<Rightarrow> bool" where
  "in_dir n p \<longleftrightarrow> p = n \<or> (\<exists>q. p = q @ ''/'' @ n)"

lemma split_slash_name: "CHR ''/'' \<notin> set n \<Longrightarrow> split_slash n = [n]"
  by (induction n) auto

lemma split_slash_not_Nil [simp]: "split_slash s \<noteq> []"
  by (induction s) (auto split: list.splits)

lemma split_slash_append: "split_slash (q @ CHR ''/'' # n) = split_slash q @ split_slash n"
proof (induction q)
  case (Cons c q)
  obtain p ps where "split_slash q = p # ps" by (cases "split_slash q") auto
  then show ?case using Cons by simp
qed simp

lemma str_join_snoc: "str_join sep (xs @ [x]) = (if xs = [] then x else str_join sep xs @ sep @ x)"
  by (induction sep xs rule: str_join.induct) (auto simp: neq_Nil_conv)

lemma Clean_in_dir:
  assumes "file_name n" "in_dir n p"
  shows "in_dir n (filepath_Clean p)"
proof -
  have "\<exists>es. split_slash p = es @ [n]"
    using assms by (auto simp: in_dir_def file_name_def split_slash_name split_slash_append)
  then obtain es where "split_slash p = es @ [n]" ..
  then have "\<exists>ps. fold (clean_push r) (split_slash p) [] = n # ps" for r
    using assms(1) by (simp add: file_name_def clean_push_def)
  then obtain ps where ps: "fold (clean_push (prefix ''/'' p)) (split_slash p) [] = n # ps" by blast
  have "in_dir n (str_join ''/'' (rev (n # ps)))" by (auto simp: str_join_snoc in_dir_def)
  moreover have "in_dir n (''/'' @ s) \<and> s \<noteq> ''''" if "in_dir n s" for s
    using that assms(1) by (auto simp: in_dir_def file_name_def)
  ultimately show ?thesis by (simp only: filepath_Clean_def Let_def ps) simp
qed

lemma Join_in_dir:
  assumes "file_name n"
  shows "in_dir n (filepath_Join [dir, n])"
proof -
  have "in_dir n (str_join ''/'' (dropWhile (\<lambda>e. e = '''') [dir, n]))"
    using assms by (auto simp: in_dir_def file_name_def)
  moreover have "dropWhile (\<lambda>e. e = '''') [dir, n] \<noteq> []" using assms by (simp add: file_name_def)
  ultimately show ?thesis
    unfolding filepath_Join_def by (auto intro: Clean_in_dir assms simp del: dropWhile.simps split: list.splits)
qed

lemma in_dir_last: "in_dir n p \<Longrightarrow> n \<noteq> '''' \<Longrightarrow> p \<noteq> '''' \<and> last p = last n"
  by (auto simp: in_dir_def)

text \<open>The PID file is not one of the other files that the process writes.\<close>

lemma pid_path_apart:
  fixes fl :: main_flags
  defines "mp \<equiv> main_paths_of fl"
  shows "mp_pidFile mp \<notin> {mp_log mp, mp_alert mp, filepath_Clean (mp_snapshot mp), filepath_Clean (mp_snapshot mp) @ ''.tmp''}"
proof -
  let ?dir = "flag_value ''/var/lib/clattermark'' (fl_stateDir fl)"
  have n: "file_name ''clattermark.pid''" "file_name ''clattermark.log''" "file_name ''alerts.log''" "file_name ''dyn_excludes.json''"
    by (simp_all add: file_name_def)
  have "last (mp_pidFile mp) = CHR ''d''" "last (mp_log mp) = CHR ''g''" "last (mp_alert mp) = CHR ''g''"
    using in_dir_last [OF Join_in_dir [OF n(1), of ?dir]] in_dir_last [OF Join_in_dir [OF n(2), of ?dir]]
      in_dir_last [OF Join_in_dir [OF n(3), of ?dir]] by (simp_all add: mp_def main_paths_of_def Let_def)
  moreover have "last (filepath_Clean (mp_snapshot mp)) = CHR ''n''"
    using in_dir_last [OF Clean_in_dir [OF n(4) Join_in_dir [OF n(4), of ?dir]]] by (simp add: mp_def main_paths_of_def Let_def)
  ultimately show ?thesis by auto
qed

lemma SnapshotToFile_other:
  "p \<notin> {filepath_Clean path, filepath_Clean path @ ''.tmp''} \<Longrightarrow> snd (SnapshotToFile io path m fs) p = fs p"
  by (cases "write_fate io"; cases "rename_fate io"; cases "mkdir_fate io")
    (auto simp: SnapshotToFile_def writeDynamicExcludesSnapshot_def os_WriteFile_def os_Rename_def Let_def)

lemma start_main_other:
  assumes "start_main env se configPath path fs st = (r, fs', st')" "p \<notin> {filepath_Clean path, filepath_Clean path @ ''.tmp''}"
  shows "fs' p = fs p"
proof (cases r)
  case (Inl err)
  then have "fs' = fs" using assms(1) by (auto simp: start_main_def Let_def split: sum.splits prod.splits)
  then show ?thesis by simp
next
  case (Inr cm)
  from start_main_Inr [OF assms(1) [unfolded Inr]]
  have "fs' = snd (SnapshotToFile (se_snapshot_io se) path (cm_excludes cm) fs)" .
  then show ?thesis using SnapshotToFile_other [OF assms(2)] by simp
qed

lemma os_OpenAppend_other: "os_OpenAppend fate path fs = (d, fs') \<Longrightarrow> p \<noteq> path \<Longrightarrow> fs' p = fs p"
  by (auto simp: os_OpenAppend_def split: sum.splits if_splits)

lemma open_process_pid:
  assumes "open_process oe mp fs = (r, fs')" "oe_mkdir oe = None" "oe_pid_fate oe = Written" "mp_pidFile mp \<notin> {mp_log mp, mp_alert mp}"
  shows "fs' (mp_pidFile mp) = Some (Itoa (oe_pid oe)) \<and> (\<forall>b logs. r = Inr (b, logs) \<longrightarrow> b)"
proof -
  let ?fs1 = "fs(mp_pidFile mp \<mapsto> Itoa (oe_pid oe))"
  obtain d fs2 where o: "os_OpenAppend (oe_log oe) (mp_log mp) ?fs1 = (d, fs2)" by fastforce
  obtain d' fs3 where o': "os_OpenAppend (oe_alert oe) (mp_alert mp) fs2 = (d', fs3)" by fastforce
  have "fs2 (mp_pidFile mp) = Some (Itoa (oe_pid oe))" using os_OpenAppend_other [OF o] assms(4) by simp
  moreover have "fs3 (mp_pidFile mp) = fs2 (mp_pidFile mp)" using os_OpenAppend_other [OF o'] assms(4) by simp
  ultimately show ?thesis
    using assms(1-3) o o' by (auto simp: open_process_def os_WriteFile_def split: sum.splits)
qed

text \<open>
  C19. The PID file and the end: a process that started has its PID file, and at the end, whatever became of the drain and of the final snapshot, the
  file is removed, the web server listens no more and its requests are over or cut off, and the connection to the server is closed
  just when the workers have drained. But a process that could not start leaves its PID file behind, because \<open>log.Fatal\<close> does not run the
  deferred removal.
\<close>

theorem process_end:
  assumes "start_process env oe se fl fs st = (r, fs1, st1)" and "oe_mkdir oe = None" and "oe_pid_fate oe = Written"
  shows "fs1 (mp_pidFile (main_paths_of fl)) = Some (Itoa (oe_pid oe))
    \<and> (\<forall>p ee excludes didDrain fs2 web k fs3. r = Inr p \<and> ee_remove ee = None
          \<and> end_process ee excludes didDrain p fs2 = (web, k, fs3) \<longrightarrow>
        fs3 (mp_pidFile (main_paths_of fl)) = None \<and> \<not> wl_listening web
        \<and> (wl_active web = [] \<longleftrightarrow> (\<forall>d \<in> set (wl_active (ee_web ee)). d \<le> 5 * Second))
        \<and> (kdb_open k \<longleftrightarrow> \<not> didDrain))"
proof -
  let ?mp = "main_paths_of fl"
  obtain o1 fs0 where o: "open_process oe ?mp fs = (o1, fs0)" by fastforce
  have opened: "fs0 (mp_pidFile ?mp) = Some (Itoa (oe_pid oe))" "\<And>b logs. o1 = Inr (b, logs) \<Longrightarrow> b"
    using open_process_pid [OF o assms(2,3)] pid_path_apart [of fl] by auto
  obtain r2 fs' st2 where m: "start_main env se (mp_config ?mp) (mp_snapshot ?mp) fs0 st = (r2, fs', st2)"
    using prod_cases3 by blast
  have "fs' (mp_pidFile ?mp) = Some (Itoa (oe_pid oe))"
    using start_main_other [OF m] opened(1) pid_path_apart [of fl] by simp
  then have "fs1 (mp_pidFile ?mp) = Some (Itoa (oe_pid oe))"
    using assms(1) o m opened(1) by (auto simp: start_process_def Let_def split: sum.splits)
  moreover have "ps_paths p = ?mp \<and> ps_pid_deferred p \<and> kdb_open (cm_keydb (ps_parts p))" if "r = Inr p" for p
  proof -
    have "\<exists>b logs cm. o1 = Inr (b, logs) \<and> r2 = Inr cm
        \<and> p = \<lparr>ps_paths = ?mp, ps_pid_deferred = b, ps_logs = logs, ps_parts = cm\<rparr>"
      using assms(1) o m that by (auto simp: start_process_def Let_def split: sum.splits prod.splits)
    then obtain b logs cm where p: "o1 = Inr (b, logs)" "r2 = Inr cm"
      "p = \<lparr>ps_paths = ?mp, ps_pid_deferred = b, ps_logs = logs, ps_parts = cm\<rparr>" by blast
    moreover obtain cfg where "read_start_config se fs0 (mp_config ?mp) = Inr cfg"
      using start_main_Inr [OF m [unfolded p(2)]] by blast
    ultimately show ?thesis using start_main_keydb [OF m [unfolded p(2)]] opened(2) [OF p(1)] by (simp add: keydb_New_def)
  qed
  ultimately show ?thesis
    by (auto simp: end_process_def finish_main_def shutdownWeb_def server_Shutdown_def keydb_Close_def os_Remove_def Let_def
        filter_empty_conv not_less split: prod.splits if_splits)
qed

text \<open>A start whose configuration file is missing.\<close>

definition plain_open :: open_env where
  "plain_open = \<lparr>oe_mkdir = None, oe_pid = 42, oe_pid_fate = Written, oe_log = Inr 3, oe_alert = Inr 4\<rparr>"

definition plain_flags :: main_flags where
  "plain_flags = \<lparr>fl_config = Some ''/c'', fl_stateDir = Some ''/v''\<rparr>"

theorem process_end_witness:
  "\<exists>fs st. start_process mem_env plain_open plain_start plain_flags Map.empty mem_empty = (Inl ErrNotExist, fs, st)
     \<and> fs ''/v/clattermark.pid'' = Some ''42''"
proof -
  have mp: "main_paths_of plain_flags = \<lparr>mp_config = ''/c'', mp_stateDir = ''/v'', mp_pidFile = ''/v/clattermark.pid'',
      mp_log = ''/v/clattermark.log'', mp_alert = ''/v/alerts.log'', mp_snapshot = ''/v/dyn_excludes.json''\<rparr>"
    by (simp add: main_paths_of_def plain_flags_def flag_value_def filepath_Join_def filepath_Clean_def clean_push_def)
  obtain r fs st where s: "start_process mem_env plain_open plain_start plain_flags Map.empty mem_empty = (r, fs, st)"
    using prod_cases3 by blast
  then have "r = Inl ErrNotExist"
    by (simp add: start_process_def mp open_process_def plain_open_def os_WriteFile_def os_OpenAppend_def start_main_def
        readConfig_def os_ReadFile_def plain_start_def)
  moreover have "Itoa 42 = ''42''" by code_simp
  ultimately show ?thesis using process_end [OF s] s by (simp add: plain_open_def mp)
qed

end
