(* ===== verification/Spec2Isabelle.thy ===== *)
theory Spec2Isabelle
  imports Log_Parser Keydb Incident_Store Telemetry Dynamic_Excludes Excludes_Snapshot Alert_Dedup Config Decision
    Json_Excludes Notifier Incident Incident_Recovery Incident_Lifecycle Web Excludes_Races Engine Engine_Alerts
    Engine_Mute Pipeline Daemon Startup Process
begin

text \<open>
  Clattermark, a log alerting daemon. It tails log files, matches every line against configured monitors,
  drops what is excluded, asks a decision service whether an alert is worth sending, collects related
  events into incidents, suppresses duplicates and sends the rest to a chat service. KeyDB (a Redis server)
  holds what several instances share: the dynamic excludes, the reservations of the deduplication, the
  incidents and the outbox of their recoveries.

  The theories follow the files of the program; the names are those of the Go functions and types.

  Foundations. \<open>Go_Base\<close>: errors and results, \<open>int64\<close> arithmetic written out with its wrap-around, Go maps as
  association lists, \<open>time.Duration\<close>. \<open>Go_Strings\<close>: the functions of strings, strconv and unicode/utf8
  that the program calls, on byte strings. \<open>Regexp\<close>: regular expressions with Go's leftmost-first
  matching and its capture groups. \<open>Json\<close>, \<open>Json_Decode\<close>: encoding/json's printer, parser and decoding into
  Go values. \<open>Go_Http\<close>, \<open>Http_Client\<close>: requests and responses. \<open>Go_Time\<close>: printing of durations and dates.
  \<open>Sha256\<close>: the hash function over 32-bit words. \<open>Redis\<close>: the commands of the server.

  \<open>Log_Parser\<close> (main.go, parseLine and its four expressions). \<open>Keydb\<close> (keydb/keydb.go: JSON values, queues,
  dynamic excludes, reservations): a function of the package is a script, which maps the state of the server to
  a result and a state; the optimistic transaction of UpdateDynExclude has its 16 attempts, with the
  commands of other clients between its steps and with lost requests and replies as arguments.
  \<open>Incident_Store\<close> (keydb/keydb.go: the three Lua scripts and the functions around them).
  \<open>Dynamic_Excludes\<close>, \<open>Excludes_Snapshot\<close> (dynamic_excludes.go): the store over an explicit heap of arrays,
  the snapshot file, the two tickers. \<open>Alert_Dedup\<close> (alert_dedup.go). \<open>Config\<close> (the configuration part of
  main.go). \<open>Decision\<close> (decision.go), with GetOrEvaluate as a step relation over any number of threads.
  \<open>Json_Excludes\<close> (json_excludes.go). \<open>Notifier\<close> (notifier.go). \<open>Incident\<close>, \<open>Incident_Recovery\<close>, \<open>Incident_Lifecycle\<close> (incident.go).
  \<open>Web\<close> (web.go), \<open>Excludes_Races\<close> (its handlers and the refresher on one store: a run is a list of events, in which an answer of the repository
  and the replacement of the store are two). \<open>Telemetry\<close> (telemetry.go). \<open>Engine\<close> (main.go, checkLine and the exclusion of lines), with its properties
  in \<open>Engine_Alerts\<close> and, composed with the web server, in \<open>Engine_Mute\<close>. \<open>Pipeline\<close> (main.go, the goroutines of the
  tails, the channel, the workers and the shutdown, as a step relation with one access to the channel, the context or a metric in each step). \<open>Daemon\<close> (main.go, the loops around
  it: the watchdog, the offsets of the tails, the gauge of the outbox, the log files, the excludes of the snapshot). \<open>Startup\<close> (main.go,
  \<open>main\<close> itself: the components put together, keydb.New). \<open>Process\<close> (main.go, the process around it: the paths, the PID file, the logs and
  \<open>SIGHUP\<close>, the end with its deferred calls; shutdownWeb and keydb.Close).

  What the theorems show. The transaction on the dynamic excludes is atomic among the commands of other clients, and no failed
  call leaves a trace. A reservation is exclusive, so processes that share the server send an alert once per time
  to live; the engine never sends a duplicate of a delivered alert, and a failed delivery gives the reservation
  back. Concurrent evaluations of one fingerprint share one request. An alert goes out only with a
  reason, and a muted value drops its lines. Incidents count and notify at their cadence, and quiet ones
  reach the outbox, which is published in order and drains; from the first event to the recovery one
  incident leads to one recovery with all its hosts and processes. The lines of a file reach the workers in order,
  without loss or doubling, and a drained shutdown has processed them. A process starts
  well formed or not at all, and a stop and a start lose no exclude; its end removes the PID file and closes what is open.
  In every run the excludes in the store are those that the server of this run held at a moment since no goroutine held an answer. The store in memory, although its slices share
  arrays, behaves like values. The web server changes nothing without leave, and grants a
  client at most twice its limit in an interval of a window's length, when no call waits for the limiter's lock after reading the clock.

  Interfaces. What a component relies on is a locale, interpreted by what provides it: \<open>redis\<close> (the
  server, interpreted by a server in memory), \<open>excludes_source\<close> and \<open>excludes_repository\<close> (the refresher
  and the restored snapshot over keydb), \<open>dedup_store\<close> (the deduper over keydb), \<open>outbox\<close> (the
  publication of recoveries over keydb's queues).

  Bounds and fuel. UpdateDynExclude takes a list of attempts and stops after maxRetries = 16; the publication of
  recoveries takes rounds of 20 items; the tickers take one element of a list for each tick. A run of the
  pipeline is any number of steps; its weight bounds those after the channel was closed by 5 (queue\_size + workers).
  Regular expression matching and JSON parsing recurse with fuel that their lemmas show to be enough.

  Parameters, with what is assumed of them stated where it is used: the state and the commands of the server
  (locale \<open>redis\<close>), the network (\<open>http_env\<close>), url.Parse, regexp.Compile for configured patterns,
  strconv.ParseFloat, unicode.ToLower, the rounding of float64 and its printing, the growth of slices,
  and the iteration order of maps where a result depends on it.

  Where the code falls short of what it means to do, the theorem that shows it says so: a late answer overwrites a newer one
  until the next refresh (\<open>Excludes_Races\<close>), overlapping rounds of publishing drop recoveries that neither sent (\<open>Incident\<close>), the recovery of an
  incident without a host or a process is dropped unsent (\<open>Incident_Recovery\<close>), the gauge of the channel's depth can be stale (\<open>Pipeline\<close>), a failed start
  leaves its PID file and a late \<open>SIGHUP\<close> ends the drain (\<open>Process\<close>).

  Not modelled: the lines that the process writes to its own log; the connection pool and the listening sockets, which are the
  libraries'; package tail, which is third-party, is what delivers the lines of a file and the offset where it stands.
\<close>

end
